(* ===== verification/Prelude.thy ===== *)
theory Prelude
  imports Main "HOL-Library.Word" "HOL-Library.AList"
begin

text \<open>
  The shared vocabulary of the development: Go's machine integers and byte strings, the
  parts of the \<^verbatim>\<open>strings\<close> and \<^verbatim>\<open>slices\<close> packages the panel uses, SQLite's \<^verbatim>\<open>lower\<close>, Go maps
  as association lists, and the generic lemmas and theorem collections the component
  theories rest on.

  A Go string is a byte string: a \<^typ>\<open>string\<close> here, one \<^typ>\<open>char\<close> per byte.
  A Go map is an association list with distinct keys; where the program ranges over a map,
  whose order Go leaves open, the operation takes the order as an argument and the theorems
  hold for every order.
\<close>

section \<open>Theorem collections\<close>

named_theorems go_string_defs \<open>definitions of the string helpers, for evaluation\<close>
named_theorems alist_simps \<open>lookup, update and delete on Go maps\<close>

section \<open>Integers and results\<close>

type_synonym u64 = "64 word"
type_synonym 'v gomap = "(string \<times> 'v) list"

abbreviation has_key :: "('k \<times> 'v) list \<Rightarrow> 'k \<Rightarrow> bool" where
  "has_key m k \<equiv> map_of m k \<noteq> None"

abbreviation get_or :: "'v \<Rightarrow> ('k \<times> 'v) list \<Rightarrow> 'k \<Rightarrow> 'v" where
  "get_or d m k \<equiv> (case map_of m k of None \<Rightarrow> d | Some v \<Rightarrow> v)"

lemma map_of_update [alist_simps, simp]:
  "map_of (AList.update k v m) = (map_of m)(k \<mapsto> v)"
  by (rule update_conv')

lemma map_of_delete [alist_simps, simp]:
  "map_of (AList.delete k m) = (map_of m)(k := None)"
  by (rule delete_conv')

lemma keys_update: "set (map fst (AList.update k v m)) = insert k (set (map fst m))"
  by (induction m) auto

lemma keys_delete: "set (map fst (AList.delete k m)) = set (map fst m) - {k}"
  by (induction m) (auto simp: AList.delete_eq)

lemma distinct_keys_update [intro]:
  "distinct (map fst m) \<Longrightarrow> distinct (map fst (AList.update k v m))"
  by (rule distinct_update)

lemma distinct_keys_delete [intro]:
  "distinct (map fst m) \<Longrightarrow> distinct (map fst (AList.delete k m))"
  by (rule distinct_delete)

lemma delete_Nil_iff: "AList.delete k m = [] \<longleftrightarrow> set (map fst m) \<subseteq> {k}"
  by (auto simp: AList.delete_eq filter_empty_conv)

lemma length_keys_card: "distinct (map fst m) \<Longrightarrow> length m = card (dom (map_of m))"
  by (metis distinct_card dom_map_of_conv_image_fst length_map set_map)

text \<open>\<^verbatim>\<open>maps.EqualFunc\<close> with equality: same length and every entry of one in the other.\<close>

lemma gomap_equal_iff:
  assumes "distinct (map fst a)" and "distinct (map fst b)"
  shows "(length a = length b \<and> (\<forall>(k, v) \<in> set a. map_of b k = Some v)) \<longleftrightarrow> map_of a = map_of b"
proof
  assume eq: "length a = length b \<and> (\<forall>(k, v) \<in> set a. map_of b k = Some v)"
  have le: "map_of a \<subseteq>\<^sub>m map_of b"
    using eq by (fastforce simp: map_le_def dest: map_of_SomeD)
  then have "dom (map_of a) \<subseteq> dom (map_of b)" by (rule map_le_implies_dom_le)
  moreover have "card (dom (map_of a)) = card (dom (map_of b))"
    using eq assms by (simp flip: length_keys_card)
  ultimately have "dom (map_of a) = dom (map_of b)"
    by (simp add: card_subset_eq finite_dom_map_of)
  with le show "map_of a = map_of b"
    by (metis map_le_antisym map_le_def)
next
  assume eq: "map_of a = map_of b"
  then have "length a = length b" by (simp add: length_keys_card assms)
  moreover from eq assms(1) have "\<forall>(k, v) \<in> set a. map_of b k = Some v"
    by (metis (mono_tags, lifting) case_prodI2 map_of_is_SomeI)
  ultimately show "length a = length b \<and> (\<forall>(k, v) \<in> set a. map_of b k = Some v)" by blast
qed

section \<open>Byte strings\<close>

subsection \<open>ASCII case\<close>

definition ascii_lower :: "char \<Rightarrow> char" where
  "ascii_lower c = (let n = (of_char c :: nat) in if 65 \<le> n \<and> n \<le> 90 then char_of (n + 32) else c)"

definition ascii_upper :: "char \<Rightarrow> char" where
  "ascii_upper c = (let n = (of_char c :: nat) in if 97 \<le> n \<and> n \<le> 122 then char_of (n - 32) else c)"

text \<open>SQLite's \<^verbatim>\<open>lower(X)\<close> folds the ASCII letters only.\<close>

definition sql_lower :: "string \<Rightarrow> string" where
  "sql_lower s = map ascii_lower s"

text \<open>
  \<^verbatim>\<open>strings.ToLower\<close>, \<^verbatim>\<open>strings.ToUpper\<close> and \<^verbatim>\<open>strings.EqualFold\<close>. ASCII letters are mapped,
  and so are the code points beyond ASCII whose case mapping is an ASCII letter: U+212A and
  U+0130 lower to \<^verbatim>\<open>k\<close> and \<^verbatim>\<open>i\<close>, U+0131 and U+017F upper to \<^verbatim>\<open>I\<close> and \<^verbatim>\<open>S\<close>, and U+212A and
  U+017F fold with \<^verbatim>\<open>k\<close> and \<^verbatim>\<open>s\<close>. Every other byte is kept, so the three functions decide
  exactly as Go does whenever one side of a comparison is ASCII, which is the case for every
  fixed name the program compares with; Unicode case variants of two non-ASCII strings are
  told apart here where Go would identify them.
\<close>

fun to_lower :: "string \<Rightarrow> string" where
  "to_lower [] = []"
| "to_lower (c # r) =
     (if c = CHR 0xE2 \<and> take 2 r = [CHR 0x84, CHR 0xAA] then CHR ''k'' # to_lower (drop 2 r)
      else if c = CHR 0xC4 \<and> take 1 r = [CHR 0xB0] then CHR ''i'' # to_lower (drop 1 r)
      else ascii_lower c # to_lower r)"

fun to_upper :: "string \<Rightarrow> string" where
  "to_upper [] = []"
| "to_upper (c # r) =
     (if c = CHR 0xC4 \<and> take 1 r = [CHR 0xB1] then CHR ''I'' # to_upper (drop 1 r)
      else if c = CHR 0xC5 \<and> take 1 r = [CHR 0xBF] then CHR ''S'' # to_upper (drop 1 r)
      else ascii_upper c # to_upper r)"

fun fold_key :: "string \<Rightarrow> string" where
  "fold_key [] = []"
| "fold_key (c # r) =
     (if c = CHR 0xE2 \<and> take 2 r = [CHR 0x84, CHR 0xAA] then CHR ''k'' # fold_key (drop 2 r)
      else if c = CHR 0xC5 \<and> take 1 r = [CHR 0xBF] then CHR ''s'' # fold_key (drop 1 r)
      else ascii_lower c # fold_key r)"

definition equal_fold :: "string \<Rightarrow> string \<Rightarrow> bool" where
  "equal_fold a b \<longleftrightarrow> fold_key a = fold_key b"

lemma equal_fold_refl [simp]: "equal_fold a a"
  by (simp add: equal_fold_def)

lemma equal_fold_sym: "equal_fold a b \<longleftrightarrow> equal_fold b a"
  by (auto simp: equal_fold_def)

lemma equal_fold_trans: "equal_fold a b \<Longrightarrow> equal_fold b c \<Longrightarrow> equal_fold a c"
  by (simp add: equal_fold_def)

subsection \<open>Prefixes, suffixes, search\<close>

definition has_prefix :: "string \<Rightarrow> string \<Rightarrow> bool" where
  "has_prefix s p \<longleftrightarrow> take (length p) s = p"

definition has_suffix :: "string \<Rightarrow> string \<Rightarrow> bool" where
  "has_suffix s p \<longleftrightarrow> length p \<le> length s \<and> drop (length s - length p) s = p"

lemma has_prefix_append [simp]: "has_prefix (p @ s) p"
  by (simp add: has_prefix_def)

lemma has_suffix_append [simp]: "has_suffix (s @ p) p"
  by (simp add: has_suffix_def)

lemma has_prefixD: "has_prefix s p \<Longrightarrow> \<exists>r. s = p @ r"
  by (metis append_take_drop_id has_prefix_def)

lemma has_suffixD: "has_suffix s p \<Longrightarrow> \<exists>r. s = r @ p"
  by (metis append_take_drop_id has_suffix_def)

subsection \<open>TrimSpace\<close>

text \<open>The UTF-8 encodings of the code points \<^verbatim>\<open>unicode.IsSpace\<close> accepts.\<close>

definition space_seqs :: "string list" where
  "space_seqs = [[CHR 0x20], [CHR 0x09], [CHR 0x0A], [CHR 0x0B], [CHR 0x0C], [CHR 0x0D],
     [CHR 0xC2, CHR 0x85], [CHR 0xC2, CHR 0xA0], [CHR 0xE1, CHR 0x9A, CHR 0x80],
     [CHR 0xE2, CHR 0x80, CHR 0x80], [CHR 0xE2, CHR 0x80, CHR 0x81], [CHR 0xE2, CHR 0x80, CHR 0x82],
     [CHR 0xE2, CHR 0x80, CHR 0x83], [CHR 0xE2, CHR 0x80, CHR 0x84], [CHR 0xE2, CHR 0x80, CHR 0x85],
     [CHR 0xE2, CHR 0x80, CHR 0x86], [CHR 0xE2, CHR 0x80, CHR 0x87], [CHR 0xE2, CHR 0x80, CHR 0x88],
     [CHR 0xE2, CHR 0x80, CHR 0x89], [CHR 0xE2, CHR 0x80, CHR 0x8A], [CHR 0xE2, CHR 0x80, CHR 0xA8],
     [CHR 0xE2, CHR 0x80, CHR 0xA9], [CHR 0xE2, CHR 0x80, CHR 0xAF], [CHR 0xE2, CHR 0x81, CHR 0x9F],
     [CHR 0xE3, CHR 0x80, CHR 0x80]]"

lemma space_seqs_nonempty: "p \<in> set space_seqs \<Longrightarrow> p \<noteq> []"
  by (auto simp: space_seqs_def)

function trim_left :: "string list \<Rightarrow> string \<Rightarrow> string" where
  "trim_left seqs s = (case find (\<lambda>p. p \<noteq> [] \<and> has_prefix s p) seqs of
      None \<Rightarrow> s | Some p \<Rightarrow> trim_left seqs (drop (length p) s))"
  by pat_completeness auto
termination
  by (relation "measure (\<lambda>(seqs, s). length s)")
     (auto simp: find_Some_iff has_prefix_def split: if_splits
       intro!: diff_less intro: gr0I)

declare trim_left.simps [simp del]

definition trim_space :: "string \<Rightarrow> string" where
  "trim_space s = rev (trim_left (map rev space_seqs) (rev (trim_left space_seqs s)))"

lemma trim_left_suffix: "\<exists>p. s = p @ trim_left seqs s"
proof (induction seqs s rule: trim_left.induct)
  case (1 seqs s)
  show ?case
  proof (cases "find (\<lambda>p. p \<noteq> [] \<and> has_prefix s p) seqs")
    case None
    then show ?thesis by (simp add: trim_left.simps [of seqs s])
  next
    case (Some p)
    with 1 obtain q where "drop (length p) s = q @ trim_left seqs (drop (length p) s)" by blast
    then have "s = (take (length p) s @ q) @ trim_left seqs (drop (length p) s)"
      by (metis append.assoc append_take_drop_id)
    moreover from Some have "trim_left seqs s = trim_left seqs (drop (length p) s)"
      by (simp add: trim_left.simps [of seqs s])
    ultimately show ?thesis by metis
  qed
qed

lemma trim_left_stop: "find (\<lambda>p. p \<noteq> [] \<and> has_prefix s p) seqs = None \<Longrightarrow> trim_left seqs s = s"
  by (simp add: trim_left.simps [of seqs s])

lemma trim_left_idem: "trim_left seqs (trim_left seqs s) = trim_left seqs s"
proof (induction seqs s rule: trim_left.induct)
  case (1 seqs s)
  show ?case
  proof (cases "find (\<lambda>p. p \<noteq> [] \<and> has_prefix s p) seqs")
    case None
    then show ?thesis by (simp add: trim_left_stop)
  next
    case (Some p)
    with 1 show ?thesis by (simp add: trim_left.simps [of seqs s])
  qed
qed

subsection \<open>Split and Join\<close>

text \<open>\<^verbatim>\<open>strings.Split(s, sep)\<close> for a one-byte separator, and \<^verbatim>\<open>strings.Join\<close>.\<close>

fun split_byte :: "char \<Rightarrow> string \<Rightarrow> string list" where
  "split_byte c [] = [[]]"
| "split_byte c (x # xs) =
     (if x = c then [] # split_byte c xs
      else case split_byte c xs of [] \<Rightarrow> [[x]] | w # ws \<Rightarrow> (x # w) # ws)"

fun join :: "string \<Rightarrow> string list \<Rightarrow> string" where
  "join sep [] = []"
| "join sep [w] = w"
| "join sep (w # v # ws) = w @ sep @ join sep (v # ws)"

lemma split_byte_nonempty [simp]: "split_byte c s \<noteq> []"
  by (induction s) (auto split: list.splits)

lemma join_split_byte: "join [c] (split_byte c s) = s"
proof (induction s)
  case Nil
  then show ?case by simp
next
  case (Cons x xs)
  obtain w ws where "split_byte c xs = w # ws"
    using split_byte_nonempty [of c xs] by (cases "split_byte c xs") auto
  with Cons show ?case by (cases ws) auto
qed

lemma split_byte_no_sep: "w \<in> set (split_byte c s) \<Longrightarrow> c \<notin> set w"
proof (induction s arbitrary: w)
  case Nil
  then show ?case by simp
next
  case (Cons x xs)
  obtain v vs where "split_byte c xs = v # vs"
    using split_byte_nonempty [of c xs] by (cases "split_byte c xs") auto
  with Cons show ?case by (auto split: if_splits)
qed

lemmas [go_string_defs] =
  ascii_lower_def ascii_upper_def sql_lower_def equal_fold_def has_prefix_def has_suffix_def
  trim_space_def space_seqs_def

section \<open>Ordered selections\<close>

text \<open>Keeping the first occurrence of every element, in order.\<close>

fun dedupe_from :: "'a list \<Rightarrow> 'a list \<Rightarrow> 'a list" where
  "dedupe_from seen [] = []"
| "dedupe_from seen (x # xs) =
     (if x \<in> set seen then dedupe_from seen xs else x # dedupe_from (x # seen) xs)"

lemma set_dedupe_from: "set (dedupe_from seen xs) = set xs - set seen"
  by (induction seen xs rule: dedupe_from.induct) auto

lemma dedupe_from_snoc:
  "dedupe_from seen (xs @ [x]) =
     dedupe_from seen xs @ (if x \<in> set seen \<union> set xs then [] else [x])"
  by (induction seen xs rule: dedupe_from.induct) auto

lemma distinct_dedupe_from: "distinct (dedupe_from seen xs)"
  by (induction seen xs rule: dedupe_from.induct) (auto simp: set_dedupe_from)

text \<open>Appending what is not yet there, in order: the shape of every \<^verbatim>\<open>slices.Contains\<close> loop.\<close>

fun append_missing :: "'a list \<Rightarrow> 'a list \<Rightarrow> 'a list" where
  "append_missing acc [] = acc"
| "append_missing acc (x # xs) =
     append_missing (if x \<in> set acc then acc else acc @ [x]) xs"

lemma set_append_missing [simp]: "set (append_missing acc xs) = set acc \<union> set xs"
  by (induction acc xs rule: append_missing.induct) auto

lemma append_missing_append:
  "append_missing acc (xs @ ys) = append_missing (append_missing acc xs) ys"
  by (induction acc xs rule: append_missing.induct) auto

lemma append_missing_prefix: "\<exists>more. append_missing acc xs = acc @ more"
proof (induction acc xs rule: append_missing.induct)
  case (2 acc x xs)
  then show ?case by (cases "x \<in> set acc") auto
qed simp

lemma distinct_append_missing: "distinct acc \<Longrightarrow> distinct (append_missing acc xs)"
  by (induction acc xs rule: append_missing.induct) auto

lemma append_missing_subset: "set xs \<subseteq> set acc \<Longrightarrow> append_missing acc xs = acc"
  by (induction acc xs rule: append_missing.induct) auto

lemma append_missing_same_length:
  "length (append_missing acc xs) = length acc \<longleftrightarrow> set xs \<subseteq> set acc"
proof
  assume "length (append_missing acc xs) = length acc"
  then have "append_missing acc xs = acc"
    using append_missing_prefix [of acc xs] by auto
  then show "set xs \<subseteq> set acc"
    by (metis Un_upper2 set_append_missing)
qed (simp add: append_missing_subset)

lemma append_missing_idem: "append_missing (append_missing acc xs) xs = append_missing acc xs"
  by (rule append_missing_subset) simp

section \<open>Generic list lemmas\<close>

lemma map_filter_id: "(\<And>x. x \<in> set xs \<Longrightarrow> P x \<Longrightarrow> f x = x) \<Longrightarrow>
    map (\<lambda>x. if P x then f x else x) xs = xs"
  by (induction xs) auto

lemma find_cong_map:
  "(\<And>x. x \<in> set xs \<Longrightarrow> P (f x) = P x) \<Longrightarrow> find P (map f xs) = map_option f (find P xs)"
  by (induction xs) auto

lemma find_SomeD: "find P xs = Some x \<Longrightarrow> x \<in> set xs \<and> P x"
  by (auto simp: find_Some_iff)

lemma find_filter_None: "find P xs = None \<Longrightarrow> filter P xs = []"
  by (auto simp: find_None_iff filter_empty_conv)

lemma distinct_map_eqD:
  "distinct (map f xs) \<Longrightarrow> x \<in> set xs \<Longrightarrow> y \<in> set xs \<Longrightarrow> f x = f y \<Longrightarrow> x = y"
  by (auto simp: distinct_map inj_on_def)

lemma find_filter_conj: "find P (filter Q xs) = find (\<lambda>x. P x \<and> Q x) xs"
  by (induction xs) auto

lemma find_append: "find P (xs @ ys) = (case find P xs of None \<Rightarrow> find P ys | Some x \<Rightarrow> Some x)"
  by (induction xs) auto

lemma fold_fixed: "(\<And>x. x \<in> set xs \<Longrightarrow> f x s = s) \<Longrightarrow> fold f xs s = s"
  by (induction xs) auto

lemma map_of_sort_key:
  assumes "distinct (map fst m)"
  shows "map_of (sort_key fst m) = map_of m" and "distinct (map fst (sort_key fst m))"
proof -
  show dist: "distinct (map fst (sort_key fst m))"
    using assms by (auto simp: distinct_map)
  show "map_of (sort_key fst m) = map_of m"
    using map_of_inject_set [OF dist assms] by simp
qed

end
