(* ===== verification/Reconcile.thy ===== *)
theory Reconcile
  imports Prelude
begin

text \<open>
  The package \<^verbatim>\<open>internal/reconcile\<close>: a \<open>tracker\<close> turns xray's raw cumulative counters, which
  restart at zero with xray, into a durable total and a speed estimate. The model keeps the
  counters as 64-bit words, the two-slot ring of samples as a list of length two, and takes
  the floating-point quotient of the speed (\<^verbatim>\<open>uint64(float64(bytes) / elapsed.Seconds())\<close>)
  as a function argument \<open>rate\<close>; elapsed times are integers of nanoseconds.

  The theorems compare the tracker with two reference definitions: the total with the sum of
  the last readings of the counter's epochs, the ring with the last two entries of the whole
  history of samples.
\<close>

section \<open>The tracker\<close>

record delta_sample =
  ds_bytes :: u64
  ds_elapsed :: int

record tracker =
  creditBaseline :: bool
  tr_seen :: bool
  lastRaw :: u64
  lastDelta :: u64
  tr_total :: u64
  window :: "delta_sample list"
  samples :: nat

definition NewTracker :: "bool \<Rightarrow> tracker" where
  "NewTracker credit = \<lparr>creditBaseline = credit, tr_seen = False, lastRaw = 0, lastDelta = 0,
     tr_total = 0, window = replicate 2 \<lparr>ds_bytes = 0, ds_elapsed = 0\<rparr>, samples = 0\<rparr>"

definition Tracker_Add :: "tracker \<Rightarrow> u64 \<Rightarrow> int \<Rightarrow> tracker" where
  "Tracker_Add t raw elapsed =
     (if \<not> tr_seen t then
        t\<lparr>tr_seen := True, lastRaw := raw,
          tr_total := (if creditBaseline t then raw else tr_total t)\<rparr>
      else
        let delta = (if lastRaw t \<le> raw then raw - lastRaw t else raw)
        in t\<lparr>lastRaw := raw, tr_total := tr_total t + delta, lastDelta := delta,
             window := (window t)[samples t mod 2 := \<lparr>ds_bytes = delta, ds_elapsed = elapsed\<rparr>],
             samples := samples t + 1\<rparr>)"

definition Tracker_Total :: "tracker \<Rightarrow> u64" where
  "Tracker_Total t = tr_total t"

definition Tracker_LastDelta :: "tracker \<Rightarrow> u64" where
  "Tracker_LastDelta t = lastDelta t"

definition Tracker_Speed :: "(u64 \<Rightarrow> int \<Rightarrow> u64) \<Rightarrow> tracker \<Rightarrow> u64" where
  "Tracker_Speed rate t =
     (if samples t = 0 then 0
      else
        let span = map (\<lambda>i. window t ! (i mod 2)) [samples t - 2 ..< samples t];
            bytes = sum_list (map ds_bytes span);
            elapsed = sum_list (map ds_elapsed span)
        in if elapsed \<le> 0 then 0 else rate bytes elapsed)"

text \<open>One poll after another.\<close>

fun Tracker_run :: "tracker \<Rightarrow> (u64 \<times> int) list \<Rightarrow> tracker" where
  "Tracker_run t [] = t"
| "Tracker_run t ((raw, elapsed) # rs) = Tracker_run (Tracker_Add t raw elapsed) rs"

section \<open>Reference definitions\<close>

text \<open>The epochs of a sequence of readings: a new one starts where a reading drops.\<close>

fun epochs :: "'a::linorder list \<Rightarrow> 'a list list" where
  "epochs [] = []"
| "epochs [x] = [[x]]"
| "epochs (x # y # ys) =
     (if y < x then [x] # epochs (y # ys)
      else (x # hd (epochs (y # ys))) # tl (epochs (y # ys)))"

definition epochs_sum :: "u64 list \<Rightarrow> u64" where
  "epochs_sum raws = sum_list (map last (epochs raws))"

text \<open>The samples the readings after the baseline \<open>l\<close> give, as a whole history.\<close>

fun history :: "u64 \<Rightarrow> (u64 \<times> int) list \<Rightarrow> delta_sample list" where
  "history l [] = []"
| "history l ((raw, elapsed) # rs) =
     \<lparr>ds_bytes = (if raw < l then raw else raw - l), ds_elapsed = elapsed\<rparr> # history raw rs"

definition last_two :: "'a list \<Rightarrow> 'a list" where
  "last_two xs = drop (length xs - 2) xs"

definition mean_speed :: "(u64 \<Rightarrow> int \<Rightarrow> u64) \<Rightarrow> delta_sample list \<Rightarrow> u64" where
  "mean_speed rate hist =
     (let bytes = sum_list (map ds_bytes (last_two hist));
          elapsed = sum_list (map ds_elapsed (last_two hist))
      in if elapsed \<le> 0 then 0 else rate bytes elapsed)"

section \<open>Totals\<close>

lemma epochs_nonempty: "xs \<noteq> [] \<Longrightarrow> epochs xs \<noteq> [] \<and> (\<forall>e \<in> set (epochs xs). e \<noteq> [])"
proof (induction xs rule: epochs.induct)
  case (3 x y ys)
  then show ?case by (cases "epochs (y # ys)") auto
qed auto

lemma epochs_sum_step:
  "epochs_sum (x # y # ys) = (if y < x then x else 0) + epochs_sum (y # ys)"
proof -
  from epochs_nonempty [of "y # ys"] obtain e es
    where e: "epochs (y # ys) = e # es" and "e \<noteq> []"
    by (cases "epochs (y # ys)") auto
  then show ?thesis by (simp add: epochs_sum_def)
qed

lemma Tracker_run_seen:
  "tr_seen t \<Longrightarrow>
     tr_total (Tracker_run t rs) = tr_total t + epochs_sum (lastRaw t # map fst rs) - lastRaw t"
proof (induction t rs rule: Tracker_run.induct)
  case (1 t)
  then show ?case by (simp add: epochs_sum_def)
next
  case (2 t raw elapsed rs)
  let ?t = "Tracker_Add t raw elapsed"
  from "2.prems" have "tr_seen ?t" by (simp add: Tracker_Add_def Let_def)
  then have "tr_total (Tracker_run ?t rs) = tr_total ?t + epochs_sum (lastRaw ?t # map fst rs) - lastRaw ?t"
    by (rule "2.IH")
  with "2.prems" show ?case
    by (auto simp: Tracker_Add_def Let_def epochs_sum_step not_le)
qed

lemma Tracker_run_new:
  assumes "rs \<noteq> []"
  shows "tr_total (Tracker_run (NewTracker credit) rs) =
    epochs_sum (map fst rs) - (if credit then 0 else fst (hd rs))"
proof -
  from assms obtain raw elapsed rs' where rs: "rs = (raw, elapsed) # rs'"
    by (cases rs) auto
  let ?t = "Tracker_Add (NewTracker credit) raw elapsed"
  have t: "tr_seen ?t" "lastRaw ?t = raw" "tr_total ?t = (if credit then raw else 0)"
    by (simp_all add: Tracker_Add_def NewTracker_def)
  from Tracker_run_seen [OF t(1), of rs'] show ?thesis
    by (simp add: rs t)
qed

text \<open>
  The reconciled total of any sequence of polls is the sum, over the epochs of the raw
  counter, of the last reading of the epoch, less the first reading where the baseline is not
  credited: every byte an epoch has reported is counted once, across any number of xray
  restarts, and nothing that was there before the panel's first look is counted (modulo the
  64-bit wrap-around of the counter, which both sides share).
\<close>

lemma total_is_sum_of_epochs:
  assumes "rs \<noteq> []"
  shows "Tracker_Total (Tracker_run (NewTracker credit) rs) =
    epochs_sum (map fst rs) - (if credit then 0 else fst (hd rs))"
  using Tracker_run_new [OF assms] by (simp add: Tracker_Total_def)

lemma total_is_sum_of_epochs_witness:
  "[(100, 1), (150, 5), (30, 5), (70, 5)] \<noteq> ([] :: (u64 \<times> int) list) \<and>
   Tracker_Total (Tracker_run (NewTracker False) [(100, 1), (150, 5), (30, 5), (70, 5)]) = 120"
proof
  let ?rs = "[(100, 1), (150, 5), (30, 5), (70, 5)] :: (u64 \<times> int) list"
  show ne: "?rs \<noteq> []" by simp
  have "epochs_sum (map fst ?rs) = 220" by (simp add: epochs_sum_def)
  with total_is_sum_of_epochs [OF ne, of False] show
    "Tracker_Total (Tracker_run (NewTracker False) ?rs) = 120" by simp
qed

section \<open>The interface behind durable totals\<close>

text \<open>
  What a store of durable totals relies on: each poll's last delta is exactly what the total
  gained, so adding the deltas up poll by poll reproduces the total.
\<close>

fun deltas :: "('t \<Rightarrow> u64 \<Rightarrow> int \<Rightarrow> 't) \<Rightarrow> ('t \<Rightarrow> u64) \<Rightarrow> 't \<Rightarrow> (u64 \<times> int) list \<Rightarrow> u64 list" where
  "deltas add last_delta t [] = []"
| "deltas add last_delta t ((raw, elapsed) # rs) =
     last_delta (add t raw elapsed) # deltas add last_delta (add t raw elapsed) rs"

fun run_of :: "('t \<Rightarrow> u64 \<Rightarrow> int \<Rightarrow> 't) \<Rightarrow> 't \<Rightarrow> (u64 \<times> int) list \<Rightarrow> 't" where
  "run_of add t [] = t"
| "run_of add t ((raw, elapsed) # rs) = run_of add (add t raw elapsed) rs"

locale durable_tracker =
  fixes fresh :: "'t"
    and add :: "'t \<Rightarrow> u64 \<Rightarrow> int \<Rightarrow> 't"
    and last_delta :: "'t \<Rightarrow> u64"
    and total :: "'t \<Rightarrow> u64"
    and invar :: "'t \<Rightarrow> bool"
  assumes invar_fresh: "invar fresh"
    and total_fresh: "total fresh = 0"
    and invar_add: "invar t \<Longrightarrow> invar (add t raw elapsed)"
    and total_add: "invar t \<Longrightarrow> total (add t raw elapsed) = total t + last_delta (add t raw elapsed)"
begin

lemma invar_run: "invar t \<Longrightarrow> invar (run_of add t rs)"
  by (induction rs arbitrary: t) (auto simp: invar_add)

lemma total_run: "invar t \<Longrightarrow> total (run_of add t rs) = total t + sum_list (deltas add last_delta t rs)"
proof (induction rs arbitrary: t)
  case (Cons r rs)
  obtain raw elapsed where r: "r = (raw, elapsed)" by fastforce
  from Cons.prems have "invar (add t raw elapsed)" by (rule invar_add)
  with Cons.IH Cons.prems show ?case by (simp add: r total_add add.assoc)
qed simp

lemma total_is_sum_of_deltas:
  "total (run_of add fresh rs) = sum_list (deltas add last_delta fresh rs)"
  using total_run [OF invar_fresh, of rs] by (simp add: total_fresh)

end

definition durable_inv :: "tracker \<Rightarrow> bool" where
  "durable_inv t \<longleftrightarrow> \<not> creditBaseline t \<and> (\<not> tr_seen t \<longrightarrow> lastDelta t = 0)"

interpretation per_user: durable_tracker "NewTracker False" Tracker_Add Tracker_LastDelta Tracker_Total durable_inv
  by unfold_locales
     (auto simp: durable_inv_def NewTracker_def Tracker_Add_def Tracker_LastDelta_def
       Tracker_Total_def Let_def)

lemma run_of_Tracker_Add: "run_of Tracker_Add t rs = Tracker_run t rs"
  by (induction t rs rule: Tracker_run.induct) auto

text \<open>
  The per-poll deltas a durable store applies add up to the reconciled total: applying
  \<open>LastDelta\<close> after every poll loses and duplicates nothing.
\<close>

lemma deltas_add_up:
  "sum_list (deltas Tracker_Add Tracker_LastDelta (NewTracker False) rs) =
     Tracker_Total (Tracker_run (NewTracker False) rs)"
  by (simp add: per_user.total_is_sum_of_deltas flip: run_of_Tracker_Add)

section \<open>Speed\<close>

text \<open>The ring agrees with the history on its last two entries.\<close>

definition ring_of :: "tracker \<Rightarrow> delta_sample list \<Rightarrow> bool" where
  "ring_of t hist \<longleftrightarrow> samples t = length hist \<and> length (window t) = 2 \<and>
     (\<forall>i < length hist. length hist \<le> i + 2 \<longrightarrow> window t ! (i mod 2) = hist ! i)"

lemma mod2_neq: "i < n \<Longrightarrow> n \<le> i + 1 \<Longrightarrow> i mod 2 \<noteq> n mod (2::nat)"
  by presburger

lemma ring_of_step:
  assumes "ring_of t hist" and "tr_seen t"
  shows "ring_of (Tracker_Add t raw elapsed)
    (hist @ [\<lparr>ds_bytes = (if raw < lastRaw t then raw else raw - lastRaw t), ds_elapsed = elapsed\<rparr>])"
  using assms
  by (auto simp: ring_of_def Tracker_Add_def Let_def nth_append nth_list_update not_le not_less
      less_Suc_eq mod2_neq dest!: mod2_neq)

lemma ring_of_run:
  "ring_of t hist \<Longrightarrow> tr_seen t \<Longrightarrow> ring_of (Tracker_run t rs) (hist @ history (lastRaw t) rs)"
proof (induction t rs arbitrary: hist rule: Tracker_run.induct)
  case (2 t raw elapsed rs)
  let ?d = "\<lparr>ds_bytes = (if raw < lastRaw t then raw else raw - lastRaw t), ds_elapsed = elapsed\<rparr>"
  from "2.prems" have seen: "tr_seen (Tracker_Add t raw elapsed)"
    and last: "lastRaw (Tracker_Add t raw elapsed) = raw"
    by (auto simp: Tracker_Add_def Let_def)
  from "2.IH" [OF ring_of_step [OF "2.prems"] seen] show ?case by (simp add: last)
qed simp

lemma ring_span:
  assumes "ring_of t hist"
  shows "map (\<lambda>i. window t ! (i mod 2)) [samples t - 2 ..< samples t] = last_two hist"
proof (rule nth_equalityI)
  fix i
  assume "i < length (map (\<lambda>i. window t ! (i mod 2)) [samples t - 2 ..< samples t])"
  with assms show "map (\<lambda>i. window t ! (i mod 2)) [samples t - 2 ..< samples t] ! i = last_two hist ! i"
    by (auto simp: ring_of_def last_two_def)
qed (use assms in \<open>auto simp: ring_of_def last_two_def\<close>)

lemma Speed_ring: "ring_of t hist \<Longrightarrow> Tracker_Speed rate t = mean_speed rate hist"
proof -
  assume ring: "ring_of t hist"
  then have "samples t = length hist" by (simp add: ring_of_def)
  with ring_span [OF ring] show ?thesis
    by (cases "hist = []")
       (simp_all del: map_map upt.simps add: Tracker_Speed_def mean_speed_def last_two_def Let_def)
qed

text \<open>
  The speed is the mean over exactly the last two samples of the whole history of polls
  after the baseline (one sample when there is only one, zero before): the ring of two slots
  never serves an older sample, and the baseline reading never yields one.
\<close>

lemma speed_is_mean_of_last_two:
  "Tracker_Speed rate (Tracker_run (NewTracker credit) ((raw, elapsed) # rs)) =
     mean_speed rate (history raw rs)"
proof -
  let ?t = "Tracker_Add (NewTracker credit) raw elapsed"
  have t: "ring_of ?t []" "tr_seen ?t" "lastRaw ?t = raw"
    by (simp_all add: ring_of_def Tracker_Add_def NewTracker_def)
  from ring_of_run [OF t(1,2), of rs] show ?thesis
    by (simp add: t(3) Speed_ring)
qed

end
