(* ===== verification/XrayConfig.thy ===== *)
theory XrayConfig
  imports Prelude
begin

text \<open>
  The package \<^verbatim>\<open>internal/xrayconfig\<close> without its renderer: the Roster hand-off
  (\<open>buildRosterParse\<close>), the inbound view behind Connection profiles (\<open>buildView\<close>), the label
  and flow rules, and the versioned parse of the watched file (\<open>parseSource\<close>).

  The typed structs \<^verbatim>\<open>encoding/json\<close> decodes into are records; the byte-level decoder is the
  argument \<open>decode\<close> of \<open>parseSource\<close>, and the three typed reads of raw fragments that
  \<open>buildView\<close> makes are the fields of \<open>json_lib\<close>. A raw fragment that was absent is the empty
  string. The Go accessors that only copy slices are the record selectors.

  The theorems give the Roster hand-off a declarative reference, by the occurrences of an
  email in the document, and show that the version is a faithful change marker.
\<close>

section \<open>The decoded document\<close>

record label =
  lab_protocol :: string
  lab_security :: string
  lab_transport :: string

record client =
  cl_ClientID :: string
  cl_Inbounds :: "string list"

record roster_parse =
  rp_Labels :: "label list gomap"
  rp_Clients :: "client gomap"

record client_config =
  cc_Email :: string
  cc_ID :: string
  cc_Flow :: string
  cc_Reverse :: string

record http_transport_config =
  ht_Path :: string
  ht_Host :: string
  ht_Headers :: "string gomap"

record grpc_config =
  gc_ServiceName :: string
  gc_Authority :: string
  gc_MultiMode :: bool

record xhttp_config =
  xc_Path :: string
  xc_Host :: string
  xc_Mode :: string
  xc_Extra :: string

record stream_settings =
  ss_Network :: string
  ss_Security :: string
  ss_FinalMask :: string
  ss_TLS_ServerName :: string
  ss_TLS_ALPN :: "string list"
  ss_TLS_RejectUnknownSNI :: bool
  ss_Reality_ServerNames :: "string list"
  ss_Reality_ShortIDs :: "string list"
  ss_RAW :: "string option"
  ss_TCP :: "string option"
  ss_WebSocket :: http_transport_config
  ss_HTTPUpgrade :: http_transport_config
  ss_GRPC :: grpc_config
  ss_XHTTP :: "xhttp_config option"
  ss_SplitHTTP :: "xhttp_config option"

record inbound_config =
  ic_Tag :: string
  ic_Protocol :: string
  ic_Port :: string
  ic_Clients :: "client_config list"
  ic_Flow :: string
  ic_Decryption :: string
  ic_Stream :: stream_settings

record xray_config =
  cfg_Inbounds :: "inbound_config list"

section \<open>Labels\<close>

definition TransportLabel :: "string \<Rightarrow> string" where
  "TransportLabel network =
     (let low = to_lower network in
      if low = '''' \<or> low = ''tcp'' \<or> low = ''raw'' then ''tcp''
      else if low = ''splithttp'' then ''xhttp''
      else low)"

text \<open>\<^verbatim>\<open>unicode.ToUpper\<close> on the first rune, the rest kept.\<close>

definition upper_first :: "string \<Rightarrow> string" where
  "upper_first s =
     (case s of
        [] \<Rightarrow> []
      | c # r \<Rightarrow>
          if c = CHR 0xC4 \<and> take 1 r = [CHR 0xB1] then CHR ''I'' # drop 1 r
          else if c = CHR 0xC5 \<and> take 1 r = [CHR 0xBF] then CHR ''S'' # drop 1 r
          else ascii_upper c # r)"

definition SecurityLabel :: "string \<Rightarrow> string \<Rightarrow> string" where
  "SecurityLabel security flow =
     (let low = to_lower security;
          lab = (if low = '''' \<or> low = ''none'' then ''None''
                 else if low = ''tls'' then ''TLS''
                 else upper_first security)
      in if lab \<noteq> ''None'' \<and> has_prefix (to_lower flow) ''xtls'' then ''XTLS-'' @ lab else lab)"

section \<open>The Roster hand-off\<close>

definition client_label :: "inbound_config \<Rightarrow> client_config \<Rightarrow> label" where
  "client_label inbound c =
     \<lparr>lab_protocol = to_upper (ic_Protocol inbound),
      lab_security = SecurityLabel (ss_Security (ic_Stream inbound)) (cc_Flow c),
      lab_transport = TransportLabel (ss_Network (ic_Stream inbound))\<rparr>"

definition roster_client_step :: "inbound_config \<Rightarrow> client_config \<Rightarrow> roster_parse \<Rightarrow> roster_parse" where
  "roster_client_step inbound c acc =
     (if cc_Email c = '''' then acc
      else
        let email = cc_Email c;
            lab = client_label inbound c;
            have_labels = get_or [] (rp_Labels acc) email;
            labels = (if lab \<in> set have_labels then rp_Labels acc
                      else AList.update email (have_labels @ [lab]) (rp_Labels acc))
        in if to_upper (ic_Protocol inbound) \<noteq> ''VLESS'' then acc\<lparr>rp_Labels := labels\<rparr>
           else
             let collected = (case map_of (rp_Clients acc) email of
                                None \<Rightarrow> \<lparr>cl_ClientID = cc_ID c, cl_Inbounds = []\<rparr>
                              | Some old \<Rightarrow> old);
                 tag = ic_Tag inbound;
                 collected' = (if tag \<noteq> '''' \<and> tag \<notin> set (cl_Inbounds collected)
                               then collected\<lparr>cl_Inbounds := cl_Inbounds collected @ [tag]\<rparr>
                               else collected)
             in acc\<lparr>rp_Labels := labels, rp_Clients := AList.update email collected' (rp_Clients acc)\<rparr>)"

definition roster_inbound_step :: "inbound_config \<Rightarrow> roster_parse \<Rightarrow> roster_parse" where
  "roster_inbound_step inbound acc =
     (if ic_Protocol inbound = '''' then acc
      else fold (roster_client_step inbound) (ic_Clients inbound) acc)"

definition buildRosterParse :: "xray_config \<Rightarrow> roster_parse" where
  "buildRosterParse cfg =
     fold roster_inbound_step (cfg_Inbounds cfg) \<lparr>rp_Labels = [], rp_Clients = []\<rparr>"

section \<open>The inbound view\<close>

record inbound_user =
  iu_Email :: string
  iu_ClientID :: string
  iu_Flow :: string
  iu_Reverse :: bool

record http_settings =
  hs_Path :: string
  hs_Host :: string

record xhttp_settings =
  xs_Path :: string
  xs_Host :: string
  xs_Mode :: string
  xs_ExtraConfigured :: bool

record inbound =
  ib_Tag :: string
  ib_Protocol :: string
  ib_Port :: string
  ib_Flow :: string
  ib_Decryption :: string
  ib_TransportType :: string
  ib_RawHeaderConfigured :: bool
  ib_RawHeaderType :: string
  ib_FinalMaskConfigured :: bool
  ib_WebSocket :: http_settings
  ib_HTTPUpgrade :: http_settings
  ib_GRPC :: grpc_config
  ib_XHTTP :: xhttp_settings
  ib_SecurityType :: string
  ib_TLS_ServerName :: string
  ib_TLS_RejectUnknownSNI :: bool
  ib_TLS_ALPN :: "string list"
  ib_Reality_ServerNames :: "string list"
  ib_Reality_ShortIDs :: "string list"
  ib_users :: "inbound_user list"

type_synonym view = "inbound list"

record json_lib =
  json_int :: "string \<Rightarrow> int option"
  json_string :: "string \<Rightarrow> string option"
  json_type_field :: "string \<Rightarrow> string option"
  itoa :: "int \<Rightarrow> string"

definition configured :: "string \<Rightarrow> bool" where
  "configured raw \<longleftrightarrow> trim_space raw \<noteq> [] \<and> trim_space raw \<noteq> ''null''"

definition portLabel :: "json_lib \<Rightarrow> string \<Rightarrow> string" where
  "portLabel J raw =
     (if \<not> configured raw then ''''
      else case json_int J raw of
        Some port \<Rightarrow> itoa J port
      | None \<Rightarrow> (case json_string J raw of Some portRange \<Rightarrow> portRange | None \<Rightarrow> ''''))"

definition rawHeaderType :: "json_lib \<Rightarrow> string \<Rightarrow> string" where
  "rawHeaderType J raw =
     (if \<not> configured raw then ''''
      else case json_type_field J raw of Some t \<Rightarrow> t | None \<Rightarrow> '''')"

text \<open>The header map is ranged over in the order \<open>ht_Headers\<close> lists it.\<close>

definition effectiveWebSocketHost :: "http_transport_config \<Rightarrow> string" where
  "effectiveWebSocketHost s =
     (if ht_Host s \<noteq> '''' then ht_Host s
      else case find (\<lambda>(name, value). equal_fold name ''host'') (ht_Headers s) of
        Some (name, value) \<Rightarrow> value
      | None \<Rightarrow> '''')"

definition buildInbound :: "json_lib \<Rightarrow> inbound_config \<Rightarrow> inbound" where
  "buildInbound J source =
     (let ss = ic_Stream source;
          raw = (case ss_RAW ss of Some h \<Rightarrow> Some h | None \<Rightarrow> ss_TCP ss);
          xhttp = (case ss_XHTTP ss of Some x \<Rightarrow> Some x | None \<Rightarrow> ss_SplitHTTP ss)
      in \<lparr>ib_Tag = ic_Tag source, ib_Protocol = ic_Protocol source,
          ib_Port = portLabel J (ic_Port source), ib_Flow = ic_Flow source,
          ib_Decryption = ic_Decryption source, ib_TransportType = ss_Network ss,
          ib_RawHeaderConfigured = (case raw of Some h \<Rightarrow> configured h | None \<Rightarrow> False),
          ib_RawHeaderType = (case raw of Some h \<Rightarrow> rawHeaderType J h | None \<Rightarrow> ''''),
          ib_FinalMaskConfigured = configured (ss_FinalMask ss),
          ib_WebSocket = \<lparr>hs_Path = ht_Path (ss_WebSocket ss),
                          hs_Host = effectiveWebSocketHost (ss_WebSocket ss)\<rparr>,
          ib_HTTPUpgrade = \<lparr>hs_Path = ht_Path (ss_HTTPUpgrade ss), hs_Host = ht_Host (ss_HTTPUpgrade ss)\<rparr>,
          ib_GRPC = ss_GRPC ss,
          ib_XHTTP = (case xhttp of
              Some x \<Rightarrow> \<lparr>xs_Path = xc_Path x, xs_Host = xc_Host x, xs_Mode = xc_Mode x,
                         xs_ExtraConfigured = configured (xc_Extra x)\<rparr>
            | None \<Rightarrow> \<lparr>xs_Path = '''', xs_Host = '''', xs_Mode = '''', xs_ExtraConfigured = False\<rparr>),
          ib_SecurityType = ss_Security ss,
          ib_TLS_ServerName = ss_TLS_ServerName ss,
          ib_TLS_RejectUnknownSNI = ss_TLS_RejectUnknownSNI ss,
          ib_TLS_ALPN = ss_TLS_ALPN ss,
          ib_Reality_ServerNames = ss_Reality_ServerNames ss,
          ib_Reality_ShortIDs = ss_Reality_ShortIDs ss,
          ib_users = map (\<lambda>u. \<lparr>iu_Email = cc_Email u, iu_ClientID = cc_ID u, iu_Flow = cc_Flow u,
                               iu_Reverse = configured (cc_Reverse u)\<rparr>)
                       (filter (\<lambda>u. cc_Email u \<noteq> '''') (ic_Clients source))\<rparr>)"

definition buildView :: "json_lib \<Rightarrow> xray_config \<Rightarrow> view" where
  "buildView J cfg = map (buildInbound J) (cfg_Inbounds cfg)"

definition Managed :: "inbound \<Rightarrow> bool" where
  "Managed i \<longleftrightarrow> ib_Tag i \<noteq> '''' \<and> equal_fold (ib_Protocol i) ''vless''"

definition DefaultFlow :: "inbound \<Rightarrow> string" where
  "DefaultFlow i =
     (case ib_users i of
        u # _ \<Rightarrow> iu_Flow u
      | [] \<Rightarrow>
          if ib_SecurityType i \<noteq> ''reality'' then ''''
          else if ib_TransportType i = ''tcp'' \<or> ib_TransportType i = ''raw'' then ''xtls-rprx-vision''
          else '''')"

section \<open>The watched parse\<close>

record parsed =
  pd_Roster :: "roster_parse option"
  pd_Version :: nat
  pd_View :: view

definition zero_parsed :: parsed where
  "zero_parsed = \<lparr>pd_Roster = None, pd_Version = 0, pd_View = []\<rparr>"

definition sameRoster :: "roster_parse \<Rightarrow> roster_parse \<Rightarrow> bool" where
  "sameRoster a b \<longleftrightarrow>
     length (rp_Labels a) = length (rp_Labels b) \<and>
     (\<forall>(k, v) \<in> set (rp_Labels a). map_of (rp_Labels b) k = Some v) \<and>
     length (rp_Clients a) = length (rp_Clients b) \<and>
     (\<forall>(k, v) \<in> set (rp_Clients a).
        case map_of (rp_Clients b) k of
          None \<Rightarrow> False
        | Some w \<Rightarrow> cl_ClientID v = cl_ClientID w \<and> cl_Inbounds v = cl_Inbounds w)"

text \<open>
  \<open>parseSource\<close> is the parse of the watched source: the failure carries the stable reason
  \<^verbatim>\<open>parse_failed\<close>. A parse that never succeeded has no roster at all (the zero value's nil map).
\<close>

definition parseSource ::
  "json_lib \<Rightarrow> (string \<Rightarrow> xray_config option) \<Rightarrow> parsed \<Rightarrow> string \<Rightarrow> string + parsed" where
  "parseSource J decode previous document =
     (case decode document of
        None \<Rightarrow> Inl ''parse_failed''
      | Some cfg \<Rightarrow>
          let roster = buildRosterParse cfg;
              changed = (case pd_Roster previous of
                           None \<Rightarrow> True
                         | Some old \<Rightarrow> \<not> sameRoster old roster)
          in Inr \<lparr>pd_Roster = Some roster,
                  pd_Version = (if changed then pd_Version previous + 1 else pd_Version previous),
                  pd_View = buildView J cfg\<rparr>)"

section \<open>The hand-off by occurrences\<close>

text \<open>Every email-bearing client of an inbound with a protocol, in config order.\<close>

definition entries :: "xray_config \<Rightarrow> (inbound_config \<times> client_config) list" where
  "entries cfg = concat (map (\<lambda>i. if ic_Protocol i = '''' then []
      else map (Pair i) (ic_Clients i)) (cfg_Inbounds cfg))"

definition occurrences :: "xray_config \<Rightarrow> string \<Rightarrow> (inbound_config \<times> client_config) list" where
  "occurrences cfg email = filter (\<lambda>(i, c). cc_Email c = email) (entries cfg)"

definition vless_occurrences :: "xray_config \<Rightarrow> string \<Rightarrow> (inbound_config \<times> client_config) list" where
  "vless_occurrences cfg email =
     filter (\<lambda>(i, c). to_upper (ic_Protocol i) = ''VLESS'') (occurrences cfg email)"

abbreviation roster_step :: "inbound_config \<times> client_config \<Rightarrow> roster_parse \<Rightarrow> roster_parse" where
  "roster_step \<equiv> \<lambda>(i, c). roster_client_step i c"

abbreviation empty_roster :: roster_parse where
  "empty_roster \<equiv> \<lparr>rp_Labels = [], rp_Clients = []\<rparr>"

lemma fold_roster_inbounds:
  "fold roster_inbound_step is acc =
     fold roster_step (concat (map (\<lambda>i. if ic_Protocol i = '''' then [] else map (Pair i) (ic_Clients i)) is)) acc"
  by (induction "is" arbitrary: acc) (auto simp: roster_inbound_step_def fold_map comp_def)

lemma buildRosterParse_entries: "buildRosterParse cfg = fold roster_step (entries cfg) empty_roster"
  by (simp add: buildRosterParse_def entries_def fold_roster_inbounds)

lemma step_labels:
  assumes "email \<noteq> ''''"
  shows "map_of (rp_Labels (roster_client_step i c acc)) email =
    (if cc_Email c = email
     then Some (append_missing (get_or [] (rp_Labels acc) email) [client_label i c])
     else map_of (rp_Labels acc) email)"
  using assms by (auto simp: roster_client_step_def Let_def split: option.splits)

lemma step_clients:
  assumes "email \<noteq> ''''"
  shows "map_of (rp_Clients (roster_client_step i c acc)) email =
    (if cc_Email c = email \<and> to_upper (ic_Protocol i) = ''VLESS''
     then let old = get_or \<lparr>cl_ClientID = cc_ID c, cl_Inbounds = []\<rparr> (rp_Clients acc) email
          in Some \<lparr>cl_ClientID = cl_ClientID old,
                   cl_Inbounds = append_missing (cl_Inbounds old) (filter (\<lambda>t. t \<noteq> '''') [ic_Tag i])\<rparr>
     else map_of (rp_Clients acc) email)"
  using assms by (auto simp: roster_client_step_def Let_def split: option.splits)

lemma fold_roster_labels:
  assumes "email \<noteq> ''''"
  shows "map_of (rp_Labels (fold roster_step xs empty_roster)) email =
    (let occ = filter (\<lambda>(i, c). cc_Email c = email) xs
     in if occ = [] then None else Some (append_missing [] (map (\<lambda>(i, c). client_label i c) occ)))"
proof (induction xs rule: rev_induct)
  case (snoc x xs)
  obtain i c where x: "x = (i, c)" by fastforce
  from snoc assms show ?case
    by (simp add: x Let_def step_labels append_missing_append del: append_missing.simps(2))
qed simp

lemma fold_roster_clients:
  assumes "email \<noteq> ''''"
  shows "map_of (rp_Clients (fold roster_step xs empty_roster)) email =
    (let occ = filter (\<lambda>(i, c). cc_Email c = email \<and> to_upper (ic_Protocol i) = ''VLESS'') xs
     in if occ = [] then None
        else Some \<lparr>cl_ClientID = cc_ID (snd (hd occ)),
          cl_Inbounds = append_missing [] (filter (\<lambda>t. t \<noteq> '''') (map (\<lambda>(i, c). ic_Tag i) occ))\<rparr>)"
proof (induction xs rule: rev_induct)
  case (snoc x xs)
  obtain i c where x: "x = (i, c)" by fastforce
  from snoc assms show ?case
    by (simp add: x Let_def step_clients append_missing_append)
qed simp

text \<open>
  C25. The single pass over the inbounds computes the hand-off by occurrences: an email has a
  labels entry exactly when some inbound with a protocol lists it, its labels are those of its
  occurrences in config order with exact duplicates collapsed; it is a client exactly when a
  VLESS inbound lists it, its Client ID is that of the first VLESS occurrence, and its
  attachments are the tags of its VLESS occurrences in config order, each once.
\<close>

theorem roster_parse_by_occurrences:
  assumes "email \<noteq> ''''"
  shows "map_of (rp_Labels (buildRosterParse cfg)) email =
      (if occurrences cfg email = [] then None
       else Some (append_missing [] (map (\<lambda>(i, c). client_label i c) (occurrences cfg email)))) \<and>
    map_of (rp_Clients (buildRosterParse cfg)) email =
      (if vless_occurrences cfg email = [] then None
       else Some \<lparr>cl_ClientID = cc_ID (snd (hd (vless_occurrences cfg email))),
         cl_Inbounds = append_missing []
           (filter (\<lambda>t. t \<noteq> '''') (map (\<lambda>(i, c). ic_Tag i) (vless_occurrences cfg email)))\<rparr>)"
proof (intro conjI)
  have vless: "vless_occurrences cfg email =
      filter (\<lambda>(i, c). cc_Email c = email \<and> to_upper (ic_Protocol i) = ''VLESS'') (entries cfg)"
    by (auto simp: vless_occurrences_def occurrences_def intro!: arg_cong [where f = "\<lambda>P. filter P _"])
  show "map_of (rp_Labels (buildRosterParse cfg)) email =
      (if occurrences cfg email = [] then None
       else Some (append_missing [] (map (\<lambda>(i, c). client_label i c) (occurrences cfg email))))"
    using fold_roster_labels [OF assms, of "entries cfg"]
    by (simp add: buildRosterParse_entries occurrences_def Let_def)
  show "map_of (rp_Clients (buildRosterParse cfg)) email =
      (if vless_occurrences cfg email = [] then None
       else Some \<lparr>cl_ClientID = cc_ID (snd (hd (vless_occurrences cfg email))),
         cl_Inbounds = append_missing []
           (filter (\<lambda>t. t \<noteq> '''') (map (\<lambda>(i, c). ic_Tag i) (vless_occurrences cfg email)))\<rparr>)"
    using fold_roster_clients [OF assms, of "entries cfg"]
    by (simp add: buildRosterParse_entries vless Let_def)
qed

section \<open>The version is a faithful change marker\<close>

lemma step_distinct_keys:
  "distinct (map fst (rp_Labels acc)) \<Longrightarrow> distinct (map fst (rp_Clients acc)) \<Longrightarrow>
   distinct (map fst (rp_Labels (roster_client_step i c acc))) \<and>
   distinct (map fst (rp_Clients (roster_client_step i c acc)))"
  by (auto simp: roster_client_step_def Let_def)

lemma fold_distinct_keys:
  "distinct (map fst (rp_Labels acc)) \<Longrightarrow> distinct (map fst (rp_Clients acc)) \<Longrightarrow>
   distinct (map fst (rp_Labels (fold roster_step xs acc))) \<and>
   distinct (map fst (rp_Clients (fold roster_step xs acc)))"
proof (induction xs arbitrary: acc)
  case (Cons x xs)
  then show ?case by (cases x) (auto simp: step_distinct_keys)
qed simp

lemma buildRosterParse_distinct:
  "distinct (map fst (rp_Labels (buildRosterParse cfg)))"
  "distinct (map fst (rp_Clients (buildRosterParse cfg)))"
  using fold_distinct_keys [of empty_roster "entries cfg"]
  by (simp_all add: buildRosterParse_entries)

definition roster_equal :: "roster_parse \<Rightarrow> roster_parse \<Rightarrow> bool" where
  "roster_equal a b \<longleftrightarrow>
     map_of (rp_Labels a) = map_of (rp_Labels b) \<and> map_of (rp_Clients a) = map_of (rp_Clients b)"

lemma sameRoster_iff:
  assumes "distinct (map fst (rp_Labels a))" "distinct (map fst (rp_Clients a))"
    and "distinct (map fst (rp_Labels b))" "distinct (map fst (rp_Clients b))"
  shows "sameRoster a b \<longleftrightarrow> roster_equal a b"
proof -
  have client_eq: "(case map_of m k of None \<Rightarrow> False
        | Some w \<Rightarrow> cl_ClientID v = cl_ClientID w \<and> cl_Inbounds v = cl_Inbounds w) \<longleftrightarrow> map_of m k = Some v"
    for m and k :: string and v :: client
    by (auto split: option.splits)
  show ?thesis
    using gomap_equal_iff [OF assms(1,3)] gomap_equal_iff [OF assms(2,4)]
    by (auto simp: sameRoster_def roster_equal_def client_eq)
qed

text \<open>The successive values of the watched source: a failed parse keeps the previous one.\<close>

fun load_all :: "json_lib \<Rightarrow> (string \<Rightarrow> xray_config option) \<Rightarrow> parsed \<Rightarrow> string list \<Rightarrow> parsed" where
  "load_all J decode p [] = p"
| "load_all J decode p (d # ds) =
     load_all J decode (case parseSource J decode p d of Inl _ \<Rightarrow> p | Inr q \<Rightarrow> q) ds"

definition parsed_ok :: "parsed \<Rightarrow> bool" where
  "parsed_ok p \<longleftrightarrow> (case pd_Roster p of
      None \<Rightarrow> pd_Version p = 0
    | Some r \<Rightarrow> 0 < pd_Version p \<and> distinct (map fst (rp_Labels r)) \<and> distinct (map fst (rp_Clients r)))"

definition no_older :: "parsed \<Rightarrow> parsed \<Rightarrow> bool" where
  "no_older p q \<longleftrightarrow> pd_Version p \<le> pd_Version q \<and>
     (pd_Version p = pd_Version q \<longrightarrow> rel_option roster_equal (pd_Roster p) (pd_Roster q))"

lemma no_older_refl: "no_older p p"
  by (cases "pd_Roster p") (auto simp: no_older_def roster_equal_def)

lemma no_older_trans: "no_older p q \<Longrightarrow> no_older q r \<Longrightarrow> no_older p r"
  by (auto simp: no_older_def roster_equal_def option_rel_Some1 option_rel_Some2 elim!: option.rel_cases)

lemma parseSource_Inl: "parseSource J decode p d = Inl e \<longleftrightarrow> decode d = None \<and> e = ''parse_failed''"
  by (auto simp: parseSource_def Let_def split: option.splits)

lemma parseSource_step:
  assumes "parsed_ok p" and "parseSource J decode p d = Inr q"
  shows "parsed_ok q \<and> no_older p q \<and> pd_Version q \<noteq> 0"
proof -
  from assms(2) obtain cfg where cfg: "decode d = Some cfg"
    by (auto simp: parseSource_def split: option.splits)
  note q = assms(2) [unfolded parseSource_def cfg Let_def, simplified, symmetric]
  show ?thesis
  proof (cases "pd_Roster p")
    case None
    with assms(1) show ?thesis
      by (simp add: q parsed_ok_def no_older_def buildRosterParse_distinct)
  next
    case (Some r)
    with assms(1) have "sameRoster r (buildRosterParse cfg) \<longleftrightarrow> roster_equal r (buildRosterParse cfg)"
      by (simp add: parsed_ok_def sameRoster_iff buildRosterParse_distinct)
    with Some assms(1) show ?thesis
      by (simp add: q parsed_ok_def no_older_def buildRosterParse_distinct)
  qed
qed

lemma load_all_step:
  "parsed_ok p \<Longrightarrow> parsed_ok (load_all J decode p ds) \<and> no_older p (load_all J decode p ds)"
proof (induction ds arbitrary: p)
  case Nil
  then show ?case by (simp add: no_older_refl)
next
  case (Cons d ds)
  define q where "q = (case parseSource J decode p d of Inl _ \<Rightarrow> p | Inr q \<Rightarrow> q)"
  from Cons.prems have q: "parsed_ok q" "no_older p q"
    by (auto simp: q_def no_older_refl split: sum.splits dest: parseSource_step)
  from Cons.IH [OF q(1)] q(2) show ?case
    by (auto simp flip: q_def intro: no_older_trans)
qed

lemma load_all_version_zero:
  "parsed_ok r \<Longrightarrow> pd_Version (load_all J decode r xs) = 0 \<longleftrightarrow>
     pd_Version r = 0 \<and> (\<forall>d \<in> set xs. decode d = None)"
proof (induction xs arbitrary: r)
  case (Cons x xs)
  show ?case
  proof (cases "parseSource J decode r x")
    case (Inl e)
    then have "decode x = None" by (simp add: parseSource_Inl)
    with Inl Cons show ?thesis by simp
  next
    case (Inr q)
    with Cons.prems have "parsed_ok q" and "pd_Version q \<noteq> 0" by (blast dest: parseSource_step)+
    moreover have "decode x \<noteq> None"
      using Inr parseSource_Inl [of J decode r x "''parse_failed''"] by auto
    ultimately show ?thesis using Inr Cons.IH [of q] by simp
  qed
qed simp

lemma load_all_append: "load_all J decode p (ds @ es) = load_all J decode (load_all J decode p ds) es"
  by (induction ds arbitrary: p) auto

text \<open>
  Over any sequence of saves of the config file, valid or broken, the roster version never
  decreases, stays zero exactly while no save has parsed, and two moments with the same version
  carry the same Roster: labels and clients agree on every email. A consumer that remembers the
  last version it applied therefore never misses a change and never re-syncs an unchanged one.
\<close>

lemma roster_version_faithful:
  fixes J decode ds es
  defines "p \<equiv> load_all J decode zero_parsed ds"
    and "q \<equiv> load_all J decode zero_parsed (ds @ es)"
  shows "pd_Version p \<le> pd_Version q \<and>
    (pd_Version p = pd_Version q \<longrightarrow> rel_option roster_equal (pd_Roster p) (pd_Roster q)) \<and>
    (pd_Version q = 0 \<longleftrightarrow> (\<forall>d \<in> set (ds @ es). decode d = None))"
proof -
  have zero: "parsed_ok zero_parsed" by (simp add: parsed_ok_def zero_parsed_def)
  then have p: "parsed_ok p" unfolding p_def by (rule load_all_step [THEN conjunct1])
  have "no_older p q"
    unfolding p_def q_def load_all_append
    using load_all_step [OF p [unfolded p_def]] by blast
  then show ?thesis
    using load_all_version_zero [OF zero, of J decode "ds @ es"]
    by (simp add: no_older_def q_def zero_parsed_def)
qed

section \<open>Concrete documents\<close>

definition plain_stream :: "string \<Rightarrow> string \<Rightarrow> stream_settings" where
  "plain_stream network security =
     \<lparr>ss_Network = network, ss_Security = security, ss_FinalMask = '''', ss_TLS_ServerName = '''',
      ss_TLS_ALPN = [], ss_TLS_RejectUnknownSNI = False, ss_Reality_ServerNames = [],
      ss_Reality_ShortIDs = [], ss_RAW = None, ss_TCP = None,
      ss_WebSocket = \<lparr>ht_Path = '''', ht_Host = '''', ht_Headers = []\<rparr>,
      ss_HTTPUpgrade = \<lparr>ht_Path = '''', ht_Host = '''', ht_Headers = []\<rparr>,
      ss_GRPC = \<lparr>gc_ServiceName = '''', gc_Authority = '''', gc_MultiMode = False\<rparr>,
      ss_XHTTP = None, ss_SplitHTTP = None\<rparr>"

definition vless_inbound :: "string \<Rightarrow> client_config list \<Rightarrow> inbound_config" where
  "vless_inbound tag clients =
     \<lparr>ic_Tag = tag, ic_Protocol = ''vless'', ic_Port = '''', ic_Clients = clients, ic_Flow = '''',
      ic_Decryption = ''none'', ic_Stream = plain_stream ''raw'' ''reality''\<rparr>"

definition two_inbounds :: xray_config where
  "two_inbounds =
     \<lparr>cfg_Inbounds =
        [vless_inbound ''a'' [\<lparr>cc_Email = ''u'', cc_ID = ''1'', cc_Flow = '''', cc_Reverse = ''''\<rparr>],
         vless_inbound ''b'' [\<lparr>cc_Email = ''u'', cc_ID = ''2'', cc_Flow = '''', cc_Reverse = ''''\<rparr>]]\<rparr>"

definition empty_object_only :: "string \<Rightarrow> xray_config option" where
  "empty_object_only s = (if s = ''{}'' then Some \<lparr>cfg_Inbounds = []\<rparr> else None)"

theorem roster_parse_by_occurrences_witness:
  "map_of (rp_Clients (buildRosterParse two_inbounds)) ''u'' =
     Some \<lparr>cl_ClientID = ''1'', cl_Inbounds = [''a'', ''b'']\<rparr>"
proof -
  have occ: "vless_occurrences two_inbounds ''u'' =
      [(vless_inbound ''a'' [\<lparr>cc_Email = ''u'', cc_ID = ''1'', cc_Flow = '''', cc_Reverse = ''''\<rparr>],
        \<lparr>cc_Email = ''u'', cc_ID = ''1'', cc_Flow = '''', cc_Reverse = ''''\<rparr>),
       (vless_inbound ''b'' [\<lparr>cc_Email = ''u'', cc_ID = ''2'', cc_Flow = '''', cc_Reverse = ''''\<rparr>],
        \<lparr>cc_Email = ''u'', cc_ID = ''2'', cc_Flow = '''', cc_Reverse = ''''\<rparr>)]"
    by code_simp
  show ?thesis
    using roster_parse_by_occurrences [of "''u''" two_inbounds]
    by (simp add: occ vless_inbound_def)
qed

definition no_json :: json_lib where
  "no_json = \<lparr>json_int = (\<lambda>_. None), json_string = (\<lambda>_. None), json_type_field = (\<lambda>_. None),
     itoa = (\<lambda>_. '''')\<rparr>"

lemma roster_version_faithful_witness:
  "pd_Version (load_all no_json empty_object_only zero_parsed [''{}'']) =
     pd_Version (load_all no_json empty_object_only zero_parsed ([''{}''] @ [''broken'', ''{}''])) \<and>
   rel_option roster_equal (pd_Roster (load_all no_json empty_object_only zero_parsed [''{}'']))
     (pd_Roster (load_all no_json empty_object_only zero_parsed ([''{}''] @ [''broken'', ''{}''])))"
proof -
  have eq: "pd_Version (load_all no_json empty_object_only zero_parsed [''{}'']) =
     pd_Version (load_all no_json empty_object_only zero_parsed ([''{}''] @ [''broken'', ''{}'']))"
    by (simp add: parseSource_def empty_object_only_def zero_parsed_def Let_def
        buildRosterParse_def sameRoster_def)
  with roster_version_faithful [of no_json empty_object_only "[''{}'']" "[''broken'', ''{}'']"]
  show ?thesis by simp
qed

end
