(* ===== verification/Store.thy ===== *)
theory Store
  imports XrayConfig "HOL-Library.Char_ord" "HOL-Library.List_Lexorder" "HOL-Library.Product_Lexorder"
begin

text \<open>
  The durable store, \<^verbatim>\<open>internal/users/store.go\<close>: the SQLite tables \<^verbatim>\<open>users\<close>, \<^verbatim>\<open>roster\<close> and
  \<^verbatim>\<open>xray_totals\<close> and one definition per operation. A table is the list of its rows in rowid
  order, so a query without an order reads the first matching row, as \<^verbatim>\<open>QueryRow\<close> does; text
  comparison is byte equality except under \<^verbatim>\<open>lower\<close>. The JSON arrays of the \<^verbatim>\<open>labels\<close>, \<^verbatim>\<open>last_ips\<close>
  and \<^verbatim>\<open>inbounds\<close> columns are kept decoded. An operation is one transaction: it returns the new
  tables, or an error and, by construction, no change; a database failure is the case where the
  caller keeps the old tables. Byte totals are naturals: SQLite's own 63-bit bound on a total is
  not modelled.
\<close>

section \<open>Tables\<close>

record user_row =
  ur_email :: string
  ur_labels :: "label list option"
  ur_up :: nat
  ur_down :: nat
  ur_last_seen :: "int option"
  ur_last_ips :: "string list option"
  ur_disabled :: bool
  ur_first_seen :: int

record roster_row =
  rr_email :: string
  rr_client_id :: string
  rr_inbounds :: "string list"
  rr_disabled :: bool
  rr_deleting :: bool
  rr_created_at :: int
  rr_updated_at :: int

record db =
  db_users :: "user_row list"
  db_roster :: "roster_row list"
  db_totals :: "(nat \<times> nat) option"

datatype store_error = ErrEmailTaken string | ErrClientIDTaken string | ErrRosterNotFound

definition same_email :: "string \<Rightarrow> string \<Rightarrow> bool" where
  "same_email a b \<longleftrightarrow> sql_lower a = sql_lower b"

definition update_where :: "('r \<Rightarrow> bool) \<Rightarrow> ('r \<Rightarrow> 'r) \<Rightarrow> 'r list \<Rightarrow> 'r list" where
  "update_where P f rows = map (\<lambda>r. if P r then f r else r) rows"

definition delete_where :: "('r \<Rightarrow> bool) \<Rightarrow> 'r list \<Rightarrow> 'r list" where
  "delete_where P rows = filter (\<lambda>r. \<not> P r) rows"

text \<open>\<^verbatim>\<open>INSERT INTO users ... ON CONFLICT(email) DO UPDATE SET ...\<close>\<close>

definition upsert_user :: "user_row \<Rightarrow> (user_row \<Rightarrow> user_row) \<Rightarrow> user_row list \<Rightarrow> user_row list" where
  "upsert_user new on_conflict rows =
     (if ur_email new \<in> ur_email ` set rows
      then update_where (\<lambda>r. ur_email r = ur_email new) on_conflict rows
      else rows @ [new])"

definition blank_user :: "string \<Rightarrow> int \<Rightarrow> user_row" where
  "blank_user email stamp =
     \<lparr>ur_email = email, ur_labels = None, ur_up = 0, ur_down = 0, ur_last_seen = None,
      ur_last_ips = None, ur_disabled = False, ur_first_seen = stamp\<rparr>"

text \<open>The row write shared by the add and the edit mutation: relabelled and kept live.\<close>

definition relabel_user :: "string \<Rightarrow> label list \<Rightarrow> int \<Rightarrow> user_row list \<Rightarrow> user_row list" where
  "relabel_user email labels stamp =
     upsert_user ((blank_user email stamp)\<lparr>ur_labels := Some labels\<rparr>)
       (\<lambda>r. r\<lparr>ur_labels := Some labels, ur_disabled := False\<rparr>)"

section \<open>Mutations\<close>

record new_roster_user =
  nu_Email :: string
  nu_ClientID :: string
  nu_Inbounds :: "string list"
  nu_Labels :: "label list"

record roster_record =
  rec_Email :: string
  rec_ClientID :: string
  rec_Inbounds :: "string list"
  rec_CreatedAt :: int
  rec_UpdatedAt :: int

definition email_conflict :: "roster_row option \<Rightarrow> store_error option" where
  "email_conflict existing =
     (case existing of
        None \<Rightarrow> None
      | Some r \<Rightarrow> if rr_deleting r then Some (ErrEmailTaken (rr_email r))
                  else if \<not> rr_disabled r then Some (ErrEmailTaken (rr_email r))
                  else None)"

definition id_conflict :: "roster_row option \<Rightarrow> string \<Rightarrow> bool \<Rightarrow> store_error option" where
  "id_conflict holder email disabled =
     (case holder of
        None \<Rightarrow> None
      | Some h \<Rightarrow> if \<not> equal_fold (rr_email h) email \<or> \<not> disabled
                  then Some (ErrClientIDTaken (rr_email h)) else None)"

definition AddRosterUser :: "db \<Rightarrow> new_roster_user \<Rightarrow> int \<Rightarrow> store_error + roster_record \<times> db" where
  "AddRosterUser d user stamp =
     (let existing = find (\<lambda>r. same_email (rr_email r) (nu_Email user)) (db_roster d);
          disabled = (case existing of None \<Rightarrow> False | Some r \<Rightarrow> rr_disabled r);
          holder = find (\<lambda>r. sql_lower (rr_client_id r) = sql_lower (nu_ClientID user)) (db_roster d)
      in case email_conflict existing of
           Some e \<Rightarrow> Inl e
         | None \<Rightarrow>
             (case id_conflict holder (nu_Email user) disabled of
                Some e \<Rightarrow> Inl e
              | None \<Rightarrow>
                  let created = (case existing of None \<Rightarrow> stamp | Some r \<Rightarrow> rr_created_at r);
                      roster = (if disabled
                        then update_where (\<lambda>q. same_email (rr_email q) (nu_Email user))
                               (\<lambda>q. q\<lparr>rr_client_id := nu_ClientID user, rr_inbounds := nu_Inbounds user,
                                      rr_disabled := False, rr_updated_at := stamp\<rparr>) (db_roster d)
                        else db_roster d @
                               [\<lparr>rr_email = nu_Email user, rr_client_id = nu_ClientID user,
                                 rr_inbounds = nu_Inbounds user, rr_disabled = False,
                                 rr_deleting = False, rr_created_at = stamp, rr_updated_at = stamp\<rparr>])
                  in Inr (\<lparr>rec_Email = nu_Email user, rec_ClientID = nu_ClientID user,
                           rec_Inbounds = nu_Inbounds user, rec_CreatedAt = created,
                           rec_UpdatedAt = stamp\<rparr>,
                          d\<lparr>db_roster := roster,
                            db_users := relabel_user (nu_Email user) (nu_Labels user) stamp (db_users d)\<rparr>)))"

definition DisableRosterUser :: "db \<Rightarrow> string \<Rightarrow> int \<Rightarrow> db" where
  "DisableRosterUser d email stamp =
     d\<lparr>db_roster := update_where
         (\<lambda>r. same_email (rr_email r) email \<and> \<not> rr_disabled r \<and> \<not> rr_deleting r)
         (\<lambda>r. r\<lparr>rr_disabled := True, rr_updated_at := stamp\<rparr>) (db_roster d),
       db_users := update_where (\<lambda>u. same_email (ur_email u) email \<and> \<not> ur_disabled u)
         (\<lambda>u. u\<lparr>ur_disabled := True\<rparr>) (db_users d)\<rparr>"

definition MarkRosterDeleting :: "db \<Rightarrow> string \<Rightarrow> int \<Rightarrow> db" where
  "MarkRosterDeleting d email stamp =
     d\<lparr>db_roster := update_where (\<lambda>r. same_email (rr_email r) email \<and> \<not> rr_deleting r)
         (\<lambda>r. r\<lparr>rr_disabled := True, rr_deleting := True, rr_updated_at := stamp\<rparr>) (db_roster d),
       db_users := update_where (\<lambda>u. same_email (ur_email u) email \<and> \<not> ur_disabled u)
         (\<lambda>u. u\<lparr>ur_disabled := True\<rparr>) (db_users d)\<rparr>"

definition PurgeRosterUser :: "db \<Rightarrow> string \<Rightarrow> db" where
  "PurgeRosterUser d email =
     d\<lparr>db_users := delete_where
         (\<lambda>u. same_email (ur_email u) email \<and>
              (\<exists>r \<in> set (db_roster d). same_email (rr_email r) (ur_email u) \<and> rr_deleting r)) (db_users d),
       db_roster := delete_where (\<lambda>r. same_email (rr_email r) email \<and> rr_deleting r) (db_roster d)\<rparr>"

definition record_of :: "roster_row \<Rightarrow> roster_record" where
  "record_of r = \<lparr>rec_Email = rr_email r, rec_ClientID = rr_client_id r, rec_Inbounds = rr_inbounds r,
     rec_CreatedAt = rr_created_at r, rec_UpdatedAt = rr_updated_at r\<rparr>"

definition rosterRecord :: "db \<Rightarrow> string \<Rightarrow> bool \<Rightarrow> roster_record option" where
  "rosterRecord d email disabled =
     map_option record_of
       (find (\<lambda>r. same_email (rr_email r) email \<and> rr_disabled r = disabled \<and> \<not> rr_deleting r) (db_roster d))"

definition RosterRecord :: "db \<Rightarrow> string \<Rightarrow> roster_record option" where
  "RosterRecord d email = rosterRecord d email False"

definition DisabledRosterRecord :: "db \<Rightarrow> string \<Rightarrow> roster_record option" where
  "DisabledRosterRecord d email = rosterRecord d email True"

definition EnableRosterUser :: "db \<Rightarrow> string \<Rightarrow> int \<Rightarrow> store_error + roster_record \<times> bool \<times> db" where
  "EnableRosterUser d email stamp =
     (case RosterRecord d email of
        Some rec \<Rightarrow> Inr (rec, False, d)
      | None \<Rightarrow>
          (case rosterRecord d email True of
             None \<Rightarrow> Inl ErrRosterNotFound
           | Some rec \<Rightarrow>
               Inr (rec\<lparr>rec_UpdatedAt := stamp\<rparr>, True,
                 d\<lparr>db_roster := update_where (\<lambda>r. same_email (rr_email r) (rec_Email rec))
                     (\<lambda>r. r\<lparr>rr_disabled := False, rr_updated_at := stamp\<rparr>) (db_roster d),
                   db_users := update_where (\<lambda>u. same_email (ur_email u) (rec_Email rec))
                     (\<lambda>u. u\<lparr>ur_disabled := False\<rparr>) (db_users d)\<rparr>)))"

definition short_record :: "roster_row \<Rightarrow> roster_record" where
  "short_record r = \<lparr>rec_Email = rr_email r, rec_ClientID = rr_client_id r, rec_Inbounds = rr_inbounds r,
     rec_CreatedAt = 0, rec_UpdatedAt = 0\<rparr>"

definition RosterRecords :: "db \<Rightarrow> roster_record list" where
  "RosterRecords d = map short_record
     (sort_key rr_email (filter (\<lambda>r. \<not> rr_disabled r \<and> \<not> rr_deleting r) (db_roster d)))"

definition DeletingRosterRecords :: "db \<Rightarrow> roster_record list" where
  "DeletingRosterRecords d = map short_record (sort_key rr_email (filter rr_deleting (db_roster d)))"

record roster_edit =
  ed_ClientID :: "string option"
  ed_Inbounds :: "string list option"
  ed_Labels :: "label list"

definition EditRosterUser :: "db \<Rightarrow> string \<Rightarrow> roster_edit \<Rightarrow> int \<Rightarrow> store_error + roster_record \<times> db" where
  "EditRosterUser d email edit stamp =
     (case RosterRecord d email of
        None \<Rightarrow> Inl ErrRosterNotFound
      | Some before \<Rightarrow>
          let taken = (case ed_ClientID edit of
                 None \<Rightarrow> None
               | Some cid \<Rightarrow> find (\<lambda>r. sql_lower (rr_client_id r) = sql_lower cid \<and>
                                        \<not> same_email (rr_email r) (rec_Email before)) (db_roster d));
              cid = (case ed_ClientID edit of
                 None \<Rightarrow> rec_ClientID before
               | Some cid \<Rightarrow> if equal_fold (rec_ClientID before) cid then rec_ClientID before else cid);
              inbounds = (case ed_Inbounds edit of None \<Rightarrow> rec_Inbounds before | Some tags \<Rightarrow> tags);
              stored = find (\<lambda>u. same_email (ur_email u) (rec_Email before)) (db_users d);
              unchanged = (case stored of
                 None \<Rightarrow> False
               | Some u \<Rightarrow> cid = rec_ClientID before \<and> inbounds = rec_Inbounds before \<and>
                   (case ur_labels u of None \<Rightarrow> [] | Some ls \<Rightarrow> ls) = ed_Labels edit)
          in case taken of
               Some r \<Rightarrow> Inl (ErrClientIDTaken (rr_email r))
             | None \<Rightarrow>
                 if unchanged then Inr (before, d)
                 else Inr (before\<lparr>rec_ClientID := cid, rec_Inbounds := inbounds, rec_UpdatedAt := stamp\<rparr>,
                   d\<lparr>db_roster := update_where (\<lambda>r. rr_email r = rec_Email before)
                       (\<lambda>r. r\<lparr>rr_client_id := cid, rr_inbounds := inbounds, rr_updated_at := stamp\<rparr>)
                       (db_roster d),
                     db_users := relabel_user (rec_Email before) (ed_Labels edit) stamp (db_users d)\<rparr>))"

section \<open>The poll transaction\<close>

record delta =
  dl_Email :: string
  dl_Up :: u64
  dl_Down :: u64
  dl_SeenNow :: bool

record presence =
  ps_Email :: string
  ps_IPs :: "string list"
  ps_LastSeen :: int

definition lastSeenGrow :: "int option \<Rightarrow> int option \<Rightarrow> int option" where
  "lastSeenGrow old new =
     (case new of
        None \<Rightarrow> old
      | Some n \<Rightarrow> Some (max (case old of None \<Rightarrow> 0 | Some v \<Rightarrow> v) n))"

definition apply_delta :: "int \<Rightarrow> delta \<Rightarrow> user_row list \<Rightarrow> user_row list" where
  "apply_delta stamp dl =
     (let seen = (if dl_SeenNow dl then Some stamp else None)
      in upsert_user
           ((blank_user (dl_Email dl) stamp)\<lparr>ur_up := unat (dl_Up dl), ur_down := unat (dl_Down dl),
              ur_last_seen := seen\<rparr>)
           (\<lambda>u. u\<lparr>ur_up := ur_up u + unat (dl_Up dl), ur_down := ur_down u + unat (dl_Down dl),
                  ur_last_seen := lastSeenGrow (ur_last_seen u) seen\<rparr>))"

definition apply_presence :: "int \<Rightarrow> presence \<Rightarrow> user_row list \<Rightarrow> user_row list" where
  "apply_presence stamp p =
     (let seen = (if 0 < ps_LastSeen p then Some (ps_LastSeen p) else None);
          ips = (if ps_IPs p = [] then None else Some (ps_IPs p))
      in upsert_user
           ((blank_user (ps_Email p) stamp)\<lparr>ur_last_seen := seen, ur_last_ips := ips\<rparr>)
           (\<lambda>u. u\<lparr>ur_last_seen := lastSeenGrow (ur_last_seen u) seen,
                  ur_last_ips := (case ips of None \<Rightarrow> ur_last_ips u | Some i \<Rightarrow> Some i)\<rparr>))"

definition roster_has :: "roster_row list \<Rightarrow> string \<Rightarrow> bool \<Rightarrow> bool" where
  "roster_has rows email disabled \<longleftrightarrow>
     (\<exists>r \<in> set rows. same_email (rr_email r) email \<and> rr_disabled r = disabled)"

definition sync_one :: "roster_row list \<Rightarrow> int \<Rightarrow> string \<times> label list \<Rightarrow> user_row list \<Rightarrow> user_row list" where
  "sync_one rows stamp entry =
     upsert_user ((blank_user (fst entry) stamp)\<lparr>ur_labels := Some (snd entry)\<rparr>)
       (\<lambda>u. u\<lparr>ur_labels := Some (snd entry),
              ur_disabled := (if roster_has rows (ur_email u) True then ur_disabled u else False)\<rparr>)"

definition syncLabels :: "db \<Rightarrow> label list gomap \<Rightarrow> int \<Rightarrow> db" where
  "syncLabels d labels stamp =
     (let marked = update_where
            (\<lambda>u. \<not> ur_disabled u \<and> \<not> roster_has (db_roster d) (ur_email u) False)
            (\<lambda>u. u\<lparr>ur_disabled := True\<rparr>) (db_users d)
      in d\<lparr>db_users := fold (sync_one (db_roster d) stamp) labels marked\<rparr>)"

definition adopt_one :: "roster_row list \<Rightarrow> int \<Rightarrow> string \<times> client \<Rightarrow> roster_row list \<Rightarrow> roster_row list" where
  "adopt_one stored stamp entry rows =
     (case entry of (email, c) \<Rightarrow>
      (case find (\<lambda>r. rr_email r = email) stored of
         None \<Rightarrow> rows @ [\<lparr>rr_email = email, rr_client_id = cl_ClientID c, rr_inbounds = cl_Inbounds c,
                          rr_disabled = False, rr_deleting = False, rr_created_at = stamp,
                          rr_updated_at = stamp\<rparr>]
       | Some row \<Rightarrow>
           if rr_disabled row then rows
           else
             let merged = append_missing (rr_inbounds row) (cl_Inbounds c)
             in if length merged = length (rr_inbounds row) then rows
                else update_where (\<lambda>r. rr_email r = email)
                       (\<lambda>r. r\<lparr>rr_inbounds := merged, rr_updated_at := stamp\<rparr>) rows))"

definition adoptClients :: "db \<Rightarrow> client gomap \<Rightarrow> int \<Rightarrow> db" where
  "adoptClients d clients stamp =
     d\<lparr>db_roster := fold (adopt_one (db_roster d) stamp) (sort_key fst clients) (db_roster d)\<rparr>"

definition ApplyPoll :: "db \<Rightarrow> delta list \<Rightarrow> presence list \<Rightarrow> roster_parse option \<Rightarrow> int \<Rightarrow> db" where
  "ApplyPoll d dls ps roster stamp =
     (let d1 = d\<lparr>db_users := fold (apply_presence stamp) ps (fold (apply_delta stamp) dls (db_users d))\<rparr>
      in case roster of
           None \<Rightarrow> d1
         | Some rp \<Rightarrow> adoptClients (syncLabels d1 (rp_Labels rp) stamp) (rp_Clients rp) stamp)"

section \<open>Reads\<close>

record user =
  us_Email :: string
  us_Labels :: "label list"
  us_ClientID :: "string option"
  us_Inbounds :: "string list"
  us_Up :: nat
  us_Down :: nat
  us_Online :: bool
  us_IPs :: "string list"
  us_IPCountries :: "string gomap"
  us_SpeedUp :: u64
  us_SpeedDown :: u64
  us_LastSeen :: "int option"
  us_Disabled :: bool
  us_FirstSeen :: int

definition user_of :: "roster_row list \<Rightarrow> user_row \<Rightarrow> user" where
  "user_of roster u =
     (let r = find (\<lambda>r. rr_email r = ur_email u \<and> \<not> rr_disabled r) roster
      in \<lparr>us_Email = ur_email u,
          us_Labels = (case ur_labels u of None \<Rightarrow> [] | Some ls \<Rightarrow> ls),
          us_ClientID = map_option rr_client_id r,
          us_Inbounds = (case r of None \<Rightarrow> [] | Some q \<Rightarrow> rr_inbounds q),
          us_Up = ur_up u, us_Down = ur_down u, us_Online = False,
          us_IPs = (case ur_last_ips u of None \<Rightarrow> [] | Some ips \<Rightarrow> ips),
          us_IPCountries = [], us_SpeedUp = 0, us_SpeedDown = 0, us_LastSeen = ur_last_seen u,
          us_Disabled = ur_disabled u, us_FirstSeen = ur_first_seen u\<rparr>)"

definition Store_Users :: "db \<Rightarrow> user list" where
  "Store_Users d = map (user_of (db_roster d))
     (sort_key (\<lambda>u. (- int (ur_up u + ur_down u), ur_email u)) (db_users d))"

definition LoadTrafficTotals :: "db \<Rightarrow> nat \<times> nat \<times> bool" where
  "LoadTrafficTotals d = (case db_totals d of None \<Rightarrow> (0, 0, False) | Some (up, down) \<Rightarrow> (up, down, True))"

definition SaveTrafficTotals :: "db \<Rightarrow> nat \<Rightarrow> nat \<Rightarrow> db" where
  "SaveTrafficTotals d up down = d\<lparr>db_totals := Some (up, down)\<rparr>"

definition ExistingEmails :: "db \<Rightarrow> string list" where
  "ExistingEmails d = map ur_email (db_users d)"

section \<open>Tables: shared lemmas\<close>

named_theorems store_defs \<open>the mutations, unfolded\<close>

lemmas [store_defs] = DisableRosterUser_def MarkRosterDeleting_def PurgeRosterUser_def

definition is_ascii :: "string \<Rightarrow> bool" where
  "is_ascii s \<longleftrightarrow> (\<forall>c \<in> set s. (of_char c :: nat) < 128)"

lemma fold_key_ascii: "is_ascii s \<Longrightarrow> fold_key s = sql_lower s"
proof (induction s)
  case (Cons c s)
  then have "(of_char c :: nat) < 128" and "is_ascii s" by (simp_all add: is_ascii_def)
  moreover from this have "c \<noteq> CHR 0xE2" and "c \<noteq> CHR 0xC5" by auto
  ultimately show ?case using Cons.IH by (simp add: sql_lower_def)
qed (simp add: sql_lower_def)

lemma equal_fold_ascii: "is_ascii a \<Longrightarrow> is_ascii b \<Longrightarrow> equal_fold a b \<longleftrightarrow> same_email a b"
  by (simp add: equal_fold_def same_email_def fold_key_ascii)

lemma same_email_refl [simp]: "same_email a a"
  by (simp add: same_email_def)

lemma same_email_sym: "same_email a b \<Longrightarrow> same_email b a"
  by (simp add: same_email_def)

lemma same_email_trans: "same_email a b \<Longrightarrow> same_email b c \<Longrightarrow> same_email a c"
  by (simp add: same_email_def)

lemma same_email_cong: "same_email a b \<Longrightarrow> same_email c a = same_email c b"
  by (auto simp: same_email_def)

lemma set_update_where: "set (update_where P f rows) = (\<lambda>r. if P r then f r else r) ` set rows"
  by (auto simp: update_where_def)

lemma map_update_where:
  "(\<And>r. P r \<Longrightarrow> k (f r) = k r) \<Longrightarrow> map k (update_where P f rows) = map k rows"
  by (simp add: update_where_def)

lemma update_where_none: "(\<And>r. r \<in> set rows \<Longrightarrow> \<not> P r) \<Longrightarrow> update_where P f rows = rows"
  by (simp add: update_where_def map_idI)

lemma find_update_where:
  "(\<And>r. P r \<Longrightarrow> Q (f r) = Q r) \<Longrightarrow>
   find Q (update_where P f rows) = map_option (\<lambda>r. if P r then f r else r) (find Q rows)"
  unfolding update_where_def by (rule find_cong_map) auto

lemma find_delete_where:
  "(\<And>r. Q r \<Longrightarrow> \<not> P r) \<Longrightarrow> find Q (delete_where P rows) = find Q rows"
  by (induction rows) (auto simp: delete_where_def)

text \<open>Rewriting the one row a key selects keeps another column's values distinct.\<close>

lemma distinct_update_where:
  assumes "distinct (map k rows)" and "distinct (map e rows)"
    and "\<And>r. P r \<Longrightarrow> e r = key" and "\<And>r. P r \<Longrightarrow> k (f r) = v"
    and "\<And>r. r \<in> set rows \<Longrightarrow> \<not> P r \<Longrightarrow> k r \<noteq> v"
  shows "distinct (map k (update_where P f rows))"
  using assms(1,2,5)
proof (induction rows)
  case (Cons r rows)
  have tail: "distinct (map k (update_where P f rows))"
    using Cons by simp
  show ?case
  proof (cases "P r")
    case True
    have "\<not> P q" if "q \<in> set rows" for q
      using Cons.prems(2) that True assms(3) by (metis distinct.simps(2) imageI list.map(2) set_map)
    moreover from this have "k q \<noteq> v" if "q \<in> set rows" for q
      using Cons.prems(3) that by simp
    ultimately show ?thesis
      using True tail assms(4) by (auto simp: update_where_def)
  next
    case False
    with Cons.prems(1,3) assms(4) have "k r \<notin> k ` set (update_where P f rows)"
      by (fastforce simp: set_update_where)
    with False tail show ?thesis by (auto simp: update_where_def)
  qed
qed (simp add: update_where_def)

lemma emails_upsert_user:
  assumes "ur_email new = e" and "\<And>u. ur_email (f u) = ur_email u"
  shows "map ur_email (upsert_user new f rows) =
    (if e \<in> ur_email ` set rows then map ur_email rows else map ur_email rows @ [e])"
  using assms by (auto simp: upsert_user_def map_update_where)

lemma distinct_upsert_user:
  assumes "\<And>u. ur_email (f u) = ur_email u" and "distinct (map ur_email rows)"
  shows "distinct (map ur_email (upsert_user new f rows))"
  using assms by (auto simp: emails_upsert_user [where e = "ur_email new"])

section \<open>Uniqueness of emails and Client IDs\<close>

definition unique_roster :: "db \<Rightarrow> bool" where
  "unique_roster d \<longleftrightarrow>
     distinct (map (\<lambda>r. sql_lower (rr_email r)) (db_roster d)) \<and>
     distinct (map (\<lambda>r. sql_lower (rr_client_id r)) (db_roster d)) \<and>
     (\<forall>r \<in> set (db_roster d). is_ascii (rr_email r) \<and> (rr_deleting r \<longrightarrow> rr_disabled r))"

lemma unique_rosterD:
  assumes "unique_roster d" and "r \<in> set (db_roster d)" and "q \<in> set (db_roster d)"
    and "same_email (rr_email r) (rr_email q)"
  shows "r = q"
  using assms distinct_map_eqD [of "\<lambda>r. sql_lower (rr_email r)"]
  by (auto simp: unique_roster_def same_email_def)

lemma AddRosterUser_fresh:
  assumes "find (\<lambda>r. same_email (rr_email r) (nu_Email user)) (db_roster d) = None"
    and "AddRosterUser d user stamp = Inr (record, d')"
  shows "find (\<lambda>r. sql_lower (rr_client_id r) = sql_lower (nu_ClientID user)) (db_roster d) = None \<and>
    db_roster d' = db_roster d @
      [\<lparr>rr_email = nu_Email user, rr_client_id = nu_ClientID user, rr_inbounds = nu_Inbounds user,
        rr_disabled = False, rr_deleting = False, rr_created_at = stamp, rr_updated_at = stamp\<rparr>]"
  using assms
  by (auto simp: AddRosterUser_def Let_def email_conflict_def id_conflict_def split: option.splits)

lemma unique_AddRosterUser:
  assumes u: "unique_roster d" and ascii: "is_ascii (nu_Email user)"
    and add: "AddRosterUser d user stamp = Inr (record, d')"
  shows "unique_roster d'"
proof -
  let ?mine = "\<lambda>r. same_email (rr_email r) (nu_Email user)"
  let ?held = "\<lambda>r. sql_lower (rr_client_id r) = sql_lower (nu_ClientID user)"
  let ?new = "\<lambda>q. q\<lparr>rr_client_id := nu_ClientID user, rr_inbounds := nu_Inbounds user,
      rr_disabled := False, rr_updated_at := stamp\<rparr>"
  show ?thesis
  proof (cases "find ?mine (db_roster d)")
    case None
    from AddRosterUser_fresh [OF None add] None u ascii show ?thesis
      by (auto simp: unique_roster_def find_None_iff same_email_def)
  next
    case (Some r)
    then have r: "r \<in> set (db_roster d)" "?mine r" by (auto dest: find_SomeD)
    from Some add have dis: "rr_disabled r" "\<not> rr_deleting r"
      and d': "db_roster d' = update_where ?mine ?new (db_roster d)"
      by (auto simp: AddRosterUser_def Let_def email_conflict_def split: option.splits if_splits)
    have free: "\<not> ?held q" if q: "q \<in> set (db_roster d)" "\<not> ?mine q" for q
    proof (cases "find ?held (db_roster d)")
      case None
      with q show ?thesis by (auto simp: find_None_iff)
    next
      case (Some h)
      then have h: "h \<in> set (db_roster d)" "?held h" by (auto dest: find_SomeD)
      from add Some \<open>find ?mine (db_roster d) = Some r\<close> have "equal_fold (rr_email h) (nu_Email user)"
        by (auto simp: AddRosterUser_def Let_def email_conflict_def id_conflict_def
            split: option.splits if_splits)
      with u h ascii have "?mine h" by (simp add: unique_roster_def equal_fold_ascii)
      show ?thesis
      proof
        assume "?held q"
        with u q h have "q = h"
          using distinct_map_eqD [of "\<lambda>r. sql_lower (rr_client_id r)" "db_roster d" q h]
          by (simp add: unique_roster_def)
        with \<open>?mine h\<close> q show False by simp
      qed
    qed
    have "distinct (map (\<lambda>r. sql_lower (rr_client_id r)) (db_roster d'))"
      unfolding d'
      by (rule distinct_update_where [where e = "\<lambda>r. sql_lower (rr_email r)"
            and key = "sql_lower (nu_Email user)" and v = "sql_lower (nu_ClientID user)"])
         (use u free in \<open>auto simp: unique_roster_def same_email_def\<close>)
    moreover have "map (\<lambda>r. sql_lower (rr_email r)) (db_roster d') = map (\<lambda>r. sql_lower (rr_email r)) (db_roster d)"
      unfolding d' by (rule map_update_where) simp
    moreover have "\<forall>q \<in> set (db_roster d'). is_ascii (rr_email q) \<and> (rr_deleting q \<longrightarrow> rr_disabled q)"
    proof -
      have "\<not> rr_deleting q" if "q \<in> set (db_roster d)" "?mine q" for q
        using unique_rosterD [OF u that(1) r(1)] that r dis by (auto simp: same_email_def)
      with u show ?thesis by (auto simp: d' set_update_where unique_roster_def)
    qed
    ultimately show ?thesis using u by (simp add: unique_roster_def)
  qed
qed

lemma unique_keep:
  assumes "unique_roster d"
    and "db_roster d' = update_where P f (db_roster d)"
    and "\<And>r. P r \<Longrightarrow> rr_email (f r) = rr_email r \<and> rr_client_id (f r) = rr_client_id r"
    and "\<And>r. r \<in> set (db_roster d) \<Longrightarrow> P r \<Longrightarrow> rr_deleting (f r) \<Longrightarrow> rr_disabled (f r)"
  shows "unique_roster d'"
  using assms by (auto simp: unique_roster_def map_update_where set_update_where)

lemma unique_DisableRosterUser: "unique_roster d \<Longrightarrow> unique_roster (DisableRosterUser d email stamp)"
  by (erule unique_keep, simp add: store_defs) auto

lemma unique_MarkRosterDeleting: "unique_roster d \<Longrightarrow> unique_roster (MarkRosterDeleting d email stamp)"
  by (erule unique_keep, simp add: store_defs) auto

lemma unique_PurgeRosterUser: "unique_roster d \<Longrightarrow> unique_roster (PurgeRosterUser d email)"
  by (auto simp: unique_roster_def store_defs delete_where_def distinct_map inj_on_def)

lemma unique_EnableRosterUser:
  assumes u: "unique_roster d" and en: "EnableRosterUser d email stamp = Inr (record, revived, d')"
  shows "unique_roster d'"
proof (cases "RosterRecord d email")
  case None
  with en obtain r where r: "r \<in> set (db_roster d)" "same_email (rr_email r) email" "\<not> rr_deleting r"
    and d': "db_roster d' = update_where (\<lambda>q. same_email (rr_email q) (rr_email r))
        (\<lambda>q. q\<lparr>rr_disabled := False, rr_updated_at := stamp\<rparr>) (db_roster d)"
    by (auto simp: EnableRosterUser_def rosterRecord_def record_of_def dest!: find_SomeD split: option.splits)
  show ?thesis
  proof (rule unique_keep [OF u d'])
    fix q assume "q \<in> set (db_roster d)" "same_email (rr_email q) (rr_email r)"
      and "rr_deleting (q\<lparr>rr_disabled := False, rr_updated_at := stamp\<rparr>)"
    with unique_rosterD [OF u _ r(1), of q] r(3) show
      "rr_disabled (q\<lparr>rr_disabled := False, rr_updated_at := stamp\<rparr>)" by simp
  qed simp
qed (use assms in \<open>simp add: EnableRosterUser_def\<close>)

lemma RosterRecordD:
  assumes "RosterRecord d email = Some before"
  obtains r where "r \<in> set (db_roster d)" "before = record_of r" "same_email (rr_email r) email"
    "\<not> rr_disabled r" "\<not> rr_deleting r"
  using assms by (auto simp: RosterRecord_def rosterRecord_def dest!: find_SomeD)

lemma unique_EditRosterUser:
  assumes u: "unique_roster d" and ed: "EditRosterUser d email edit stamp = Inr (record, d')"
  shows "unique_roster d'"
proof -
  from ed obtain before where before: "RosterRecord d email = Some before"
    by (auto simp: EditRosterUser_def split: option.splits)
  then obtain r where r: "r \<in> set (db_roster d)" "before = record_of r" by (rule RosterRecordD)
  let ?cid = "case ed_ClientID edit of None \<Rightarrow> rec_ClientID before
    | Some cid \<Rightarrow> if equal_fold (rec_ClientID before) cid then rec_ClientID before else cid"
  show ?thesis
  proof (cases "d' = d")
    case False
    with ed before obtain tags where d': "db_roster d' = update_where (\<lambda>q. rr_email q = rr_email r)
        (\<lambda>q. q\<lparr>rr_client_id := ?cid, rr_inbounds := tags, rr_updated_at := stamp\<rparr>) (db_roster d)"
      by (auto simp: EditRosterUser_def Let_def r(2) record_of_def split: option.splits if_splits)
    have mine: "q = r" if "q \<in> set (db_roster d)" "rr_email q = rr_email r" for q
      using unique_rosterD [OF u that(1) r(1)] that(2) by simp
    have other: "sql_lower (rr_client_id q) \<noteq> sql_lower ?cid"
      if q: "q \<in> set (db_roster d)" "rr_email q \<noteq> rr_email r" for q
    proof (cases "?cid = rr_client_id r")
      case True
      with q u r(1) distinct_map_eqD [of "\<lambda>r. sql_lower (rr_client_id r)" "db_roster d" q r]
      show ?thesis by (auto simp: unique_roster_def)
    next
      case cid: False
      then obtain c where c: "ed_ClientID edit = Some c" "?cid = c"
        by (auto simp: r(2) record_of_def split: option.splits if_splits)
      with ed before have "find (\<lambda>x. sql_lower (rr_client_id x) = sql_lower c \<and>
          \<not> same_email (rr_email x) (rec_Email before)) (db_roster d) = None"
        by (auto simp: EditRosterUser_def Let_def split: option.splits)
      moreover have "\<not> same_email (rr_email q) (rr_email r)"
        using unique_rosterD [OF u q(1) r(1)] q(2) by auto
      ultimately show ?thesis using q(1) c by (auto simp: find_None_iff r(2) record_of_def)
    qed
    have "distinct (map (\<lambda>r. sql_lower (rr_client_id r)) (db_roster d'))"
      unfolding d'
      by (rule distinct_update_where [where e = "\<lambda>r. sql_lower (rr_email r)"
            and key = "sql_lower (rr_email r)" and v = "sql_lower ?cid"])
         (use u other in \<open>auto simp: unique_roster_def\<close>)
    with u show ?thesis
      by (auto simp: unique_roster_def d' map_update_where set_update_where)
  qed (use u in simp)
qed

text \<open>The committed mutations, in any order.\<close>

inductive mutation :: "db \<Rightarrow> db \<Rightarrow> bool" where
  added: "is_ascii (nu_Email user) \<Longrightarrow> AddRosterUser d user stamp = Inr (record, d') \<Longrightarrow> mutation d d'"
| edited: "EditRosterUser d email edit stamp = Inr (record, d') \<Longrightarrow> mutation d d'"
| disabled: "mutation d (DisableRosterUser d email stamp)"
| enabled: "EnableRosterUser d email stamp = Inr (record, revived, d') \<Longrightarrow> mutation d d'"
| marked: "mutation d (MarkRosterDeleting d email stamp)"
| purged: "mutation d (PurgeRosterUser d email)"

lemma mutation_unique: "mutation d d' \<Longrightarrow> unique_roster d \<Longrightarrow> unique_roster d'"
  by (induction rule: mutation.induct)
     (blast intro: unique_AddRosterUser unique_EditRosterUser unique_DisableRosterUser
        unique_EnableRosterUser unique_MarkRosterDeleting unique_PurgeRosterUser)+


definition no_tables :: db where
  "no_tables = \<lparr>db_users = [], db_roster = [], db_totals = None\<rparr>"

definition ann :: new_roster_user where
  "ann = \<lparr>nu_Email = ''Ann@x'', nu_ClientID = ''id-1'', nu_Inbounds = [''t''], nu_Labels = []\<rparr>"

definition ann_row :: "int \<Rightarrow> roster_row" where
  "ann_row stamp = \<lparr>rr_email = ''Ann@x'', rr_client_id = ''id-1'', rr_inbounds = [''t''],
     rr_disabled = False, rr_deleting = False, rr_created_at = stamp, rr_updated_at = stamp\<rparr>"

definition with_ann :: db where
  "with_ann = \<lparr>db_users = [(blank_user ''Ann@x'' 1)\<lparr>ur_labels := Some []\<rparr>], db_roster = [ann_row 1],
     db_totals = None\<rparr>"

lemma add_ann: "\<exists>rec. AddRosterUser no_tables ann 1 = Inr (rec, with_ann)"
  by (simp add: AddRosterUser_def no_tables_def with_ann_def ann_def ann_row_def Let_def
      email_conflict_def id_conflict_def relabel_user_def upsert_user_def)


section \<open>The life of a Roster member\<close>

text \<open>
  The abstract Roster maps a folded email to what the panel promises about it: a live member, a
  disabled one whose credential and attachments are kept, or one whose delete is in progress.
\<close>

datatype member =
    Live (member_id: string) (member_tags: "string list")
  | Off (member_id: string) (member_tags: "string list")
  | Leaving (member_id: string) (member_tags: "string list")

fun spec_disable :: "member option \<Rightarrow> member option" where
  "spec_disable (Some (Live c ts)) = Some (Off c ts)"
| "spec_disable m = m"

fun spec_enable :: "member option \<Rightarrow> member option" where
  "spec_enable (Some (Off c ts)) = Some (Live c ts)"
| "spec_enable m = m"

fun spec_mark :: "member option \<Rightarrow> member option" where
  "spec_mark (Some m) = Some (Leaving (member_id m) (member_tags m))"
| "spec_mark None = None"

fun spec_purge :: "member option \<Rightarrow> member option" where
  "spec_purge (Some (Leaving c ts)) = None"
| "spec_purge m = m"

definition member_of :: "roster_row \<Rightarrow> member" where
  "member_of r = (if rr_deleting r then Leaving else if rr_disabled r then Off else Live)
     (rr_client_id r) (rr_inbounds r)"

definition abs_roster :: "db \<Rightarrow> string \<Rightarrow> member option" where
  "abs_roster d key = map_option member_of (find (\<lambda>r. sql_lower (rr_email r) = key) (db_roster d))"

text \<open>What the write path relies on, as an interface: the tables change as the members do.\<close>

locale member_store =
  fixes invar :: "'d \<Rightarrow> bool"
    and members :: "'d \<Rightarrow> string \<Rightarrow> member option"
    and disable enable mark :: "'d \<Rightarrow> string \<Rightarrow> int \<Rightarrow> 'd"
    and purge :: "'d \<Rightarrow> string \<Rightarrow> 'd"
  assumes invar_disable: "invar d \<Longrightarrow> invar (disable d e t)"
    and invar_enable: "invar d \<Longrightarrow> invar (enable d e t)"
    and invar_mark: "invar d \<Longrightarrow> invar (mark d e t)"
    and invar_purge: "invar d \<Longrightarrow> invar (purge d e)"
    and members_disable: "invar d \<Longrightarrow>
      members (disable d e t) = (members d)(sql_lower e := spec_disable (members d (sql_lower e)))"
    and members_enable: "invar d \<Longrightarrow>
      members (enable d e t) = (members d)(sql_lower e := spec_enable (members d (sql_lower e)))"
    and members_mark: "invar d \<Longrightarrow>
      members (mark d e t) = (members d)(sql_lower e := spec_mark (members d (sql_lower e)))"
    and members_purge: "invar d \<Longrightarrow>
      members (purge d e) = (members d)(sql_lower e := spec_purge (members d (sql_lower e)))"
begin

lemmas members_simps = members_disable members_enable members_mark members_purge
  invar_disable invar_enable invar_mark invar_purge

lemma disable_idem: "invar d \<Longrightarrow> members (disable (disable d e t) e u) = members (disable d e t)"
  by (cases "members d (sql_lower e)" rule: spec_disable.cases) (auto simp: members_simps fun_eq_iff)

lemma enable_after_disable:
  assumes "invar d" and "members d (sql_lower e) = Some (Live c ts)"
  shows "members (enable (disable d e t) e u) = members d"
  using assms by (simp add: members_simps fun_upd_idem)

lemma delete_erases:
  assumes "invar d"
  shows "members (purge (mark d e t) e) = (members d)(sql_lower e := None)"
  using assms by (cases "members d (sql_lower e)") (simp_all add: members_simps)

lemma purge_spares_members:
  assumes "invar d" and "members d (sql_lower e) = Some m" and "\<forall>c ts. m \<noteq> Leaving c ts"
  shows "members (purge d e) = members d"
  using assms by (cases m) (simp_all add: members_simps fun_upd_idem)

lemma marked_cannot_return:
  assumes "invar d" and "members d (sql_lower e) = Some m"
  shows "members (enable (disable (mark d e t) e u) e v) = members (mark d e t)"
  using assms by (simp add: members_simps)

end

definition enable_db :: "db \<Rightarrow> string \<Rightarrow> int \<Rightarrow> db" where
  "enable_db d email stamp =
     (case EnableRosterUser d email stamp of Inl e \<Rightarrow> d | Inr (record, revived, d') \<Rightarrow> d')"

lemma find_email_key:
  "find (\<lambda>r. same_email (rr_email r) email) rows = find (\<lambda>r. sql_lower (rr_email r) = sql_lower email) rows"
  by (simp add: same_email_def)

lemma find_keyed:
  assumes "distinct (map k rows)" and "r \<in> set rows" and "Q r" and "\<And>q. Q q \<Longrightarrow> k q = k r"
  shows "find Q rows = Some r"
  using assms(1,2)
proof (induction rows)
  case (Cons a rows)
  show ?case
  proof (cases "a = r")
    case False
    with Cons.prems have "r \<in> set rows" and "k a \<notin> k ` set rows" by auto
    then have "\<not> Q a" using assms(4) by (metis imageI)
    with Cons \<open>r \<in> set rows\<close> show ?thesis by simp
  qed (use assms(3) in simp)
qed simp

lemma find_of_key:
  assumes "distinct (map k rows)"
  shows "find (\<lambda>r. k r = key \<and> P r) rows =
    (case find (\<lambda>r. k r = key) rows of None \<Rightarrow> None | Some r \<Rightarrow> if P r then Some r else None)"
proof (cases "find (\<lambda>r. k r = key) rows")
  case None
  then have "find (\<lambda>r. k r = key \<and> P r) rows = None" by (auto simp: find_None_iff)
  with None show ?thesis by simp
next
  case (Some r)
  then have r: "r \<in> set rows" "k r = key" by (auto dest: find_SomeD)
  have one: "q = r" if "q \<in> set rows" "k q = key" for q
    using distinct_map_eqD [OF assms that(1) r(1)] that r by simp
  show ?thesis
  proof (cases "P r")
    case True
    with r have "find (\<lambda>r. k r = key \<and> P r) rows = Some r"
      by (intro find_keyed [OF assms]) auto
    with True Some show ?thesis by simp
  next
    case False
    with one have "find (\<lambda>r. k r = key \<and> P r) rows = None" by (auto simp: find_None_iff)
    with False Some show ?thesis by simp
  qed
qed

text \<open>A keyed update or delete changes the abstract Roster at that key only.\<close>

lemma abs_update_where:
  assumes "db_roster d' = update_where P f (db_roster d)"
    and "\<And>r. P r \<Longrightarrow> sql_lower (rr_email r) = key \<and> rr_email (f r) = rr_email r"
    and "\<And>r. r \<in> set (db_roster d) \<Longrightarrow> sql_lower (rr_email r) = key \<Longrightarrow>
      Some (member_of (if P r then f r else r)) = g (Some (member_of r))"
    and "g None = None"
  shows "abs_roster d' = (abs_roster d)(key := g (abs_roster d key))"
proof
  fix k
  have find: "find (\<lambda>r. sql_lower (rr_email r) = k) (db_roster d') =
      map_option (\<lambda>r. if P r then f r else r) (find (\<lambda>r. sql_lower (rr_email r) = k) (db_roster d))"
    unfolding assms(1) by (rule find_update_where) (simp add: assms(2))
  show "abs_roster d' k = ((abs_roster d)(key := g (abs_roster d key))) k"
  proof (cases "find (\<lambda>r. sql_lower (rr_email r) = k) (db_roster d)")
    case None
    with find assms(4) show ?thesis by (cases "k = key") (simp_all add: abs_roster_def)
  next
    case (Some r)
    then have r: "r \<in> set (db_roster d)" "sql_lower (rr_email r) = k" by (auto dest: find_SomeD)
    show ?thesis
    proof (cases "k = key")
      case True
      with Some find assms(3) [OF r(1)] r(2) show ?thesis by (simp add: abs_roster_def)
    next
      case False
      with assms(2) [of r] r(2) have "\<not> P r" by auto
      with False Some find show ?thesis by (simp add: abs_roster_def)
    qed
  qed
qed

lemma abs_DisableRosterUser:
  "abs_roster (DisableRosterUser d e t) =
     (abs_roster d)(sql_lower e := spec_disable (abs_roster d (sql_lower e)))"
  by (rule abs_update_where [where f = "\<lambda>r. r\<lparr>rr_disabled := True, rr_updated_at := t\<rparr>"
        and P = "\<lambda>r. same_email (rr_email r) e \<and> \<not> rr_disabled r \<and> \<not> rr_deleting r"])
     (auto simp: store_defs same_email_def member_of_def)

lemma abs_MarkRosterDeleting:
  "abs_roster (MarkRosterDeleting d e t) =
     (abs_roster d)(sql_lower e := spec_mark (abs_roster d (sql_lower e)))"
  by (rule abs_update_where
        [where f = "\<lambda>r. r\<lparr>rr_disabled := True, rr_deleting := True, rr_updated_at := t\<rparr>"
          and P = "\<lambda>r. same_email (rr_email r) e \<and> \<not> rr_deleting r"])
     (auto simp: store_defs same_email_def member_of_def)

lemma abs_PurgeRosterUser:
  assumes "unique_roster d"
  shows "abs_roster (PurgeRosterUser d e) =
     (abs_roster d)(sql_lower e := spec_purge (abs_roster d (sql_lower e)))"
proof
  fix k
  let ?key = "\<lambda>r. sql_lower (rr_email r)"
  have dist: "distinct (map ?key (db_roster d))" using assms by (simp add: unique_roster_def)
  have after: "find (\<lambda>r. ?key r = k) (db_roster (PurgeRosterUser d e)) =
      find (\<lambda>r. ?key r = k \<and> \<not> (?key r = sql_lower e \<and> rr_deleting r)) (db_roster d)"
    by (simp add: store_defs delete_where_def same_email_def find_filter_conj)
  show "abs_roster (PurgeRosterUser d e) k =
      ((abs_roster d)(sql_lower e := spec_purge (abs_roster d (sql_lower e)))) k"
    unfolding abs_roster_def after find_of_key [OF dist]
    by (auto simp: member_of_def dest: find_SomeD split: option.splits)
qed

lemma rosterRecord_row:
  assumes "unique_roster d"
  shows "rosterRecord d e off =
    (case find (\<lambda>r. sql_lower (rr_email r) = sql_lower e) (db_roster d) of
       None \<Rightarrow> None
     | Some r \<Rightarrow> if rr_disabled r = off \<and> \<not> rr_deleting r then Some (record_of r) else None)"
proof -
  have "distinct (map (\<lambda>r. sql_lower (rr_email r)) (db_roster d))"
    using assms by (simp add: unique_roster_def)
  from find_of_key [OF this, of "sql_lower e" "\<lambda>r. rr_disabled r = off \<and> \<not> rr_deleting r"]
  show ?thesis by (simp add: rosterRecord_def same_email_def split: option.splits)
qed

lemma abs_enable_db:
  assumes "unique_roster d"
  shows "abs_roster (enable_db d e t) =
     (abs_roster d)(sql_lower e := spec_enable (abs_roster d (sql_lower e)))"
proof (cases "find (\<lambda>r. sql_lower (rr_email r) = sql_lower e) (db_roster d)")
  case None
  with assms show ?thesis
    by (simp add: enable_db_def EnableRosterUser_def RosterRecord_def rosterRecord_row abs_roster_def
        fun_upd_idem)
next
  case (Some r)
  then have r: "r \<in> set (db_roster d)" "sql_lower (rr_email r) = sql_lower e"
    by (auto dest: find_SomeD)
  show ?thesis
  proof (cases "rr_disabled r \<and> \<not> rr_deleting r")
    case True
    with Some assms have roster: "db_roster (enable_db d e t) =
        update_where (\<lambda>q. same_email (rr_email q) (rr_email r))
          (\<lambda>q. q\<lparr>rr_disabled := False, rr_updated_at := t\<rparr>) (db_roster d)"
      by (simp add: enable_db_def EnableRosterUser_def RosterRecord_def rosterRecord_row record_of_def)
    have "q = r" if "q \<in> set (db_roster d)" "sql_lower (rr_email q) = sql_lower e" for q
      using unique_rosterD [OF assms that(1) r(1)] that r by (simp add: same_email_def)
    with True r(2) show ?thesis
      by (intro abs_update_where [OF roster]) (auto simp: same_email_def member_of_def)
  next
    case False
    with Some assms show ?thesis
      by (auto simp: enable_db_def EnableRosterUser_def RosterRecord_def rosterRecord_row
          abs_roster_def member_of_def fun_upd_idem)
  qed
qed

lemma unique_enable_db: "unique_roster d \<Longrightarrow> unique_roster (enable_db d e t)"
  by (auto simp: enable_db_def intro: unique_EnableRosterUser split: sum.splits)

interpretation roster_members: member_store unique_roster abs_roster
  DisableRosterUser enable_db MarkRosterDeleting PurgeRosterUser
  by unfold_locales
     (simp_all add: unique_DisableRosterUser unique_MarkRosterDeleting unique_PurgeRosterUser
        unique_enable_db abs_DisableRosterUser abs_MarkRosterDeleting abs_PurgeRosterUser abs_enable_db)

lemma RosterRecord_iff_live:
  assumes "unique_roster d"
  shows "map_option (\<lambda>rec. (rec_ClientID rec, rec_Inbounds rec)) (RosterRecord d e) = Some (c, ts) \<longleftrightarrow>
    abs_roster d (sql_lower e) = Some (Live c ts)"
  using assms
  by (auto simp: RosterRecord_def rosterRecord_row abs_roster_def member_of_def record_of_def
      split: option.splits)

text \<open>
  C10. Disable is reversible and touches one member: disabling a live member and enabling them
  again gives back the Roster as it was, for every email, with the same Client ID and the same
  attachments, and a second disable changes nothing more.
\<close>

theorem disable_then_enable:
  assumes "unique_roster d" and "abs_roster d (sql_lower e) = Some (Live c ts)"
  shows "abs_roster (enable_db (DisableRosterUser d e t) e u) = abs_roster d \<and>
    abs_roster (DisableRosterUser (DisableRosterUser d e t) e u) = abs_roster (DisableRosterUser d e t) \<and>
    RosterRecord (DisableRosterUser d e t) e = None"
proof -
  have "abs_roster (DisableRosterUser d e t) (sql_lower e) = Some (Off c ts)"
    using assms by (simp add: abs_DisableRosterUser)
  then have "RosterRecord (DisableRosterUser d e t) e = None"
    using rosterRecord_row [OF unique_DisableRosterUser [OF assms(1)], of e t e False]
    by (auto simp: RosterRecord_def abs_roster_def member_of_def split: option.splits if_splits)
  with roster_members.enable_after_disable [OF assms] roster_members.disable_idem [OF assms(1)]
  show ?thesis by simp
qed

lemma with_ann_unique: "unique_roster with_ann"
  by (simp add: unique_roster_def with_ann_def ann_row_def is_ascii_def)

lemma with_ann_live: "abs_roster with_ann (sql_lower ''ann@X'') = Some (Live ''id-1'' [''t''])"
  by code_simp

theorem disable_then_enable_witness:
  "abs_roster (enable_db (DisableRosterUser with_ann ''ann@X'' 2) ''ann@X'' 3) = abs_roster with_ann"
  using disable_then_enable [OF with_ann_unique with_ann_live] by simp

text \<open>
  C9. A delete is two-phase: marking keeps the member's row (disabled, for the convergence that
  detaches them), from then on neither an enable nor an add of that email succeeds, and the purge
  removes exactly that email's row; a purge of an email that was not marked removes nothing.
\<close>

theorem two_phase_delete:
  assumes u: "unique_roster d" and "abs_roster d (sql_lower e) = Some m"
  shows "abs_roster (MarkRosterDeleting d e t) =
      (abs_roster d)(sql_lower e := Some (Leaving (member_id m) (member_tags m))) \<and>
    abs_roster (enable_db (MarkRosterDeleting d e t) e v) = abs_roster (MarkRosterDeleting d e t) \<and>
    (same_email (nu_Email user) e \<longrightarrow>
      (\<exists>holder. AddRosterUser (MarkRosterDeleting d e t) user v = Inl (ErrEmailTaken holder))) \<and>
    abs_roster (PurgeRosterUser (MarkRosterDeleting d e t) e) = (abs_roster d)(sql_lower e := None) \<and>
    ((\<forall>c ts. m \<noteq> Leaving c ts) \<longrightarrow> abs_roster (PurgeRosterUser d e) = abs_roster d)"
proof -
  have "\<exists>holder. AddRosterUser (MarkRosterDeleting d e t) user v = Inl (ErrEmailTaken holder)"
    if "same_email (nu_Email user) e"
  proof -
    from assms have "abs_roster (MarkRosterDeleting d e t) (sql_lower e) =
        Some (Leaving (member_id m) (member_tags m))"
      by (simp add: abs_MarkRosterDeleting)
    then obtain r where "find (\<lambda>r. sql_lower (rr_email r) = sql_lower e)
        (db_roster (MarkRosterDeleting d e t)) = Some r" "rr_deleting r"
      by (auto simp: abs_roster_def member_of_def split: if_splits)
    moreover have "same_email q (nu_Email user) \<longleftrightarrow> sql_lower q = sql_lower e" for q
      using that by (simp add: same_email_def)
    ultimately show ?thesis by (simp add: AddRosterUser_def Let_def email_conflict_def)
  qed
  moreover have "abs_roster (PurgeRosterUser d e) = abs_roster d" if "\<forall>c ts. m \<noteq> Leaving c ts"
    using roster_members.purge_spares_members [OF assms that] .
  ultimately show ?thesis
    using roster_members.delete_erases [OF u] assms
    by (simp add: abs_MarkRosterDeleting abs_enable_db unique_MarkRosterDeleting)
qed

theorem two_phase_delete_witness:
  "abs_roster (PurgeRosterUser (MarkRosterDeleting with_ann ''ann@X'' 2) ''ann@X'') ''ann@x'' = None \<and>
   (\<exists>holder. AddRosterUser (MarkRosterDeleting with_ann ''ann@X'' 2) ann 3 = Inl (ErrEmailTaken holder))"
proof -
  have key: "sql_lower ''ann@X'' = ''ann@x''" by code_simp
  have same: "same_email (nu_Email ann) ''ann@X''" by code_simp
  note facts = two_phase_delete [OF with_ann_unique with_ann_live, where user = ann and t = 2 and v = 3]
  have "abs_roster (PurgeRosterUser (MarkRosterDeleting with_ann ''ann@X'' 2) ''ann@X'') ''ann@x'' = None"
    using facts by (simp add: key)
  with facts same show ?thesis by blast
qed

section \<open>Adding a member\<close>

fun joinable :: "member option \<Rightarrow> bool" where
  "joinable None = True"
| "joinable (Some (Off c ts)) = True"
| "joinable (Some m) = False"

lemma abs_roster_row:
  assumes "unique_roster d" and "r \<in> set (db_roster d)"
  shows "abs_roster d (sql_lower (rr_email r)) = Some (member_of r)"
proof -
  have "find (\<lambda>q. sql_lower (rr_email q) = sql_lower (rr_email r)) (db_roster d) = Some r"
    by (rule find_keyed [where k = "\<lambda>q. sql_lower (rr_email q)"])
       (use assms in \<open>auto simp: unique_roster_def\<close>)
  then show ?thesis by (simp add: abs_roster_def)
qed

lemma abs_rosterD:
  assumes "abs_roster d k = Some m"
  obtains r where "r \<in> set (db_roster d)" "sql_lower (rr_email r) = k" "m = member_of r"
  using assms by (auto simp: abs_roster_def dest: find_SomeD)

lemma member_id_of [simp]: "member_id (member_of r) = rr_client_id r"
  by (simp add: member_of_def)

text \<open>The Client ID check finds a holder exactly when another member has that ID.\<close>

lemma id_conflict_iff:
  assumes u: "unique_roster d" and ascii: "is_ascii email"
    and ok: "joinable (abs_roster d (sql_lower email))"
    and dis: "disabled \<longleftrightarrow> abs_roster d (sql_lower email) \<noteq> None"
  shows "id_conflict (find (\<lambda>r. sql_lower (rr_client_id r) = sql_lower cid) (db_roster d)) email disabled
      \<noteq> None \<longleftrightarrow>
    (\<exists>k m. k \<noteq> sql_lower email \<and> abs_roster d k = Some m \<and> sql_lower (member_id m) = sql_lower cid)"
    (is "?conflict \<longleftrightarrow> ?other")
proof
  assume ?conflict
  then obtain h where h: "h \<in> set (db_roster d)" "sql_lower (rr_client_id h) = sql_lower cid"
    "\<not> equal_fold (rr_email h) email \<or> \<not> disabled"
    by (auto simp: id_conflict_def dest: find_SomeD split: option.splits if_splits)
  have "is_ascii (rr_email h)" using u h(1) by (simp add: unique_roster_def)
  with h(3) dis abs_roster_row [OF u h(1)] have "sql_lower (rr_email h) \<noteq> sql_lower email"
    by (auto simp: equal_fold_ascii [OF _ ascii] same_email_def)
  with h(2) abs_roster_row [OF u h(1)] show ?other by (metis member_id_of)
next
  assume ?other
  then obtain q where q: "q \<in> set (db_roster d)" "sql_lower (rr_email q) \<noteq> sql_lower email"
    "sql_lower (rr_client_id q) = sql_lower cid" by (auto elim!: abs_rosterD)
  have "find (\<lambda>r. sql_lower (rr_client_id r) = sql_lower cid) (db_roster d) = Some q"
    by (rule find_keyed [where k = "\<lambda>r. sql_lower (rr_client_id r)"])
       (use u q in \<open>auto simp: unique_roster_def\<close>)
  moreover have "\<not> equal_fold (rr_email q) email"
    using u q(1,2) ascii by (simp add: unique_roster_def equal_fold_ascii same_email_def)
  ultimately show ?conflict by (simp add: id_conflict_def)
qed

lemma email_conflict_iff:
  "email_conflict (find (\<lambda>r. same_email (rr_email r) email) (db_roster d)) \<noteq> None \<longleftrightarrow>
     \<not> joinable (abs_roster d (sql_lower email))"
  by (auto simp: find_email_key abs_roster_def email_conflict_def member_of_def split: option.splits)

lemma id_conflict_kind:
  "id_conflict h e dis = Some x \<Longrightarrow> \<exists>holder. x = ErrClientIDTaken holder"
  by (auto simp: id_conflict_def split: option.splits if_splits)

lemma email_conflict_kind:
  "email_conflict r = Some x \<Longrightarrow> \<exists>holder. x = ErrEmailTaken holder"
  by (auto simp: email_conflict_def split: option.splits if_splits)

lemma abs_AddRosterUser:
  assumes u: "unique_roster d" and add: "AddRosterUser d user stamp = Inr (record, d')"
  shows "abs_roster d' =
    (abs_roster d)(sql_lower (nu_Email user) \<mapsto> Live (nu_ClientID user) (nu_Inbounds user))"
proof (cases "find (\<lambda>r. same_email (rr_email r) (nu_Email user)) (db_roster d)")
  case None
  from AddRosterUser_fresh [OF None add] None show ?thesis
    by (auto simp: abs_roster_def fun_eq_iff member_of_def find_append find_email_key split: option.splits)
next
  case (Some r)
  then have r: "r \<in> set (db_roster d)" "same_email (rr_email r) (nu_Email user)"
    by (auto dest: find_SomeD)
  from Some add have dis: "rr_disabled r" "\<not> rr_deleting r"
    and d': "db_roster d' = update_where (\<lambda>q. same_email (rr_email q) (nu_Email user))
        (\<lambda>q. q\<lparr>rr_client_id := nu_ClientID user, rr_inbounds := nu_Inbounds user,
               rr_disabled := False, rr_updated_at := stamp\<rparr>) (db_roster d)"
    by (auto simp: AddRosterUser_def Let_def email_conflict_def split: option.splits if_splits)
  have one: "\<not> rr_deleting q"
    if "q \<in> set (db_roster d)" "sql_lower (rr_email q) = sql_lower (nu_Email user)" for q
    using unique_rosterD [OF u that(1) r(1)] that r dis by (simp add: same_email_def)
  have "abs_roster d' = (abs_roster d)(sql_lower (nu_Email user) :=
      map_option (\<lambda>m. Live (nu_ClientID user) (nu_Inbounds user)) (abs_roster d (sql_lower (nu_Email user))))"
    by (rule abs_update_where [OF d']) (auto simp: same_email_def member_of_def one)
  moreover have "abs_roster d (sql_lower (nu_Email user)) \<noteq> None"
    using Some by (simp add: abs_roster_def same_email_def)
  ultimately show ?thesis by auto
qed

lemma AddRosterUser_cases:
  assumes u: "unique_roster d" and ascii: "is_ascii (nu_Email user)"
  shows "case AddRosterUser d user t of
      Inl (ErrEmailTaken h) \<Rightarrow> \<not> joinable (abs_roster d (sql_lower (nu_Email user)))
    | Inl (ErrClientIDTaken h) \<Rightarrow> joinable (abs_roster d (sql_lower (nu_Email user))) \<and>
        (\<exists>k m. k \<noteq> sql_lower (nu_Email user) \<and> abs_roster d k = Some m \<and>
          sql_lower (member_id m) = sql_lower (nu_ClientID user))
    | Inl ErrRosterNotFound \<Rightarrow> False
    | Inr (record, d') \<Rightarrow> joinable (abs_roster d (sql_lower (nu_Email user))) \<and>
        (\<forall>k m. k \<noteq> sql_lower (nu_Email user) \<longrightarrow> abs_roster d k = Some m \<longrightarrow>
          sql_lower (member_id m) \<noteq> sql_lower (nu_ClientID user)) \<and>
        abs_roster d' =
          (abs_roster d)(sql_lower (nu_Email user) \<mapsto> Live (nu_ClientID user) (nu_Inbounds user))"
proof (cases "joinable (abs_roster d (sql_lower (nu_Email user)))")
  case False
  with email_conflict_iff [of "nu_Email user" d] obtain h where
    "email_conflict (find (\<lambda>r. same_email (rr_email r) (nu_Email user)) (db_roster d)) = Some (ErrEmailTaken h)"
    by (auto dest: email_conflict_kind)
  with False show ?thesis by (simp add: AddRosterUser_def Let_def)
next
  case True
  let ?existing = "find (\<lambda>r. same_email (rr_email r) (nu_Email user)) (db_roster d)"
  let ?dis = "case ?existing of None \<Rightarrow> False | Some r \<Rightarrow> rr_disabled r"
  let ?check = "id_conflict (find (\<lambda>r. sql_lower (rr_client_id r) = sql_lower (nu_ClientID user))
    (db_roster d)) (nu_Email user) ?dis"
  have none: "email_conflict ?existing = None" using True email_conflict_iff [of "nu_Email user" d] by simp
  have "?dis \<longleftrightarrow> abs_roster d (sql_lower (nu_Email user)) \<noteq> None"
    using none by (auto simp: abs_roster_def find_email_key email_conflict_def split: option.splits if_splits)
  note iff = id_conflict_iff [OF u ascii True this, of "nu_ClientID user"]
  show ?thesis
  proof (cases ?check)
    case None
    then obtain rec d' where "AddRosterUser d user t = Inr (rec, d')"
      using none by (simp add: AddRosterUser_def Let_def)
    with abs_AddRosterUser [OF u this] True iff None show ?thesis by auto
  next
    case (Some x)
    then obtain h where "x = ErrClientIDTaken h" by (blast dest: id_conflict_kind)
    with Some none iff True show ?thesis by (auto simp: AddRosterUser_def Let_def)
  qed
qed

text \<open>
  What an add decides, on every branch. It refuses the email exactly when a live member or a
  delete in progress holds it, up to case; otherwise it refuses the Client ID exactly when another
  member holds it, up to case; otherwise it succeeds and the Roster changes at that email only,
  which becomes a live member with the requested Client ID and attachments. A disabled member's
  email can be taken again, by that member.
\<close>

lemma add_decides:
  assumes "unique_roster d" and "is_ascii (nu_Email user)"
  shows "((\<exists>h. AddRosterUser d user t = Inl (ErrEmailTaken h)) \<longleftrightarrow>
      \<not> joinable (abs_roster d (sql_lower (nu_Email user)))) \<and>
    ((\<exists>h. AddRosterUser d user t = Inl (ErrClientIDTaken h)) \<longleftrightarrow>
      joinable (abs_roster d (sql_lower (nu_Email user))) \<and>
      (\<exists>k m. k \<noteq> sql_lower (nu_Email user) \<and> abs_roster d k = Some m \<and>
        sql_lower (member_id m) = sql_lower (nu_ClientID user))) \<and>
    (\<forall>record d'. AddRosterUser d user t = Inr (record, d') \<longrightarrow>
      abs_roster d' = (abs_roster d)(sql_lower (nu_Email user) \<mapsto> Live (nu_ClientID user) (nu_Inbounds user)))"
  using AddRosterUser_cases [OF assms, of t]
  by (auto split: sum.splits store_error.splits)

lemma add_decides_witness:
  "AddRosterUser with_ann (ann\<lparr>nu_Email := ''bob@x''\<rparr>) 2 = Inl (ErrClientIDTaken ''Ann@x'') \<and>
   (\<exists>k m. k \<noteq> sql_lower ''bob@x'' \<and> abs_roster with_ann k = Some m \<and>
      sql_lower (member_id m) = sql_lower ''id-1'')"
proof -
  have ascii: "is_ascii (nu_Email (ann\<lparr>nu_Email := ''bob@x''\<rparr>))" by (simp add: is_ascii_def)
  have run: "AddRosterUser with_ann (ann\<lparr>nu_Email := ''bob@x''\<rparr>) 2 = Inl (ErrClientIDTaken ''Ann@x'')"
    by code_simp
  have "\<exists>h. AddRosterUser with_ann (ann\<lparr>nu_Email := ''bob@x''\<rparr>) 2 = Inl (ErrClientIDTaken h)"
    using run by blast
  then have "\<exists>k m. k \<noteq> sql_lower ''bob@x'' \<and> abs_roster with_ann k = Some m \<and>
      sql_lower (member_id m) = sql_lower ''id-1''"
    using add_decides [OF with_ann_unique ascii, of 2] by (simp add: ann_def)
  with run show ?thesis by blast
qed

section \<open>What one poll transaction writes\<close>

definition user_at :: "db \<Rightarrow> string \<Rightarrow> user_row option" where
  "user_at d e = find (\<lambda>u. ur_email u = e) (db_users d)"

definition up_of :: "db \<Rightarrow> string \<Rightarrow> nat" where
  "up_of d e = (case user_at d e of None \<Rightarrow> 0 | Some u \<Rightarrow> ur_up u)"

definition down_of :: "db \<Rightarrow> string \<Rightarrow> nat" where
  "down_of d e = (case user_at d e of None \<Rightarrow> 0 | Some u \<Rightarrow> ur_down u)"

definition moved :: "(delta \<Rightarrow> u64) \<Rightarrow> delta list \<Rightarrow> string \<Rightarrow> nat" where
  "moved side dls e = sum_list (map (\<lambda>dl. unat (side dl)) (filter (\<lambda>dl. dl_Email dl = e) dls))"

lemma blank_user_email [simp]: "ur_email (blank_user e t) = e"
  by (simp add: blank_user_def)

lemma find_upsert_user:
  assumes "\<And>u. ur_email (f u) = ur_email u"
  shows "find (\<lambda>u. ur_email u = e) (upsert_user new f rows) =
    (if e = ur_email new
     then Some (case find (\<lambda>u. ur_email u = e) rows of None \<Rightarrow> new | Some u \<Rightarrow> f u)
     else find (\<lambda>u. ur_email u = e) rows)"
proof (cases "ur_email new \<in> ur_email ` set rows")
  case True
  then obtain u where u: "find (\<lambda>u. ur_email u = ur_email new) rows = Some u"
    by (cases "find (\<lambda>u. ur_email u = ur_email new) rows") (auto simp: find_None_iff)
  have upd: "find (\<lambda>u. ur_email u = e) (upsert_user new f rows) =
      map_option (\<lambda>u. if ur_email u = ur_email new then f u else u) (find (\<lambda>u. ur_email u = e) rows)"
    unfolding upsert_user_def using True by (simp add: find_update_where assms)
  show ?thesis
  proof (cases "e = ur_email new")
    case True
    with u upd find_SomeD [OF u] show ?thesis by simp
  next
    case False
    with upd show ?thesis
      by (cases "find (\<lambda>u. ur_email u = e) rows") (auto dest: find_SomeD)
  qed
next
  case False
  then have "find (\<lambda>u. ur_email u = ur_email new) rows = None" by (auto simp: find_None_iff image_iff)
  with False show ?thesis
    by (auto simp: upsert_user_def find_append split: option.splits)
qed

text \<open>One entry of the poll, as the row of an email sees it.\<close>

lemma find_apply_delta:
  "find (\<lambda>u. ur_email u = e) (apply_delta t dl rows) =
    (if e = dl_Email dl
     then Some (case find (\<lambda>u. ur_email u = e) rows of
        None \<Rightarrow> (blank_user e t)\<lparr>ur_up := unat (dl_Up dl), ur_down := unat (dl_Down dl),
                   ur_last_seen := (if dl_SeenNow dl then Some t else None)\<rparr>
      | Some u \<Rightarrow> u\<lparr>ur_up := ur_up u + unat (dl_Up dl), ur_down := ur_down u + unat (dl_Down dl),
                   ur_last_seen := lastSeenGrow (ur_last_seen u) (if dl_SeenNow dl then Some t else None)\<rparr>)
     else find (\<lambda>u. ur_email u = e) rows)"
  by (auto simp: apply_delta_def Let_def find_upsert_user split: option.split)

lemma find_apply_presence:
  "find (\<lambda>u. ur_email u = e) (apply_presence t p rows) =
    (let seen = (if 0 < ps_LastSeen p then Some (ps_LastSeen p) else None);
         ips = (if ps_IPs p = [] then None else Some (ps_IPs p))
     in if e = ps_Email p
     then Some (case find (\<lambda>u. ur_email u = e) rows of
        None \<Rightarrow> (blank_user e t)\<lparr>ur_last_seen := seen, ur_last_ips := ips\<rparr>
      | Some u \<Rightarrow> u\<lparr>ur_last_seen := lastSeenGrow (ur_last_seen u) seen,
                   ur_last_ips := (case ips of None \<Rightarrow> ur_last_ips u | Some i \<Rightarrow> Some i)\<rparr>)
     else find (\<lambda>u. ur_email u = e) rows)"
  by (auto simp: apply_presence_def Let_def find_upsert_user split: option.split)

lemma find_sync_one:
  "find (\<lambda>u. ur_email u = e) (sync_one roster t (k, ls) rows) =
    (if e = k
     then Some (case find (\<lambda>u. ur_email u = e) rows of
        None \<Rightarrow> (blank_user e t)\<lparr>ur_labels := Some ls\<rparr>
      | Some u \<Rightarrow> u\<lparr>ur_labels := Some ls,
                   ur_disabled := (if roster_has roster (ur_email u) True then ur_disabled u else False)\<rparr>)
     else find (\<lambda>u. ur_email u = e) rows)"
  by (auto simp: sync_one_def Let_def find_upsert_user split: option.split)

lemmas find_poll = find_apply_delta find_apply_presence find_sync_one

text \<open>The traffic columns of the row of an email, as a function of the user rows.\<close>

definition bytes :: "user_row list \<Rightarrow> string \<Rightarrow> nat \<times> nat" where
  "bytes rows e = (case find (\<lambda>u. ur_email u = e) rows of None \<Rightarrow> (0, 0) | Some u \<Rightarrow> (ur_up u, ur_down u))"

lemma bytes_deltas:
  "bytes (fold (apply_delta t) dls rows) e =
     (fst (bytes rows e) + moved dl_Up dls e, snd (bytes rows e) + moved dl_Down dls e)"
  by (induction dls arbitrary: rows)
     (auto simp: moved_def bytes_def find_apply_delta blank_user_def split: option.splits)

lemma bytes_presence: "bytes (fold (apply_presence t) ps rows) e = bytes rows e"
  by (induction ps arbitrary: rows)
     (auto simp: bytes_def find_apply_presence Let_def blank_user_def split: option.splits)

lemma bytes_sync_one: "bytes (fold (sync_one roster t) labels rows) e = bytes rows e"
  by (induction labels arbitrary: rows)
     (auto simp: bytes_def find_sync_one blank_user_def split: option.splits if_splits)

lemma bytes_mark: "bytes (update_where P (\<lambda>u. u\<lparr>ur_disabled := b\<rparr>) rows) e = bytes rows e"
  by (auto simp: bytes_def find_update_where split: option.splits)

lemma bytes_up_down: "(up_of d e, down_of d e) = bytes (db_users d) e"
  by (auto simp: up_of_def down_of_def user_at_def bytes_def split: option.splits)

lemma bytes_ApplyPoll: "bytes (db_users (ApplyPoll d dls ps roster t)) e =
    (fst (bytes (db_users d) e) + moved dl_Up dls e, snd (bytes (db_users d) e) + moved dl_Down dls e)"
  by (cases roster)
     (simp_all add: ApplyPoll_def adoptClients_def syncLabels_def Let_def bytes_deltas bytes_presence
       bytes_sync_one bytes_mark)

text \<open>
  A committed poll adds to every user's stored totals exactly the reconciled deltas reported
  for that email and nothing else, whatever presence and config parse it carries; several deltas
  for one email accumulate, and an email without a delta keeps its totals.
\<close>

lemma poll_adds_exact_deltas:
  "up_of (ApplyPoll d dls ps roster t) e = up_of d e + moved dl_Up dls e \<and>
   down_of (ApplyPoll d dls ps roster t) e = down_of d e + moved dl_Down dls e"
  using bytes_ApplyPoll [of d dls ps roster t e] bytes_up_down [of "ApplyPoll d dls ps roster t" e]
    bytes_up_down [of d e]
  by (metis fst_conv snd_conv)

subsection \<open>History is never lost\<close>

text \<open>How a row may change in a poll: the totals grow, last seen never regresses, the first
  sighting stays.\<close>

definition row_grows :: "user_row option \<Rightarrow> user_row option \<Rightarrow> bool" where
  "row_grows before after =
     (case before of
        None \<Rightarrow> True
      | Some u \<Rightarrow>
          (case after of
             None \<Rightarrow> False
           | Some v \<Rightarrow> ur_email v = ur_email u \<and> ur_first_seen v = ur_first_seen u \<and>
               ur_up u \<le> ur_up v \<and> ur_down u \<le> ur_down v \<and>
               (case ur_last_seen u of
                  None \<Rightarrow> True
                | Some s \<Rightarrow> (case ur_last_seen v of None \<Rightarrow> False | Some w \<Rightarrow> s \<le> w)) \<and>
               (ur_last_ips u \<noteq> None \<longrightarrow> ur_last_ips v \<noteq> None)))"

lemma row_grows_refl [simp]: "row_grows u u"
  by (auto simp: row_grows_def split: option.splits)

lemma row_grows_trans: "row_grows u v \<Longrightarrow> row_grows v w \<Longrightarrow> row_grows u w"
  by (auto simp: row_grows_def split: option.splits)

abbreviation row_in :: "user_row list \<Rightarrow> string \<Rightarrow> user_row option" where
  "row_in rows e \<equiv> find (\<lambda>u. ur_email u = e) rows"

lemma grows_fold:
  assumes "\<And>x rows. row_grows (row_in rows e) (row_in (f x rows) e)"
  shows "row_grows (row_in rows e) (row_in (fold f xs rows) e)"
proof (induction xs arbitrary: rows)
  case (Cons x xs)
  from row_grows_trans [OF assms [of rows x] Cons [of "f x rows"]] show ?case by simp
qed simp

lemma grows_delta: "row_grows (row_in rows e) (row_in (apply_delta t dl rows) e)"
  by (auto simp: find_apply_delta row_grows_def lastSeenGrow_def split: option.splits)

lemma grows_presence: "row_grows (row_in rows e) (row_in (apply_presence t p rows) e)"
  by (auto simp: find_apply_presence Let_def row_grows_def lastSeenGrow_def split: option.splits)

lemma grows_sync: "row_grows (row_in rows e) (row_in (sync_one roster t entry rows) e)"
  by (cases entry) (auto simp: find_sync_one row_grows_def split: option.splits)

lemma grows_mark: "row_grows (row_in rows e) (row_in (update_where P (\<lambda>u. u\<lparr>ur_disabled := b\<rparr>) rows) e)"
  by (auto simp: find_update_where row_grows_def split: option.splits)

lemma poll_row_grows: "row_grows (user_at d e) (user_at (ApplyPoll d dls ps roster t) e)"
proof -
  have polled: "row_grows (user_at d e)
      (row_in (fold (apply_presence t) ps (fold (apply_delta t) dls (db_users d))) e)"
    unfolding user_at_def
    by (rule row_grows_trans; rule grows_fold) (rule grows_delta grows_presence)+
  show ?thesis
  proof (cases roster)
    case None
    with polled show ?thesis by (simp add: ApplyPoll_def user_at_def)
  next
    case (Some rp)
    have "row_grows (row_in rows e) (row_in (db_users (adoptClients (syncLabels (d\<lparr>db_users := rows\<rparr>) ls t) cs t)) e)"
      for rows ls cs
      by (simp add: adoptClients_def syncLabels_def Let_def)
         (rule row_grows_trans [OF grows_mark grows_fold], rule grows_sync)
    with row_grows_trans [OF polled] Some show ?thesis by (simp add: ApplyPoll_def user_at_def)
  qed
qed

text \<open>
  C22. A poll never loses history: every user row is still there after it, with the same email and
  first sighting, totals that have not shrunk, a last-seen time that has not moved back or been
  erased, and last-known addresses that have not been erased, whether the config still lists the
  user or not.
\<close>

theorem poll_keeps_history:
  "row_grows (user_at d e) (user_at (ApplyPoll d dls ps roster t) e)"
  by (rule poll_row_grows)

subsection \<open>Who a config parse may disable or revive\<close>

lemma find_sync_labels:
  assumes "distinct (map fst labels)"
  shows "row_in (fold (sync_one roster t) labels rows) e =
    (case map_of labels e of None \<Rightarrow> row_in rows e | Some ls \<Rightarrow> row_in (sync_one roster t (e, ls) rows) e)"
  using assms
proof (induction labels arbitrary: rows)
  case (Cons entry labels)
  obtain k ls where entry: "entry = (k, ls)" by (cases entry)
  show ?case
  proof (cases "k = e")
    case True
    with Cons.prems entry have "map_of labels e = None" by (auto simp: map_of_eq_None_iff)
    with Cons entry True show ?thesis by simp
  next
    case False
    with Cons entry show ?thesis by (auto simp: find_sync_one split: option.splits)
  qed
qed simp

text \<open>
  Disabling is the Roster's call: after a config parse is synced, a user with a row is disabled
  exactly when they were disabled before or have no live Roster row, except that a user the config
  lists and the Roster has not disabled is live. So a parse never disables a live Roster member
  and never revives one the panel disabled. A user the config lists for the first time gets a live
  row with zero totals.
\<close>

lemma parse_respects_roster_flags:
  assumes "distinct (map fst labels)"
  shows "map_option ur_disabled (user_at (syncLabels d labels t) e) =
    (case user_at d e of
       None \<Rightarrow> if has_key labels e then Some False else None
     | Some u \<Rightarrow> Some ((ur_disabled u \<or> \<not> roster_has (db_roster d) e False) \<and>
         \<not> (has_key labels e \<and> \<not> roster_has (db_roster d) e True)))"
proof -
  let ?P = "\<lambda>u. \<not> ur_disabled u \<and> \<not> roster_has (db_roster d) (ur_email u) False"
  define marked where "marked = update_where ?P (\<lambda>u. u\<lparr>ur_disabled := True\<rparr>) (db_users d)"
  have after: "user_at (syncLabels d labels t) e =
      (case map_of labels e of None \<Rightarrow> row_in marked e
       | Some ls \<Rightarrow> row_in (sync_one (db_roster d) t (e, ls) marked) e)"
    unfolding marked_def by (simp add: syncLabels_def Let_def user_at_def find_sync_labels [OF assms])
  have marked: "row_in marked e = map_option (\<lambda>u. if ?P u then u\<lparr>ur_disabled := True\<rparr> else u) (user_at d e)"
    unfolding marked_def user_at_def by (rule find_update_where) simp
  show ?thesis
  proof (cases "user_at d e")
    case None
    with marked show ?thesis
      by (cases "map_of labels e") (simp_all add: after find_sync_one blank_user_def)
  next
    case (Some u)
    then have "ur_email u = e" by (auto simp: user_at_def dest: find_SomeD)
    with Some marked show ?thesis
      by (cases "map_of labels e") (simp_all add: after find_sync_one)
  qed
qed

definition ann_off :: db where
  "ann_off = DisableRosterUser with_ann ''ann@X'' 2"

lemma ann_off_flag: "map_option ur_disabled (user_at ann_off ''Ann@x'') = Some True"
  by code_simp

lemma ann_off_roster: "roster_has (db_roster ann_off) ''Ann@x'' True"
  by code_simp

lemma parse_respects_roster_flags_witness:
  "map_option ur_disabled (user_at (syncLabels ann_off [(''Ann@x'', [])] 3) ''Ann@x'') = Some True"
proof -
  have keys: "distinct (map fst [(''Ann@x'', [] :: label list)])" by simp
  obtain u where u: "user_at ann_off ''Ann@x'' = Some u" "ur_disabled u"
    using ann_off_flag by auto
  show ?thesis
    unfolding parse_respects_roster_flags [OF keys] u(1) by (simp add: u(2) ann_off_roster)
qed

subsection \<open>Adoption of the clients the config lists\<close>

abbreviation roster_in :: "roster_row list \<Rightarrow> string \<Rightarrow> roster_row option" where
  "roster_in rows e \<equiv> find (\<lambda>r. rr_email r = e) rows"

definition adopted :: "int \<Rightarrow> string \<Rightarrow> client \<Rightarrow> roster_row option \<Rightarrow> roster_row" where
  "adopted t e c row =
     (case row of
        None \<Rightarrow> \<lparr>rr_email = e, rr_client_id = cl_ClientID c, rr_inbounds = cl_Inbounds c,
                 rr_disabled = False, rr_deleting = False, rr_created_at = t, rr_updated_at = t\<rparr>
      | Some r \<Rightarrow>
          if rr_disabled r \<or> set (cl_Inbounds c) \<subseteq> set (rr_inbounds r) then r
          else r\<lparr>rr_inbounds := append_missing (rr_inbounds r) (cl_Inbounds c), rr_updated_at := t\<rparr>)"

lemma find_adopt_one:
  assumes "roster_in rows k = roster_in stored k"
  shows "roster_in (adopt_one stored t (k, c) rows) e =
    (if k = e then Some (adopted t e c (roster_in stored e)) else roster_in rows e)"
proof (cases "roster_in stored k")
  case None
  with assms show ?thesis
    by (auto simp: adopt_one_def adopted_def find_append split: option.splits)
next
  case (Some row)
  then have "rr_email row = k" by (auto dest: find_SomeD)
  have upd: "roster_in (update_where (\<lambda>r. rr_email r = k) (\<lambda>r. r\<lparr>rr_inbounds := m, rr_updated_at := t\<rparr>) rows) e
      = map_option (\<lambda>r. if rr_email r = k then r\<lparr>rr_inbounds := m, rr_updated_at := t\<rparr> else r) (roster_in rows e)"
    for m by (rule find_update_where) simp
  show ?thesis
  proof (cases "k = e")
    case True
    with Some assms upd \<open>rr_email row = k\<close> show ?thesis
      by (simp add: adopt_one_def adopted_def Let_def append_missing_same_length)
  next
    case False
    then have "map_option (\<lambda>r. if rr_email r = k then f r else r) (roster_in rows e) = roster_in rows e" for f
      by (cases "roster_in rows e") (auto dest: find_SomeD)
    with False Some upd show ?thesis by (simp add: adopt_one_def Let_def)
  qed
qed

lemma find_adopt_fold:
  assumes "distinct (map fst cs)" and "\<And>k. k \<in> fst ` set cs \<Longrightarrow> roster_in rows k = roster_in stored k"
  shows "roster_in (fold (adopt_one stored t) cs rows) e =
    (case map_of cs e of None \<Rightarrow> roster_in rows e | Some c \<Rightarrow> Some (adopted t e c (roster_in stored e)))"
  using assms
proof (induction cs arbitrary: rows)
  case (Cons entry cs)
  obtain k c where entry: "entry = (k, c)" by (cases entry)
  have keep: "roster_in (adopt_one stored t (k, c) rows) q =
      (if k = q then Some (adopted t q c (roster_in stored q)) else roster_in rows q)" for q
    using Cons.prems(2) entry by (intro find_adopt_one) auto
  have "k \<notin> fst ` set cs" using Cons.prems(1) entry by auto
  with Cons.prems(2) keep have "roster_in (adopt_one stored t (k, c) rows) q = roster_in stored q"
    if "q \<in> fst ` set cs" for q using that by auto
  from Cons.IH [OF _ this] Cons.prems(1)
  have tail: "roster_in (fold (adopt_one stored t) cs (adopt_one stored t (k, c) rows)) e =
      (case map_of cs e of None \<Rightarrow> roster_in (adopt_one stored t (k, c) rows) e
       | Some c \<Rightarrow> Some (adopted t e c (roster_in stored e)))" by auto
  show ?case
  proof (cases "k = e")
    case True
    with \<open>k \<notin> fst ` set cs\<close> have "map_of cs e = None" by (auto simp: map_of_eq_None_iff)
    with tail keep True entry show ?thesis by simp
  qed (use tail keep entry in \<open>simp split: option.splits\<close>)
qed simp

lemma find_adoptClients:
  assumes "distinct (map fst clients)"
  shows "roster_in (db_roster (adoptClients d clients t)) e =
    (case map_of clients e of None \<Rightarrow> roster_in (db_roster d) e
     | Some c \<Rightarrow> Some (adopted t e c (roster_in (db_roster d) e)))"
  using find_adopt_fold [where cs = "sort_key fst clients" and rows = "db_roster d" and stored = "db_roster d"]
  by (simp add: adoptClients_def map_of_sort_key [OF assms])

lemma adopted_twice: "adopted u e c (Some (adopted t e c row)) = adopted t e c row"
  by (auto simp: adopted_def append_missing_subset split: option.splits)

lemma adopt_one_unchanged:
  assumes "roster_in rows k = Some r" and "adopted u k c (Some r) = r"
    and "rr_disabled r \<or> set (cl_Inbounds c) \<subseteq> set (rr_inbounds r)"
  shows "adopt_one rows u (k, c) rows = rows"
  using assms by (auto simp: adopt_one_def Let_def append_missing_same_length)

text \<open>
  Adoption is additive and idempotent: an email the Roster does not know joins it with the
  config's Client ID and attachments; a live member keeps their Client ID and only gains the
  attachments they did not have; a disabled member's row and every row the config does not list
  are untouched; and adopting the same parse again, at any later time, changes nothing.
\<close>

lemma adoption_additive_idempotent:
  assumes "distinct (map fst clients)"
  shows "roster_in (db_roster (adoptClients d clients t)) e =
      (case map_of clients e of None \<Rightarrow> roster_in (db_roster d) e
       | Some c \<Rightarrow> Some (adopted t e c (roster_in (db_roster d) e))) \<and>
    adoptClients (adoptClients d clients t) clients u = adoptClients d clients t"
proof (rule conjI)
  let ?rows = "db_roster (adoptClients d clients t)"
  have "adopt_one ?rows u entry ?rows = ?rows" if "entry \<in> set (sort_key fst clients)" for entry
  proof -
    obtain k c where entry: "entry = (k, c)" by (cases entry)
    with that assms have "map_of clients k = Some c" by simp
    with find_adoptClients [OF assms, where d = d and t = t and e = k]
    have row: "roster_in ?rows k = Some (adopted t k c (roster_in (db_roster d) k))" by simp
    then show ?thesis unfolding entry
      by (rule adopt_one_unchanged) (auto simp: adopted_def append_missing_subset split: option.splits)
  qed
  then have "fold (adopt_one ?rows u) (sort_key fst clients) ?rows = ?rows" by (rule fold_fixed)
  then show "adoptClients (adoptClients d clients t) clients u = adoptClients d clients t"
    by (simp add: adoptClients_def)
qed (rule find_adoptClients [OF assms])

definition ann_drifted :: "client gomap" where
  "ann_drifted = [(''Ann@x'', \<lparr>cl_ClientID = ''drift'', cl_Inbounds = [''t'', ''u'']\<rparr>)]"

lemma adoption_additive_idempotent_witness:
  "adoptClients (adoptClients with_ann ann_drifted 2) ann_drifted 9 = adoptClients with_ann ann_drifted 2 \<and>
   db_roster (adoptClients with_ann ann_drifted 2) =
     [(ann_row 1)\<lparr>rr_inbounds := [''t'', ''u''], rr_updated_at := 2\<rparr>]"
proof (rule conjI)
  have "distinct (map fst ann_drifted)" by (simp add: ann_drifted_def)
  from adoption_additive_idempotent [OF this]
  show "adoptClients (adoptClients with_ann ann_drifted 2) ann_drifted 9 = adoptClients with_ann ann_drifted 2"
    by (rule conjunct2)
qed (simp add: ann_drifted_def adoptClients_def adopt_one_def with_ann_def ann_row_def update_where_def Let_def)

end
