(* ===== verification/Collector.thy ===== *)
theory Collector
  imports Reconcile Store "HOL-Library.Multiset"
begin

text \<open>
  The users collector, \<^verbatim>\<open>internal/users/collector.go\<close>: one poll samples the config roster, reads
  the raw counters and the online set, reconciles the counters per user, merges the deltas into
  the pending ones and writes everything in one store transaction. The inputs of one poll (what
  the roster source, xray and the store's error returns give) are a record \<open>poll_env\<close>; a failed
  store call is an error text there and leaves the tables as they were. \<open>pe_range\<close> is the order in
  which Go ranges over the pending map. Times are integers of nanoseconds. The log is the list of
  the lines written, one constructor per message.

  \<open>Collector_Collect\<close> is split where the code releases its mutex to call the store (\<open>Collect_sample\<close> up to
  the list of deltas, \<open>Collect_commit\<close> from the transaction on), since \<^verbatim>\<open>Purge\<close>, called by another
  goroutine, can run in between.
\<close>

section \<open>State\<close>

record pending_delta =
  pd_up :: u64
  pd_down :: u64
  pd_seenNow :: bool

datatype slot = PollErr | StoreErr | PresenceErr | RosterErr

datatype log_line = Failed slot string | Recovered slot | PresenceUnsupported

record collector =
  co_up :: "tracker gomap"
  co_down :: "tracker gomap"
  co_seeded :: "bool gomap"
  co_pending :: "pending_delta gomap"
  co_pendingRoster :: "roster_parse option"
  co_pendingRosterVersion :: u64
  co_rosterVersion :: u64
  co_lastPoll :: int
  co_collectedAt :: int
  co_stale :: bool
  co_errs :: "slot \<Rightarrow> string"
  co_notedUnsupported :: bool
  co_log :: "log_line list"

record raw_traffic =
  rt_Email :: string
  rt_UpBytes :: u64
  rt_DownBytes :: u64

record poll_env =
  pe_roster :: "(roster_parse \<times> u64) option"
  pe_traffic :: "string + raw_traffic list"
  pe_presence :: "string + presence list \<times> bool"
  pe_now :: int
  pe_existing_err :: "string option"
  pe_apply_err :: "string option"
  pe_users_err :: "string option"
  pe_range :: "pending_delta gomap \<Rightarrow> pending_delta gomap"
  pe_rate :: "u64 \<Rightarrow> int \<Rightarrow> u64"
  pe_geo :: "(string \<Rightarrow> string) option"

record users_snapshot =
  sn_CollectedAt :: int
  sn_Stale :: bool
  sn_Users :: "user list"

definition unix :: "int \<Rightarrow> int" where
  "unix ns = ns div 1000000000"

definition NewCollector :: collector where
  "NewCollector = \<lparr>co_up = [], co_down = [], co_seeded = [], co_pending = [], co_pendingRoster = None,
     co_pendingRosterVersion = 0, co_rosterVersion = 0, co_lastPoll = 0, co_collectedAt = 0,
     co_stale = False, co_errs = (\<lambda>_. ''''), co_notedUnsupported = False, co_log = []\<rparr>"

section \<open>Logging once\<close>

definition logFailure :: "slot \<Rightarrow> string \<Rightarrow> collector \<Rightarrow> collector" where
  "logFailure s err c =
     (if co_errs c s = err then c
      else c\<lparr>co_errs := (co_errs c)(s := err), co_log := co_log c @ [Failed s err]\<rparr>)"

definition logRecovery :: "slot \<Rightarrow> collector \<Rightarrow> collector" where
  "logRecovery s c =
     (if co_errs c s = '''' then c
      else c\<lparr>co_errs := (co_errs c)(s := ''''), co_log := co_log c @ [Recovered s]\<rparr>)"

section \<open>Sampling\<close>

definition sampleRoster :: "(roster_parse \<times> u64) option \<Rightarrow> collector \<Rightarrow> collector" where
  "sampleRoster src c =
     (case src of
        None \<Rightarrow> c
      | Some (latest, version) \<Rightarrow>
          if 0 < version \<and> version \<noteq> co_rosterVersion c \<and> version \<noteq> co_pendingRosterVersion c
          then c\<lparr>co_pendingRoster := Some latest, co_pendingRosterVersion := version\<rparr>
          else c)"

definition settle_roster :: "collector \<Rightarrow> collector" where
  "settle_roster c = c\<lparr>co_rosterVersion := co_pendingRosterVersion c, co_pendingRoster := None\<rparr>"

definition flushRoster :: "poll_env \<Rightarrow> collector \<Rightarrow> db \<Rightarrow> collector \<times> db" where
  "flushRoster env c d =
     (case co_pendingRoster c of
        None \<Rightarrow> (c, d)
      | Some rp \<Rightarrow>
          (case pe_apply_err env of
             Some err \<Rightarrow> (logFailure RosterErr err c, d)
           | None \<Rightarrow> (settle_roster (logRecovery RosterErr c),
                      ApplyPoll d [] [] (Some rp) (unix (pe_now env)))))"

definition Collector_Purge :: "string \<Rightarrow> collector \<Rightarrow> collector" where
  "Collector_Purge email c =
     c\<lparr>co_up := AList.delete email (co_up c), co_down := AList.delete email (co_down c),
       co_seeded := AList.delete email (co_seeded c), co_pending := AList.delete email (co_pending c)\<rparr>"

definition trackersFor :: "string \<Rightarrow> collector \<Rightarrow> tracker \<times> tracker \<times> collector" where
  "trackersFor email c =
     (let up = get_or (NewTracker False) (co_up c) email;
          down = get_or (NewTracker False) (co_down c) email
      in (up, down, c\<lparr>co_up := AList.update email up (co_up c),
                      co_down := AList.update email down (co_down c)\<rparr>))"

text \<open>The body of the loop over the raw counters.\<close>

definition fold_raw :: "string list \<Rightarrow> int \<Rightarrow> raw_traffic \<Rightarrow> collector \<Rightarrow> collector" where
  "fold_raw existing elapsed raw c0 =
     (let e = rt_Email raw;
          (up0, down0, c1) = trackersFor e c0;
          up = Tracker_Add up0 (rt_UpBytes raw) elapsed;
          down = Tracker_Add down0 (rt_DownBytes raw) elapsed;
          c2 = c1\<lparr>co_up := AList.update e up (co_up c1), co_down := AList.update e down (co_down c1)\<rparr>;
          upDelta = Tracker_LastDelta up;
          downDelta = Tracker_LastDelta down;
          first = \<not> get_or False (co_seeded c2) e;
          seed = first \<and> e \<notin> set existing;
          c3 = (if first then c2\<lparr>co_seeded := AList.update e True (co_seeded c2)\<rparr> else c2);
          (upD, downD, seenNow) =
            (if seed then (rt_UpBytes raw, rt_DownBytes raw, False)
             else (upDelta, downDelta, upDelta + downDelta > 0));
          pending = get_or \<lparr>pd_up = 0, pd_down = 0, pd_seenNow = False\<rparr> (co_pending c3) e
      in c3\<lparr>co_pending := AList.update e
              \<lparr>pd_up = pd_up pending + upD, pd_down = pd_down pending + downD,
               pd_seenNow = pd_seenNow pending \<or> seenNow\<rparr> (co_pending c3)\<rparr>)"

definition speedsLocked :: "(u64 \<Rightarrow> int \<Rightarrow> u64) \<Rightarrow> collector \<Rightarrow> (u64 \<times> u64) gomap" where
  "speedsLocked rate c =
     map (\<lambda>(email, up). (email, Tracker_Speed rate up,
            Tracker_Speed rate (get_or (NewTracker False) (co_down c) email))) (co_up c)"

section \<open>Snapshots\<close>

definition add_countries :: "(string \<Rightarrow> string) \<Rightarrow> user \<Rightarrow> user" where
  "add_countries country u =
     u\<lparr>us_IPCountries := fold (\<lambda>ip m. if country ip \<noteq> '''' then AList.update ip (country ip) m else m)
         (us_IPs u) (us_IPCountries u)\<rparr>"

definition overlay :: "bool \<Rightarrow> (u64 \<times> u64) gomap \<Rightarrow> presence gomap \<Rightarrow> user \<Rightarrow> user" where
  "overlay stale speeds online u0 =
     (let u1 = (case map_of speeds (us_Email u0) of
                  None \<Rightarrow> u0 | Some (up, down) \<Rightarrow> u0\<lparr>us_SpeedUp := up, us_SpeedDown := down\<rparr>)
      in if stale then u1
         else case map_of online (us_Email u1) of
                None \<Rightarrow> u1\<lparr>us_Online := False, us_IPs := []\<rparr>
              | Some p \<Rightarrow> u1\<lparr>us_Online := True, us_IPs := ps_IPs p\<rparr>)"

definition Collector_snapshot ::
  "poll_env \<Rightarrow> collector \<Rightarrow> db \<Rightarrow> (u64 \<times> u64) gomap \<Rightarrow> presence gomap \<Rightarrow> string + users_snapshot" where
  "Collector_snapshot env c d speeds online =
     (case pe_users_err env of
        Some err \<Rightarrow> Inl err
      | None \<Rightarrow>
          let list = map (overlay (co_stale c) speeds online) (Store_Users d)
          in Inr \<lparr>sn_CollectedAt = co_collectedAt c, sn_Stale = co_stale c,
                  sn_Users = (case pe_geo env of None \<Rightarrow> list | Some country \<Rightarrow> map (add_countries country) list)\<rparr>)"
section \<open>One poll\<close>

record batch =
  ba_deltas :: "delta list"
  ba_presence :: "presence list"
  ba_online :: "presence gomap"

definition notePresence :: "string + presence list \<times> bool \<Rightarrow> collector \<Rightarrow> collector" where
  "notePresence answer c =
     (case answer of
        Inl err \<Rightarrow> logFailure PresenceErr err c
      | Inr (online, supported) \<Rightarrow>
          if \<not> supported then
            (if co_notedUnsupported c then c
             else c\<lparr>co_notedUnsupported := True, co_log := co_log c @ [PresenceUnsupported]\<rparr>)
          else logRecovery PresenceErr c)"

definition presence_rows :: "int \<Rightarrow> string + presence list \<times> bool \<Rightarrow> presence list" where
  "presence_rows now answer =
     (case answer of
        Inl err \<Rightarrow> []
      | Inr (online, supported) \<Rightarrow>
          if supported
          then map (\<lambda>p. if ps_LastSeen p = 0 then p\<lparr>ps_LastSeen := unix now\<rparr> else p) online
          else [])"

definition online_set :: "presence list \<Rightarrow> presence gomap" where
  "online_set rows = fold (\<lambda>p m. AList.update (ps_Email p) p m) rows []"

definition delta_of :: "string \<times> pending_delta \<Rightarrow> delta" where
  "delta_of entry = \<lparr>dl_Email = fst entry, dl_Up = pd_up (snd entry), dl_Down = pd_down (snd entry),
     dl_SeenNow = pd_seenNow (snd entry)\<rparr>"

text \<open>From the poll's answers to the batch for the store, under the first lock.\<close>

definition Collect_sample :: "poll_env \<Rightarrow> raw_traffic list \<Rightarrow> collector \<Rightarrow> db \<Rightarrow> collector \<times> batch" where
  "Collect_sample env raws c0 d =
     (let rows = presence_rows (pe_now env) (pe_presence env);
          c1 = fold (fold_raw (ExistingEmails d) (pe_now env - co_lastPoll c0)) raws
                 (c0\<lparr>co_lastPoll := pe_now env\<rparr>)
      in (c1, \<lparr>ba_deltas = map delta_of (pe_range env (co_pending c1)),
               ba_presence = rows, ba_online = online_set rows\<rparr>))"

text \<open>The transaction and what follows it.\<close>

definition Collect_commit ::
  "poll_env \<Rightarrow> batch \<Rightarrow> collector \<Rightarrow> db \<Rightarrow> (string + users_snapshot) \<times> collector \<times> db" where
  "Collect_commit env b c d =
     (let roster = co_pendingRoster c
      in case pe_apply_err env of
           Some err \<Rightarrow> (Inl err, logFailure StoreErr err c, d)
         | None \<Rightarrow>
             let d' = ApplyPoll d (ba_deltas b) (ba_presence b) roster (unix (pe_now env));
                 c1 = (logRecovery StoreErr c)\<lparr>co_pending := []\<rparr>;
                 c2 = (if roster \<noteq> None then settle_roster c1 else c1);
                 c3 = c2\<lparr>co_stale := False, co_collectedAt := unix (pe_now env)\<rparr>
             in (Collector_snapshot env c3 d' (speedsLocked (pe_rate env) c3) (ba_online b), c3, d'))"

definition Collector_Collect :: "poll_env \<Rightarrow> collector \<Rightarrow> db \<Rightarrow> (string + users_snapshot) \<times> collector \<times> db" where
  "Collector_Collect env c d =
     (let c1 = sampleRoster (pe_roster env) c
      in case pe_traffic env of
           Inl err \<Rightarrow>
             let c2 = (logFailure PollErr err c1)\<lparr>co_stale := True\<rparr>;
                 (c3, d') = flushRoster env c2 d
             in (Collector_snapshot env c3 d' [] [], c3, d')
         | Inr raws \<Rightarrow>
             let c2 = notePresence (pe_presence env) (logRecovery PollErr c1)
             in case pe_existing_err env of
                  Some err \<Rightarrow> (Inl err, c2, d)
                | None \<Rightarrow>
                    let (c3, b) = Collect_sample env raws c2 d
                    in Collect_commit env b c3 d)"

fun polls :: "poll_env list \<Rightarrow> collector \<times> db \<Rightarrow> collector \<times> db" where
  "polls [] s = s"
| "polls (env # envs) (c, d) = polls envs (snd (Collector_Collect env c d))"

section \<open>Conservation of traffic\<close>

text \<open>The readings of a user's counter that a poll folds in.\<close>

definition readings_of :: "(raw_traffic \<Rightarrow> u64) \<Rightarrow> raw_traffic list \<Rightarrow> string \<Rightarrow> u64 list" where
  "readings_of side raws e = map side (filter (\<lambda>r. rt_Email r = e) raws)"

definition sampled :: "poll_env \<Rightarrow> raw_traffic list" where
  "sampled env = (case pe_traffic env of Inl err \<Rightarrow> [] | Inr raws \<Rightarrow> if pe_existing_err env = None then raws else [])"

definition readings :: "(raw_traffic \<Rightarrow> u64) \<Rightarrow> poll_env list \<Rightarrow> string \<Rightarrow> u64 list" where
  "readings side envs e = concat (map (\<lambda>env. readings_of side (sampled env) e) envs)"

abbreviation is_seeded :: "collector \<Rightarrow> string \<Rightarrow> bool" where
  "is_seeded c e \<equiv> get_or False (co_seeded c) e"

text \<open>The tracker is the one the readings so far give, and the user counts as seeded from the
  first of them.\<close>

definition tracks :: "tracker \<Rightarrow> bool \<Rightarrow> u64 list \<Rightarrow> bool" where
  "tracks t seeded raws \<longleftrightarrow>
     (\<exists>rs. map fst rs = raws \<and> t = Tracker_run (NewTracker False) rs) \<and> (seeded \<longleftrightarrow> raws \<noteq> [])"

definition reconciled :: "u64 list \<Rightarrow> u64" where
  "reconciled raws = (if raws = [] then 0 else epochs_sum raws - hd raws)"

text \<open>What first contact credits beyond the reconciled deltas: the first reading, when the store
  has no row for the user.\<close>

definition seed_of :: "u64 list \<Rightarrow> u64 list \<Rightarrow> bool \<Rightarrow> u64" where
  "seed_of old new known = (if old = [] \<and> \<not> known then (case new of [] \<Rightarrow> 0 | r # _ \<Rightarrow> r) else 0)"

definition credit :: "bool \<Rightarrow> bool \<Rightarrow> tracker \<Rightarrow> u64 \<Rightarrow> int \<Rightarrow> u64" where
  "credit seeded known t raw elapsed =
     (if \<not> seeded \<and> \<not> known then raw else Tracker_LastDelta (Tracker_Add t raw elapsed))"

definition is_range :: "('v gomap \<Rightarrow> 'v gomap) \<Rightarrow> bool" where
  "is_range order \<longleftrightarrow> (\<forall>m. mset (order m) = mset m)"

definition same_traffic :: "collector \<Rightarrow> collector \<Rightarrow> bool" where
  "same_traffic c c' \<longleftrightarrow> co_up c' = co_up c \<and> co_down c' = co_down c \<and>
     co_seeded c' = co_seeded c \<and> co_pending c' = co_pending c"

lemma is_rangeD:
  assumes "is_range order" and "distinct (map fst m)"
  shows "distinct (map fst (order m))" and "map_of (order m) = map_of m"
proof -
  have eq: "mset (order m) = mset m" using assms(1) by (simp add: is_range_def)
  then have "mset (map fst (order m)) = mset (map fst m)" by simp
  then show dist: "distinct (map fst (order m))" using assms(2) mset_eq_imp_distinct_iff by blast
  show "map_of (order m) = map_of m"
    using map_of_inject_set [OF dist assms(2)] mset_eq_setD [OF eq] by simp
qed

lemma Tracker_run_snoc: "Tracker_run t (rs @ [(raw, elapsed)]) = Tracker_Add (Tracker_run t rs) raw elapsed"
  by (induction t rs rule: Tracker_run.induct) auto

lemma tracks_Add: "tracks t seeded raws \<Longrightarrow> tracks (Tracker_Add t raw elapsed) True (raws @ [raw])"
proof -
  assume "tracks t seeded raws"
  then obtain rs where "map fst rs = raws" "t = Tracker_run (NewTracker False) rs"
    by (auto simp: tracks_def)
  then have "map fst (rs @ [(raw, elapsed)]) = raws @ [raw] \<and>
      Tracker_Add t raw elapsed = Tracker_run (NewTracker False) (rs @ [(raw, elapsed)])"
    by (simp add: Tracker_run_snoc)
  then show ?thesis unfolding tracks_def by blast
qed

lemma tracks_total: "tracks t seeded raws \<Longrightarrow> Tracker_Total t = reconciled raws"
  using per_user.total_fresh
  by (auto simp: tracks_def Tracker_Total_def reconciled_def Tracker_run_new hd_map)

lemma tracks_durable: "tracks t seeded raws \<Longrightarrow> durable_inv t"
  using per_user.invar_run [OF per_user.invar_fresh] per_user.invar_fresh
  by (auto simp: tracks_def run_of_Tracker_Add)

lemma first_delta: "tracks t seeded [] \<Longrightarrow> Tracker_LastDelta (Tracker_Add t raw elapsed) = 0"
  by (auto simp: tracks_def Tracker_LastDelta_def Tracker_Add_def NewTracker_def)

lemma credit_total:
  assumes "tracks t seeded raws"
  shows "credit seeded known t raw elapsed - Tracker_Total (Tracker_Add t raw elapsed) =
    seed_of raws [raw] known - Tracker_Total t"
proof -
  have "Tracker_Total (Tracker_Add t raw elapsed) =
      Tracker_Total t + Tracker_LastDelta (Tracker_Add t raw elapsed)"
    by (rule per_user.total_add [OF tracks_durable [OF assms]])
  moreover have "seeded \<longleftrightarrow> raws \<noteq> []" using assms by (simp add: tracks_def)
  ultimately show ?thesis
    using assms by (cases "raws = []") (simp_all add: credit_def seed_of_def first_delta)
qed

text \<open>The bookkeeping around the loop leaves the traffic maps alone.\<close>

lemma traffic_untouched [simp]:
  "co_up (logFailure s err c) = co_up c" "co_down (logFailure s err c) = co_down c"
  "co_seeded (logFailure s err c) = co_seeded c" "co_pending (logFailure s err c) = co_pending c"
  "co_up (logRecovery s c) = co_up c" "co_down (logRecovery s c) = co_down c"
  "co_seeded (logRecovery s c) = co_seeded c" "co_pending (logRecovery s c) = co_pending c"
  "co_up (settle_roster c) = co_up c" "co_down (settle_roster c) = co_down c"
  "co_seeded (settle_roster c) = co_seeded c" "co_pending (settle_roster c) = co_pending c"
  by (simp_all add: logFailure_def logRecovery_def settle_roster_def)

lemma same_traffic_sampleRoster: "same_traffic c (sampleRoster src c)"
  by (simp add: same_traffic_def sampleRoster_def split: option.split)

lemma same_traffic_notePresence: "same_traffic c (notePresence answer c)"
  by (simp add: same_traffic_def notePresence_def split: sum.split)

lemma same_traffic_flushRoster: "same_traffic c (fst (flushRoster env c d))"
  by (simp add: same_traffic_def flushRoster_def split: option.split)

lemma same_traffic_trans: "same_traffic a b \<Longrightarrow> same_traffic b c \<Longrightarrow> same_traffic a c"
  by (simp add: same_traffic_def)

lemma keys_fold_raw:
  "distinct (map fst (co_pending c)) \<Longrightarrow> distinct (map fst (co_pending (fold_raw existing elapsed r c)))"
  by (auto simp: fold_raw_def Let_def trackersFor_def case_prod_beta)

lemma keys_fold:
  "distinct (map fst (co_pending c)) \<Longrightarrow>
   distinct (map fst (co_pending (fold (fold_raw existing elapsed) rs c)))"
  by (induction rs arbitrary: c) (auto simp: keys_fold_raw)

lemma ExistingEmails_iff: "e \<in> set (ExistingEmails d) \<longleftrightarrow> user_at d e \<noteq> None"
  by (auto simp: ExistingEmails_def user_at_def find_None_iff)

subsection \<open>One direction of the traffic\<close>

text \<open>
  Upload and download are handled alike: a tracker and a pending amount per user, a column of the
  store. The interface says how the loop body and the transaction treat one direction; what
  follows from it is proved once.
\<close>

locale direction =
  fixes raw_of :: "raw_traffic \<Rightarrow> u64"
    and trk :: "collector \<Rightarrow> string \<Rightarrow> tracker"
    and pend :: "pending_delta gomap \<Rightarrow> string \<Rightarrow> u64"
    and side :: "delta \<Rightarrow> u64"
    and stored :: "db \<Rightarrow> string \<Rightarrow> nat"
  assumes trk_fresh: "trk NewCollector e = NewTracker False"
    and trk_same: "same_traffic c c' \<Longrightarrow> trk c' e = trk c e"
    and trk_cleared: "trk (c\<lparr>co_pending := m\<rparr>) e = trk c e"
    and trk_fold_raw: "trk (fold_raw existing elapsed r c) e =
      (if rt_Email r = e then Tracker_Add (trk c e) (raw_of r) elapsed else trk c e)"
    and pend_Nil: "pend [] e = 0"
    and pend_fold_raw: "pend (co_pending (fold_raw existing elapsed r c)) e =
      pend (co_pending c) e +
      (if rt_Email r = e then credit (is_seeded c e) (e \<in> set existing) (trk c e) (raw_of r) elapsed else 0)"
    and pend_moved: "distinct (map fst m) \<Longrightarrow> moved side (map delta_of m) e = unat (pend m e)"
    and pend_map_of: "map_of m = map_of m' \<Longrightarrow> pend m e = pend m' e"
    and stored_poll: "stored (ApplyPoll d dls ps roster t) e = stored d e + moved side dls e"
begin

lemma seeded_fold_raw: "is_seeded (fold_raw existing elapsed r c) e \<longleftrightarrow> rt_Email r = e \<or> is_seeded c e"
  by (auto simp: fold_raw_def Let_def trackersFor_def case_prod_beta split: option.splits)

lemma tracks_fold_raw:
  assumes "tracks (trk c e) (is_seeded c e) raws"
  shows "tracks (trk (fold_raw existing elapsed r c) e) (is_seeded (fold_raw existing elapsed r c) e)
    (raws @ readings_of raw_of [r] e)"
  using assms unfolding seeded_fold_raw trk_fold_raw
  by (cases "rt_Email r = e") (simp_all add: readings_of_def tracks_Add)

lemma tracks_fold:
  "tracks (trk c e) (is_seeded c e) raws \<Longrightarrow>
   tracks (trk (fold (fold_raw existing elapsed) rs c) e) (is_seeded (fold (fold_raw existing elapsed) rs c) e)
     (raws @ readings_of raw_of rs e)"
proof (induction rs arbitrary: c raws)
  case (Cons r rs)
  from Cons.IH [OF tracks_fold_raw [OF Cons.prems, where r = r]] show ?case
    by (cases "rt_Email r = e") (simp_all add: readings_of_def)
qed (simp add: readings_of_def)

text \<open>
  What is pending, less what the tracker has reconciled, moves only on first contact with a user
  the store has no row for, and then by the reading itself.
\<close>

lemma carried_fold_raw:
  assumes "tracks (trk c e) (is_seeded c e) raws"
  shows "pend (co_pending (fold_raw existing elapsed r c)) e - Tracker_Total (trk (fold_raw existing elapsed r c) e) =
    pend (co_pending c) e - Tracker_Total (trk c e) + seed_of raws (readings_of raw_of [r] e) (e \<in> set existing)"
  using credit_total [OF assms, of "e \<in> set existing" "raw_of r" elapsed] unfolding pend_fold_raw trk_fold_raw
  by (auto simp: readings_of_def seed_of_def algebra_simps)

lemma carried_fold:
  "tracks (trk c e) (is_seeded c e) raws \<Longrightarrow>
   pend (co_pending (fold (fold_raw existing elapsed) rs c)) e -
       Tracker_Total (trk (fold (fold_raw existing elapsed) rs c) e) =
     pend (co_pending c) e - Tracker_Total (trk c e) + seed_of raws (readings_of raw_of rs e) (e \<in> set existing)"
proof (induction rs arbitrary: c raws)
  case (Cons r rs)
  from Cons.IH [OF tracks_fold_raw [OF Cons.prems, where r = r]] carried_fold_raw [OF Cons.prems, where r = r]
  show ?case by (cases "rt_Email r = e") (simp_all add: seed_of_def readings_of_def)
qed (simp add: seed_of_def readings_of_def)

text \<open>The balance of one user over a whole poll, whatever fails in it.\<close>

definition "balance c d e = (of_nat (stored d e) + pend (co_pending c) e - Tracker_Total (trk c e) :: u64)"

definition "known_user c raws e \<longleftrightarrow> tracks (trk c e) (is_seeded c e) raws \<and> distinct (map fst (co_pending c))"

lemma balance_same: "same_traffic c c' \<Longrightarrow> balance c' d e = balance c d e"
  using trk_same [of c c'] by (simp add: balance_def same_traffic_def)

lemma known_same: "same_traffic c c' \<Longrightarrow> known_user c' raws e = known_user c raws e"
  using trk_same [of c c'] by (simp add: known_user_def same_traffic_def)

lemma known_NewCollector: "known_user NewCollector [] e"
proof -
  have "Tracker_run (NewTracker False) [] = NewTracker False" by simp
  then have "tracks (NewTracker False) False []" unfolding tracks_def by (metis list.map(1))
  then show ?thesis by (simp add: known_user_def trk_fresh) (simp add: NewCollector_def)
qed

lemma balance_NewCollector: "balance NewCollector d e = of_nat (stored d e)"
  using pend_Nil per_user.total_fresh by (simp add: balance_def trk_fresh) (simp add: NewCollector_def)

lemma balance_flushRoster: "balance (fst (flushRoster env c d)) (snd (flushRoster env c d)) e = balance c d e"
proof -
  have "stored (snd (flushRoster env c d)) e = stored d e"
    by (simp add: flushRoster_def stored_poll moved_def split: option.split)
  with balance_same [OF same_traffic_flushRoster] show ?thesis by (simp add: balance_def)
qed

lemma balance_commit:
  assumes "is_range (pe_range env)" and "distinct (map fst (co_pending c))"
    and b: "ba_deltas b = map delta_of (pe_range env (co_pending c))"
    and commit: "Collect_commit env b c d = (result, c', d')"
  shows "balance c' d' e = balance c d e \<and> (known_user c raws e \<longrightarrow> known_user c' raws e)"
proof (cases "pe_apply_err env")
  case None
  let ?done = "(logRecovery StoreErr c)\<lparr>co_pending := []\<rparr>"
  from None commit have c': "same_traffic ?done c'"
    and d': "d' = ApplyPoll d (ba_deltas b) (ba_presence b) (co_pendingRoster c) (unix (pe_now env))"
    by (auto simp: Collect_commit_def Let_def same_traffic_def)
  have "same_traffic c (logRecovery StoreErr c)" by (simp add: same_traffic_def)
  then have trk: "trk ?done e = trk c e" by (simp add: trk_cleared trk_same)
  have "moved side (ba_deltas b) e = unat (pend (co_pending c) e)"
    using is_rangeD [OF assms(1,2)] pend_moved pend_map_of unfolding b by metis
  then have "balance ?done d' e = balance c d e"
    by (simp add: balance_def trk d' stored_poll pend_Nil)
  moreover have "known_user ?done raws e" if "known_user c raws e"
    using that trk by (simp add: known_user_def)
  ultimately show ?thesis using c' by (simp add: balance_same known_same)
next
  case (Some err)
  with commit have "same_traffic c c'" "d' = d"
    by (auto simp: Collect_commit_def Let_def same_traffic_def)
  then show ?thesis by (simp add: balance_same known_same)
qed

lemma balance_Collect:
  assumes known: "known_user c raws e" and order: "is_range (pe_range env)"
    and poll: "Collector_Collect env c d = (result, c', d')"
  shows "known_user c' (raws @ readings_of raw_of (sampled env) e) e \<and>
    balance c' d' e = balance c d e + seed_of raws (readings_of raw_of (sampled env) e) (user_at d e \<noteq> None)"
proof (cases "pe_traffic env")
  case (Inl err)
  let ?c = "(logFailure PollErr err (sampleRoster (pe_roster env) c))\<lparr>co_stale := True\<rparr>"
  have same: "same_traffic c ?c"
    using same_traffic_sampleRoster [of c] by (simp add: same_traffic_def)
  from Inl poll have "c' = fst (flushRoster env ?c d)" "d' = snd (flushRoster env ?c d)"
    by (auto simp: Collector_Collect_def Let_def split: prod.splits)
  with same known balance_flushRoster [of env ?c d e]
    known_same [OF same_traffic_trans [OF same same_traffic_flushRoster]] show ?thesis
    by (simp add: balance_same sampled_def Inl readings_of_def seed_of_def)
next
  case (Inr rs)
  let ?c = "notePresence (pe_presence env) (logRecovery PollErr (sampleRoster (pe_roster env) c))"
  have "same_traffic c (logRecovery PollErr (sampleRoster (pe_roster env) c))"
    using same_traffic_sampleRoster [of c] by (simp add: same_traffic_def)
  then have same: "same_traffic c ?c" by (rule same_traffic_trans [OF _ same_traffic_notePresence])
  show ?thesis
  proof (cases "pe_existing_err env")
    case None
    let ?s = "?c\<lparr>co_lastPoll := pe_now env\<rparr>"
    let ?f = "fold (fold_raw (ExistingEmails d) (pe_now env - co_lastPoll ?c)) rs ?s"
    have s: "same_traffic c ?s" using same by (simp add: same_traffic_def)
    have known_s: "known_user ?s raws e" using known known_same [OF s] by simp
    from Inr None poll have commit: "Collect_commit env (snd (Collect_sample env rs ?c d)) ?f d = (result, c', d')"
      by (simp add: Collector_Collect_def Collect_sample_def Let_def)
    have known_f: "known_user ?f (raws @ readings_of raw_of rs e) e"
      using known_s by (auto simp: known_user_def tracks_fold keys_fold)
    have "balance ?f d e = balance ?s d e + seed_of raws (readings_of raw_of rs e) (user_at d e \<noteq> None)"
      using carried_fold [of ?s e raws "ExistingEmails d" "pe_now env - co_lastPoll ?c" rs] known_s
      by (simp add: known_user_def balance_def ExistingEmails_iff algebra_simps)
    with balance_commit [OF order _ _ commit, of e "raws @ readings_of raw_of rs e"] known_f
      balance_same [OF s] Inr None show ?thesis
      by (simp add: sampled_def Collect_sample_def Let_def known_user_def)
  next
    case (Some err)
    with Inr poll have "c' = ?c" "d' = d" by (auto simp: Collector_Collect_def Let_def)
    with same known Some Inr show ?thesis
      by (simp add: balance_same known_same sampled_def readings_of_def seed_of_def)
  qed
qed

lemma balance_polls:
  assumes "known_user c (r # raws) e" and "\<forall>env \<in> set envs. is_range (pe_range env)"
    and "polls envs (c, d) = (c', d')"
  shows "known_user c' (r # raws @ readings raw_of envs e) e \<and> balance c' d' e = balance c d e"
  using assms
proof (induction envs arbitrary: c d raws)
  case (Cons env envs)
  obtain result c1 d1 where poll: "Collector_Collect env c d = (result, c1, d1)" by (cases "Collector_Collect env c d") auto
  from balance_Collect [OF Cons.prems(1) _ poll] Cons.prems(2)
  have "known_user c1 (r # raws @ readings_of raw_of (sampled env) e) e" "balance c1 d1 e = balance c d e"
    by (simp_all add: seed_of_def)
  with Cons.IH [of c1 "raws @ readings_of raw_of (sampled env) e" d1] Cons.prems(2,3) poll
  show ?case by (simp add: readings_def)
qed (simp add: readings_def)

lemma balance_before:
  assumes "known_user c [] e" and "\<forall>env \<in> set envs. is_range (pe_range env)"
    and "readings raw_of envs e = []" and "polls envs (c, d) = (c', d')"
  shows "known_user c' [] e \<and> balance c' d' e = balance c d e"
  using assms
proof (induction envs arbitrary: c d)
  case (Cons env envs)
  obtain result c1 d1 where poll: "Collector_Collect env c d = (result, c1, d1)" by (cases "Collector_Collect env c d") auto
  from balance_Collect [OF Cons.prems(1) _ poll] Cons.prems(2,3)
  have "known_user c1 [] e" "balance c1 d1 e = balance c d e"
    by (simp_all add: seed_of_def readings_def)
  with Cons.IH [of c1 d1] Cons.prems(2-4) poll show ?case by (simp add: readings_def)
qed simp

lemma conservation:
  assumes order: "\<forall>env \<in> set (before @ p # after). is_range (pe_range env)"
    and silent: "readings raw_of before e = []" and contact: "readings raw_of [p] e = r # rs"
    and run1: "polls before (NewCollector, d0) = (c1, d1)"
    and run2: "polls (p # after) (c1, d1) = (c2, d2)"
  shows "of_nat (stored d2 e) + pend (co_pending c2) e =
    of_nat (stored d0 e) + epochs_sum (r # rs @ readings raw_of after e) - (if user_at d1 e = None then 0 else r)"
proof -
  from balance_before [OF known_NewCollector _ silent run1] order
  have b1: "known_user c1 [] e" "balance c1 d1 e = of_nat (stored d0 e)"
    by (simp_all add: balance_NewCollector)
  obtain result c d where poll: "Collector_Collect p c1 d1 = (result, c, d)" by (cases "Collector_Collect p c1 d1") auto
  have "readings_of raw_of (sampled p) e = r # rs" using contact by (simp add: readings_def)
  with balance_Collect [OF b1(1) _ poll] order
  have b: "known_user c (r # rs) e"
    "balance c d e = of_nat (stored d0 e) + (if user_at d1 e = None then r else 0)"
    by (simp_all add: seed_of_def b1(2))
  from balance_polls [OF b(1), of after d c2 d2] order run2 poll
  have b2: "known_user c2 (r # rs @ readings raw_of after e) e" "balance c2 d2 e = balance c d e" by simp_all
  from b2(1) tracks_total have "Tracker_Total (trk c2 e) = epochs_sum (r # rs @ readings raw_of after e) - r"
    by (auto simp: known_user_def reconciled_def)
  moreover have "of_nat (stored d2 e) + pend (co_pending c2) e = balance c2 d2 e + Tracker_Total (trk c2 e)"
    by (simp add: balance_def)
  ultimately show ?thesis by (simp add: b2(2) b(2) algebra_simps)
qed

end

definition tracker_up :: "collector \<Rightarrow> string \<Rightarrow> tracker" where
  "tracker_up c e = get_or (NewTracker False) (co_up c) e"

definition tracker_down :: "collector \<Rightarrow> string \<Rightarrow> tracker" where
  "tracker_down c e = get_or (NewTracker False) (co_down c) e"

definition pending_up :: "pending_delta gomap \<Rightarrow> string \<Rightarrow> u64" where
  "pending_up m e = (case map_of m e of None \<Rightarrow> 0 | Some p \<Rightarrow> pd_up p)"

definition pending_down :: "pending_delta gomap \<Rightarrow> string \<Rightarrow> u64" where
  "pending_down m e = (case map_of m e of None \<Rightarrow> 0 | Some p \<Rightarrow> pd_down p)"

lemmas view_defs = tracker_up_def tracker_down_def pending_up_def pending_down_def

lemma up_fold_raw: "tracker_up (fold_raw existing elapsed r c) e =
    (if rt_Email r = e then Tracker_Add (tracker_up c e) (rt_UpBytes r) elapsed else tracker_up c e)"
  by (simp add: fold_raw_def Let_def trackersFor_def view_defs case_prod_beta)

lemma down_fold_raw: "tracker_down (fold_raw existing elapsed r c) e =
    (if rt_Email r = e then Tracker_Add (tracker_down c e) (rt_DownBytes r) elapsed else tracker_down c e)"
  by (simp add: fold_raw_def Let_def trackersFor_def view_defs case_prod_beta)

lemma pending_fold_raw_other: "rt_Email r \<noteq> e \<Longrightarrow>
    map_of (co_pending (fold_raw existing elapsed r c)) e = map_of (co_pending c) e"
  by (simp add: fold_raw_def Let_def trackersFor_def case_prod_beta)

lemma pending_up_fold_raw: "pending_up (co_pending (fold_raw existing elapsed r c)) e =
    pending_up (co_pending c) e +
    (if rt_Email r = e then credit (is_seeded c e) (e \<in> set existing) (tracker_up c e) (rt_UpBytes r) elapsed else 0)"
proof (cases "rt_Email r = e")
  case True
  then show ?thesis
    by (cases "map_of (co_pending c) e")
       (simp_all add: fold_raw_def Let_def trackersFor_def view_defs case_prod_beta credit_def)
qed (simp add: pending_up_def pending_fold_raw_other)

lemma pending_down_fold_raw: "pending_down (co_pending (fold_raw existing elapsed r c)) e =
    pending_down (co_pending c) e +
    (if rt_Email r = e then credit (is_seeded c e) (e \<in> set existing) (tracker_down c e) (rt_DownBytes r) elapsed else 0)"
proof (cases "rt_Email r = e")
  case True
  then show ?thesis
    by (cases "map_of (co_pending c) e")
       (simp_all add: fold_raw_def Let_def trackersFor_def view_defs case_prod_beta credit_def)
qed (simp add: pending_down_def pending_fold_raw_other)

lemma moved_pending:
  assumes "distinct (map fst m)"
  shows "moved dl_Up (map delta_of m) e = unat (pending_up m e)"
    and "moved dl_Down (map delta_of m) e = unat (pending_down m e)"
proof -
  have none: "filter (\<lambda>dl. dl_Email dl = k) (map delta_of m) = []" if "k \<notin> fst ` set m" for m k
    using that by (force simp: filter_empty_conv delta_of_def)
  show "moved dl_Up (map delta_of m) e = unat (pending_up m e)"
    using assms by (induction m) (auto simp: moved_def pending_up_def delta_of_def none)
  show "moved dl_Down (map delta_of m) e = unat (pending_down m e)"
    using assms by (induction m) (auto simp: moved_def pending_down_def delta_of_def none)
qed

lemma stored_up_down:
  "up_of (ApplyPoll d dls ps roster t) e = up_of d e + moved dl_Up dls e"
  "down_of (ApplyPoll d dls ps roster t) e = down_of d e + moved dl_Down dls e"
  using bytes_ApplyPoll [of d dls ps roster t e] bytes_up_down [of "ApplyPoll d dls ps roster t" e]
    bytes_up_down [of d e]
  by (metis fst_conv, metis snd_conv)

interpretation upload: direction rt_UpBytes tracker_up pending_up dl_Up up_of
  by unfold_locales
     (simp_all add: up_fold_raw pending_up_fold_raw moved_pending(1) stored_up_down(1), simp_all add: view_defs
       NewCollector_def same_traffic_def)

interpretation download: direction rt_DownBytes tracker_down pending_down dl_Down down_of
  by unfold_locales
     (simp_all add: down_fold_raw pending_down_fold_raw moved_pending(2) stored_up_down(2), simp_all add: view_defs
       NewCollector_def same_traffic_def)

text \<open>
  C1. Durable totals never drop or double a byte, across any mix of failed traffic polls, failed
  reads, failed store transactions and xray restarts. From a fresh collector, after any sequence
  of polls that contacts a user for the first time in the poll \<open>p\<close>, what the store holds for them
  plus what is still pending is what the store held at the start plus, over the epochs of the raw
  counter, the last reading of each epoch, less the first reading when the user had a stored row
  at first contact (those bytes are already in it, or predate the panel). This holds for upload
  and download, modulo the 64-bit width of the counters.
\<close>

theorem totals_conserve_traffic:
  assumes "\<forall>env \<in> set (before @ p # after). is_range (pe_range env)"
    and "\<forall>env \<in> set before. \<forall>r \<in> set (sampled env). rt_Email r \<noteq> e"
    and "\<exists>r \<in> set (sampled p). rt_Email r = e"
    and "polls before (NewCollector, d0) = (c1, d1)" and "polls (p # after) (c1, d1) = (c2, d2)"
  shows "of_nat (up_of d2 e) + pending_up (co_pending c2) e =
      of_nat (up_of d0 e) + epochs_sum (readings rt_UpBytes (p # after) e) -
      (if user_at d1 e = None then 0 else hd (readings rt_UpBytes (p # after) e)) \<and>
    of_nat (down_of d2 e) + pending_down (co_pending c2) e =
      of_nat (down_of d0 e) + epochs_sum (readings rt_DownBytes (p # after) e) -
      (if user_at d1 e = None then 0 else hd (readings rt_DownBytes (p # after) e))"
proof -
  have silent: "readings side before e = []" for side
    using assms(2) by (auto simp: readings_def readings_of_def filter_empty_conv)
  have split: "readings side (p # after) e = readings side [p] e @ readings side after e" for side
    by (simp add: readings_def)
  have contact: "\<exists>r rs. readings side [p] e = r # rs" for side
    using assms(3) by (cases "readings side [p] e") (auto simp: readings_def readings_of_def filter_empty_conv)
  obtain u us where u: "readings rt_UpBytes [p] e = u # us" using contact by blast
  obtain w ws where w: "readings rt_DownBytes [p] e = w # ws" using contact by blast
  from upload.conservation [OF assms(1) silent u assms(4,5)]
    download.conservation [OF assms(1) silent w assms(4,5)]
  show ?thesis unfolding split u w by simp
qed

definition poll_at :: "int \<Rightarrow> raw_traffic list \<Rightarrow> poll_env" where
  "poll_at now raws = \<lparr>pe_roster = None, pe_traffic = Inr raws, pe_presence = Inr ([], False), pe_now = now,
     pe_existing_err = None, pe_apply_err = None, pe_users_err = None, pe_range = (\<lambda>m. m),
     pe_rate = (\<lambda>b t. 0), pe_geo = None\<rparr>"

definition bob_reads :: "u64 \<Rightarrow> raw_traffic" where
  "bob_reads up = \<lparr>rt_Email = ''bob'', rt_UpBytes = up, rt_DownBytes = 0\<rparr>"

text \<open>A first contact whose write fails, a poll that lands, and one after an xray restart.\<close>

definition three_polls :: "poll_env list" where
  "three_polls = [(poll_at 5 [bob_reads 100])\<lparr>pe_apply_err := Some ''locked''\<rparr>,
     poll_at 10 [bob_reads 150], poll_at 15 [bob_reads 30]]"

theorem totals_conserve_traffic_witness:
  "of_nat (up_of (snd (polls three_polls (NewCollector, no_tables))) ''bob'') +
     pending_up (co_pending (fst (polls three_polls (NewCollector, no_tables)))) ''bob'' = (180 :: u64)"
proof -
  obtain p after where three: "three_polls = p # after" and p: "p = hd three_polls" "after = tl three_polls"
    by (simp add: three_polls_def)
  have order: "\<forall>env \<in> set ([] @ p # after). is_range (pe_range env)"
    by (simp add: p three_polls_def poll_at_def is_range_def)
  have contact: "\<exists>r \<in> set (sampled p). rt_Email r = ''bob''"
    by (simp add: p three_polls_def poll_at_def sampled_def bob_reads_def)
  obtain c2 d2 where run: "polls (p # after) (NewCollector, no_tables) = (c2, d2)" by fastforce
  have "readings rt_UpBytes (p # after) ''bob'' = [100, 150, 30]"
    by (simp add: p three_polls_def readings_def sampled_def poll_at_def readings_of_def bob_reads_def)
  moreover have "up_of no_tables ''bob'' = 0" "user_at no_tables ''bob'' = None"
    by (simp_all add: up_of_def user_at_def no_tables_def)
  ultimately show ?thesis
    using totals_conserve_traffic [OF order _ contact polls.simps(1) run]
    by (simp add: three run epochs_sum_def del: polls.simps)
qed

section \<open>Purging, degrading, syncing\<close>

definition mentions :: "poll_env \<Rightarrow> string \<Rightarrow> bool" where
  "mentions env e \<longleftrightarrow>
     (\<exists>r \<in> set (sampled env). rt_Email r = e) \<or>
     (\<exists>p \<in> set (presence_rows (pe_now env) (pe_presence env)). ps_Email p = e) \<or>
     (\<exists>rp v. pe_roster env = Some (rp, v) \<and> has_key (rp_Labels rp) e)"

definition forgotten :: "collector \<Rightarrow> string \<Rightarrow> bool" where
  "forgotten c e \<longleftrightarrow> distinct (map fst (co_pending c)) \<and> \<not> has_key (co_pending c) e \<and>
     (\<forall>rp. co_pendingRoster c = Some rp \<longrightarrow> \<not> has_key (rp_Labels rp) e)"

lemma row_in_fold_other:
  assumes "\<And>x rows. x \<in> set xs \<Longrightarrow> row_in (f x rows) e = row_in rows e"
  shows "row_in (fold f xs rows) e = row_in rows e"
  using assms by (induction xs arbitrary: rows) auto

lemma ApplyPoll_other:
  assumes "\<forall>dl \<in> set dls. dl_Email dl \<noteq> e" and "\<forall>p \<in> set ps. ps_Email p \<noteq> e"
    and "\<forall>rp. roster = Some rp \<longrightarrow> \<not> has_key (rp_Labels rp) e" and "user_at d e = None"
  shows "user_at (ApplyPoll d dls ps roster t) e = None"
proof -
  let ?rows = "fold (apply_presence t) ps (fold (apply_delta t) dls (db_users d))"
  have "row_in ?rows e = row_in (fold (apply_delta t) dls (db_users d)) e"
    using assms(2) by (intro row_in_fold_other) (auto simp: find_apply_presence Let_def)
  also have "\<dots> = row_in (db_users d) e"
    using assms(1) by (intro row_in_fold_other) (auto simp: find_apply_delta)
  finally have rows: "row_in ?rows e = None" using assms(4) by (simp add: user_at_def)
  show ?thesis
  proof (cases roster)
    case None
    with rows show ?thesis by (simp add: ApplyPoll_def user_at_def)
  next
    case (Some rp)
    have keys: "fst entry \<noteq> e" if "entry \<in> set (rp_Labels rp)" for entry
      using assms(3) Some that by (auto simp: map_of_eq_None_iff)
    have "row_in (fold (sync_one (db_roster d) t) (rp_Labels rp) rows') e = row_in rows' e" for rows'
      by (rule row_in_fold_other) (metis find_sync_one keys prod.collapse)
    with Some rows show ?thesis
      by (simp add: ApplyPoll_def user_at_def adoptClients_def syncLabels_def Let_def find_update_where)
  qed
qed

lemma co_pendingRoster_logs [simp]:
  "co_pendingRoster (logFailure s err c) = co_pendingRoster c"
  "co_pendingRoster (logRecovery s c) = co_pendingRoster c"
  "co_pendingRoster (notePresence answer c) = co_pendingRoster c"
  by (simp_all add: logFailure_def logRecovery_def notePresence_def split: sum.split)

lemma pendingRoster_fold_raw: "co_pendingRoster (fold (fold_raw existing elapsed) rs c) = co_pendingRoster c"
  by (induction rs arbitrary: c) (simp_all add: fold_raw_def Let_def trackersFor_def case_prod_beta)

lemma pending_fold_other:
  "\<forall>r \<in> set rs. rt_Email r \<noteq> e \<Longrightarrow>
   map_of (co_pending (fold (fold_raw existing elapsed) rs c)) e = map_of (co_pending c) e"
  by (induction rs arbitrary: c) (auto simp: pending_fold_raw_other)

lemma forgotten_sampleRoster:
  "forgotten c e \<Longrightarrow> \<not> mentions env e \<Longrightarrow> forgotten (sampleRoster (pe_roster env) c) e"
  by (auto simp: forgotten_def sampleRoster_def mentions_def split: option.splits prod.splits if_splits)

lemma forgotten_Collect:
  assumes f: "forgotten c e" and gone: "user_at d e = None" and quiet: "\<not> mentions env e"
    and order: "is_range (pe_range env)" and poll: "Collector_Collect env c d = (result, c', d')"
  shows "forgotten c' e \<and> user_at d' e = None"
proof (cases "pe_traffic env")
  case (Inl err)
  let ?c = "(logFailure PollErr err (sampleRoster (pe_roster env) c))\<lparr>co_stale := True\<rparr>"
  have "forgotten ?c e" using forgotten_sampleRoster [OF f quiet] by (simp add: forgotten_def)
  moreover from Inl poll have "c' = fst (flushRoster env ?c d)" "d' = snd (flushRoster env ?c d)"
    by (auto simp: Collector_Collect_def Let_def split: prod.splits)
  ultimately show ?thesis
    using gone by (auto simp: flushRoster_def forgotten_def settle_roster_def intro!: ApplyPoll_other
        split: option.splits)
next
  case (Inr rs)
  let ?c = "notePresence (pe_presence env) (logRecovery PollErr (sampleRoster (pe_roster env) c))"
  have c: "forgotten ?c e"
    using forgotten_sampleRoster [OF f quiet] same_traffic_notePresence [of "logRecovery PollErr (sampleRoster (pe_roster env) c)" "pe_presence env"]
    by (simp add: forgotten_def same_traffic_def)
  show ?thesis
  proof (cases "pe_existing_err env")
    case None
    let ?f = "fold (fold_raw (ExistingEmails d) (pe_now env - co_lastPoll ?c)) rs (?c\<lparr>co_lastPoll := pe_now env\<rparr>)"
    let ?b = "snd (Collect_sample env rs ?c d)"
    from Inr None poll have commit: "Collect_commit env ?b ?f d = (result, c', d')"
      by (simp add: Collector_Collect_def Collect_sample_def Let_def)
    have other: "\<forall>r \<in> set rs. rt_Email r \<noteq> e" "\<forall>p \<in> set (ba_presence ?b). ps_Email p \<noteq> e"
      using quiet Inr None by (auto simp: mentions_def sampled_def Collect_sample_def Let_def)
    have f: "forgotten ?f e"
      using c other(1) by (auto simp: forgotten_def pending_fold_other pendingRoster_fold_raw keys_fold)
    then have "\<not> has_key (pe_range env (co_pending ?f)) e"
      using is_rangeD [OF order] by (simp add: forgotten_def)
    then have "\<forall>dl \<in> set (ba_deltas ?b). dl_Email dl \<noteq> e"
      by (auto simp: Collect_sample_def Let_def delta_of_def map_of_eq_None_iff)
    then have "user_at (ApplyPoll d (ba_deltas ?b) (ba_presence ?b) (co_pendingRoster ?f) (unix (pe_now env))) e = None"
      using f gone other(2) by (intro ApplyPoll_other) (auto simp: forgotten_def)
    with commit f gone show ?thesis
      by (auto simp: Collect_commit_def Let_def forgotten_def settle_roster_def split: option.splits if_splits)
  next
    case (Some err)
    with Inr poll c gone show ?thesis by (auto simp: Collector_Collect_def Let_def)
  qed
qed

lemma forgotten_polls:
  "forgotten c e \<Longrightarrow> user_at d e = None \<Longrightarrow>
   \<forall>env \<in> set envs. is_range (pe_range env) \<and> \<not> mentions env e \<Longrightarrow>
   user_at (snd (polls envs (c, d))) e = None"
proof (induction envs arbitrary: c d)
  case (Cons env envs)
  obtain result c1 d1 where "Collector_Collect env c d = (result, c1, d1)"
    by (cases "Collector_Collect env c d") auto
  with forgotten_Collect [OF Cons.prems(1,2) _ _ this] Cons show ?case by simp
qed simp



lemma row_grows_Some: "row_grows (Some u) v \<Longrightarrow> v \<noteq> None"
  by (simp add: row_grows_def split: option.splits)

lemma apply_deltas_row: "dl \<in> set dls \<Longrightarrow> row_in (fold (apply_delta t) dls rows) (dl_Email dl) \<noteq> None"
proof (induction dls arbitrary: rows)
  case (Cons x dls)
  show ?case
  proof (cases "dl = x")
    case True
    then obtain u where "row_in (apply_delta t x rows) (dl_Email dl) = Some u" by (simp add: find_apply_delta)
    with grows_fold [where f = "apply_delta t" and rows = "apply_delta t x rows" and xs = dls and e = "dl_Email dl"]
      grows_delta have "row_in (fold (apply_delta t) dls (apply_delta t x rows)) (dl_Email dl) \<noteq> None"
      by (metis row_grows_Some)
    then show ?thesis by simp
  qed (use Cons in simp)
qed simp

lemma ApplyPoll_creates:
  assumes "dl \<in> set dls"
  shows "user_at (ApplyPoll d dls [] roster t) (dl_Email dl) \<noteq> None"
proof -
  let ?d = "d\<lparr>db_users := fold (apply_delta t) dls (db_users d)\<rparr>"
  obtain u where "user_at ?d (dl_Email dl) = Some u"
    using apply_deltas_row [OF assms, of t "db_users d"] by (auto simp: user_at_def)
  moreover have "ApplyPoll ?d [] [] roster t = ApplyPoll d dls [] roster t"
    by (simp add: ApplyPoll_def)
  ultimately show ?thesis
    using poll_row_grows [of ?d "dl_Email dl" "[]" "[]" roster t] by (metis row_grows_Some)
qed

text \<open>
  The window the purge does not cover: a poll that has taken its batch before the purge and writes
  it after brings the erased row back.
\<close>

lemma purge_between_sample_and_commit:
  assumes "dl \<in> set (ba_deltas b)" and "ba_presence b = []" and "pe_apply_err env = None"
  shows "user_at (snd (snd (Collect_commit env b (Collector_Purge (dl_Email dl) c)
    (PurgeRosterUser d (dl_Email dl))))) (dl_Email dl) \<noteq> None"
  using assms ApplyPoll_creates [OF assms(1)] by (simp add: Collect_commit_def Let_def)

text \<open>The degraded poll and the parse that never happened.\<close>

lemma user_of_speeds: "us_SpeedUp (user_of roster u) = 0 \<and> us_SpeedDown (user_of roster u) = 0 \<and> \<not> us_Online (user_of roster u)"
  by (simp add: user_of_def Let_def)

text \<open>
  C24. A failed traffic poll is data, not an error: with a readable store it returns the snapshot of
  the last persisted poll marked stale, with every stored user as the store has them (their
  last-known addresses and last-seen times included), nobody online and all speeds zero; and it
  moves no counter, no pending delta and no stored total.
\<close>

theorem failed_poll_serves_stale:
  assumes "pe_traffic env = Inl err" and "pe_users_err env = None" and "pe_geo env = None"
    and "Collector_Collect env c d = (result, c', d')"
  shows "result = Inr \<lparr>sn_CollectedAt = co_collectedAt c, sn_Stale = True, sn_Users = Store_Users d'\<rparr> \<and>
    (\<forall>u \<in> set (Store_Users d'). us_SpeedUp u = 0 \<and> us_SpeedDown u = 0 \<and> \<not> us_Online u) \<and>
    same_traffic c c' \<and> up_of d' e = up_of d e \<and> down_of d' e = down_of d e"
proof -
  let ?c = "(logFailure PollErr err (sampleRoster (pe_roster env) c))\<lparr>co_stale := True\<rparr>"
  from assms have c': "c' = fst (flushRoster env ?c d)" and d': "d' = snd (flushRoster env ?c d)"
    and result: "result = Collector_snapshot env c' d' [] []"
    by (auto simp: Collector_Collect_def Let_def split: prod.splits)
  have "same_traffic c ?c" using same_traffic_sampleRoster [of c] by (simp add: same_traffic_def)
  then have same: "same_traffic c c'" unfolding c' by (rule same_traffic_trans [OF _ same_traffic_flushRoster])
  have kept: "co_stale c' \<and> co_collectedAt c' = co_collectedAt c"
    by (simp add: c' flushRoster_def logFailure_def logRecovery_def settle_roster_def sampleRoster_def
        split: option.split prod.split)
  have "up_of d' e = up_of d e \<and> down_of d' e = down_of d e"
    by (simp add: d' flushRoster_def stored_up_down moved_def split: option.split)
  moreover have "\<forall>u \<in> set (Store_Users d'). us_SpeedUp u = 0 \<and> us_SpeedDown u = 0 \<and> \<not> us_Online u"
    by (auto simp: Store_Users_def user_of_speeds)
  ultimately show ?thesis
    using same kept assms(2,3) by (simp add: result Collector_snapshot_def overlay_def Let_def map_idI)
qed

theorem failed_poll_serves_stale_witness:
  "\<exists>c' d'. Collector_Collect ((poll_at 5 [])\<lparr>pe_traffic := Inl ''down''\<rparr>) NewCollector with_ann =
     (Inr \<lparr>sn_CollectedAt = 0, sn_Stale = True, sn_Users = Store_Users d'\<rparr>, c', d') \<and> same_traffic NewCollector c'"
proof -
  obtain result c' d' where
    run: "Collector_Collect ((poll_at 5 [])\<lparr>pe_traffic := Inl ''down''\<rparr>) NewCollector with_ann = (result, c', d')"
    by (cases "Collector_Collect ((poll_at 5 [])\<lparr>pe_traffic := Inl ''down''\<rparr>) NewCollector with_ann") auto
  have env: "pe_traffic ((poll_at 5 [])\<lparr>pe_traffic := Inl ''down''\<rparr>) = Inl ''down''"
    "pe_users_err ((poll_at 5 [])\<lparr>pe_traffic := Inl ''down''\<rparr>) = None"
    "pe_geo ((poll_at 5 [])\<lparr>pe_traffic := Inl ''down''\<rparr>) = None"
    by (simp_all add: poll_at_def)
  have "co_collectedAt NewCollector = 0" by (simp add: NewCollector_def)
  with run failed_poll_serves_stale [OF env run] show ?thesis by auto
qed

definition parsed_version :: "poll_env \<Rightarrow> bool" where
  "parsed_version env \<longleftrightarrow> (\<exists>rp v. pe_roster env = Some (rp, v) \<and> 0 < v)"

lemma sampleRoster_unparsed: "\<not> parsed_version env \<Longrightarrow> sampleRoster (pe_roster env) c = c"
  by (auto simp: sampleRoster_def parsed_version_def split: option.splits)

lemma ApplyPoll_no_parse_roster: "db_roster (ApplyPoll d dls ps None t) = db_roster d"
  by (simp add: ApplyPoll_def)

definition flags_kept :: "db \<Rightarrow> db \<Rightarrow> bool" where
  "flags_kept d d' \<longleftrightarrow> db_roster d' = db_roster d \<and>
     (\<forall>e u. user_at d e = Some u \<longrightarrow>
        (\<exists>v. user_at d' e = Some v \<and> ur_disabled v = ur_disabled u \<and> ur_labels v = ur_labels u))"

lemma flags_kept_trans: "flags_kept a b \<Longrightarrow> flags_kept b c \<Longrightarrow> flags_kept a c"
  by (simp add: flags_kept_def) metis

lemma fold_keeps:
  assumes "\<And>x rows u. row_in rows e = Some u \<Longrightarrow> \<exists>v. row_in (f x rows) e = Some v \<and> P u v"
    and "\<And>u. P u u" and "\<And>u v w. P u v \<Longrightarrow> P v w \<Longrightarrow> P u w" and "row_in rows e = Some u"
  shows "\<exists>v. row_in (fold f xs rows) e = Some v \<and> P u v"
  using assms(4)
proof (induction xs arbitrary: rows u)
  case (Cons x xs)
  from assms(1) [OF Cons.prems] obtain v where v: "row_in (f x rows) e = Some v" "P u v" by blast
  from Cons.IH [OF v(1)] v(2) assms(3) show ?case by auto
qed (use assms(2) in simp)

lemma flags_kept_ApplyPoll: "flags_kept d (ApplyPoll d dls ps None t)"
proof -
  let ?same = "\<lambda>u v. ur_disabled v = ur_disabled u \<and> ur_labels v = ur_labels u"
  have "\<exists>v. row_in (fold (apply_presence t) ps (fold (apply_delta t) dls (db_users d))) e = Some v \<and> ?same u v"
    if "row_in (db_users d) e = Some u" for e u
  proof -
    have "\<exists>v. row_in (fold (apply_delta t) dls (db_users d)) e = Some v \<and> ?same u v"
      by (rule fold_keeps [OF _ _ _ that]) (auto simp: find_apply_delta)
    then obtain v where v: "row_in (fold (apply_delta t) dls (db_users d)) e = Some v" "?same u v" by blast
    have "\<exists>w. row_in (fold (apply_presence t) ps (fold (apply_delta t) dls (db_users d))) e = Some w \<and> ?same v w"
      by (rule fold_keeps [OF _ _ _ v(1)]) (auto simp: find_apply_presence Let_def)
    with v(2) show ?thesis by auto
  qed
  then show ?thesis by (simp add: flags_kept_def ApplyPoll_def user_at_def)
qed

lemma flags_kept_Collect:
  assumes "co_pendingRoster c = None" and "\<not> parsed_version env"
    and poll: "Collector_Collect env c d = (result, c', d')"
  shows "co_pendingRoster c' = None \<and> flags_kept d d'"
proof (cases "\<exists>rs. pe_traffic env = Inr rs \<and> pe_existing_err env = None \<and> pe_apply_err env = None")
  case True
  then obtain rs where ok: "pe_traffic env = Inr rs" "pe_existing_err env = None" "pe_apply_err env = None"
    by blast
  let ?s = "Collect_sample env rs (notePresence (pe_presence env) (logRecovery PollErr c)) d"
  have commit: "Collect_commit env (snd ?s) (fst ?s) d = (result, c', d')"
    using poll ok assms(2) by (simp add: Collector_Collect_def Let_def sampleRoster_unparsed case_prod_beta)
  have "co_pendingRoster (fst ?s) = None"
    by (simp add: Collect_sample_def Let_def pendingRoster_fold_raw assms(1))
  with commit ok have "d' = ApplyPoll d (ba_deltas (snd ?s)) (ba_presence (snd ?s)) None (unix (pe_now env))"
    "co_pendingRoster c' = None"
    by (auto simp: Collect_commit_def Let_def)
  then show ?thesis by (simp add: flags_kept_ApplyPoll)
next
  case False
  with assms have "d' = d \<and> co_pendingRoster c' = None"
    by (auto simp: Collector_Collect_def Collect_sample_def Collect_commit_def flushRoster_def Let_def
        sampleRoster_unparsed pendingRoster_fold_raw split: sum.splits option.splits)
  then show ?thesis by (simp add: flags_kept_def)
qed

text \<open>
  A config that never parsed marks nobody: from a fresh collector, any sequence of polls whose
  roster source is absent or at version zero leaves the Roster table as it is and keeps every
  user's disabled flag and labels.
\<close>

lemma unparsed_config_syncs_nothing:
  assumes "\<forall>env \<in> set envs. \<not> parsed_version env"
  shows "flags_kept d (snd (polls envs (NewCollector, d)))"
proof -
  have "flags_kept d (snd (polls envs (c, d)))" if "co_pendingRoster c = None" for c
    using that assms
  proof (induction envs arbitrary: c d)
    case (Cons env envs)
    obtain result c1 d1 where poll: "Collector_Collect env c d = (result, c1, d1)"
      by (cases "Collector_Collect env c d") auto
    with flags_kept_Collect [OF Cons.prems(1) _ poll] Cons show ?case
      by (auto intro: flags_kept_trans)
  qed (simp add: flags_kept_def)
  then show ?thesis by (simp add: NewCollector_def)
qed

lemma unparsed_config_syncs_nothing_witness: "flags_kept with_ann (snd (polls [poll_at 5 []] (NewCollector, with_ann)))"
  by (rule unparsed_config_syncs_nothing) (simp add: poll_at_def parsed_version_def)

end
