(* ===== verification/GoJson.thy ===== *)
theory GoJson
  imports Prelude
begin

text \<open>
  JSON strings as Go's \<^verbatim>\<open>encoding/json\<close> writes and reads them: \<^verbatim>\<open>json.Marshal\<close> and
  \<^verbatim>\<open>json.Unmarshal\<close> of a string, over \<^verbatim>\<open>unicode/utf8\<close>.  They are the language's library, not
  code of the repository; the render of the xray config writes every email, id and flow through
  one and reads every key and value through the other.  What is written reads back, up to bytes
  that are not UTF-8.
\<close>

section \<open>UTF-8\<close>

definition cont_byte :: "nat \<Rightarrow> nat \<Rightarrow> nat \<Rightarrow> bool" where
  "cont_byte lo hi b \<longleftrightarrow> lo \<le> b \<and> b \<le> hi"

text \<open>The accepted second byte for a first byte, as in the tables of \<^verbatim>\<open>unicode/utf8\<close>.\<close>

definition second_ok :: "nat \<Rightarrow> nat \<Rightarrow> bool" where
  "second_ok b0 b1 \<longleftrightarrow>
     (if b0 = 224 then cont_byte 160 191 b1
      else if b0 = 237 then cont_byte 128 159 b1
      else if b0 = 240 then cont_byte 144 191 b1
      else if b0 = 244 then cont_byte 128 143 b1
      else cont_byte 128 191 b1)"

definition rune_error :: nat where
  "rune_error = 65533"

text \<open>\<^verbatim>\<open>utf8.DecodeRune\<close>: the rune and its size; an invalid first byte is (U+FFFD, 1).\<close>

definition decode_rune :: "string \<Rightarrow> nat \<times> nat" where
  "decode_rune s =
     (case map of_char s of
        [] \<Rightarrow> (rune_error, 0)
      | b0 # r \<Rightarrow>
        if b0 < 128 then (b0, 1)
        else if 194 \<le> b0 \<and> b0 \<le> 223 then
          (case r of b1 # _ \<Rightarrow>
             if cont_byte 128 191 b1 then ((b0 - 192) * 64 + (b1 - 128), 2) else (rune_error, 1)
           | [] \<Rightarrow> (rune_error, 1))
        else if 224 \<le> b0 \<and> b0 \<le> 239 then
          (case r of b1 # b2 # _ \<Rightarrow>
             if second_ok b0 b1 \<and> cont_byte 128 191 b2
             then ((b0 - 224) * 4096 + (b1 - 128) * 64 + (b2 - 128), 3) else (rune_error, 1)
           | _ \<Rightarrow> (rune_error, 1))
        else if 240 \<le> b0 \<and> b0 \<le> 244 then
          (case r of b1 # b2 # b3 # _ \<Rightarrow>
             if second_ok b0 b1 \<and> cont_byte 128 191 b2 \<and> cont_byte 128 191 b3
             then ((b0 - 240) * 262144 + (b1 - 128) * 4096 + (b2 - 128) * 64 + (b3 - 128), 4)
             else (rune_error, 1)
           | _ \<Rightarrow> (rune_error, 1))
        else (rune_error, 1))"

text \<open>\<^verbatim>\<open>utf8.EncodeRune\<close>: surrogates and runes past U+10FFFF become U+FFFD.\<close>

definition encode_rune :: "nat \<Rightarrow> string" where
  "encode_rune r0 =
     (let r = (if 55296 \<le> r0 \<and> r0 \<le> 57343 \<or> r0 > 1114111 then rune_error else r0)
      in map char_of
        (if r < 128 then [r]
         else if r < 2048 then [192 + r div 64, 128 + r mod 64]
         else if r < 65536 then [224 + r div 4096, 128 + r div 64 mod 64, 128 + r mod 64]
         else [240 + r div 262144, 128 + r div 4096 mod 64, 128 + r div 64 mod 64, 128 + r mod 64]))"

abbreviation bad_rune :: "string \<Rightarrow> bool" where
  "bad_rune s \<equiv> decode_rune s = (rune_error, 1)"

text \<open>Every byte that starts no valid rune replaced by U+FFFD, as ranging over a string does.\<close>

function to_valid_utf8 :: "string \<Rightarrow> string" where
  "to_valid_utf8 [] = []"
| "to_valid_utf8 (c # s) =
     encode_rune (fst (decode_rune (c # s))) @ to_valid_utf8 (drop (snd (decode_rune (c # s)) - 1) s)"
  by pat_completeness auto
termination by (relation "measure length") auto

section \<open>String literals\<close>

definition hexdigit :: "nat \<Rightarrow> char" where
  "hexdigit n = (if n < 10 then char_of (48 + n) else char_of (87 + n))"

definition unhex :: "char \<Rightarrow> nat option" where
  "unhex c =
     (let b = of_char c in
      if 48 \<le> b \<and> b \<le> 57 then Some (b - 48)
      else if 97 \<le> b \<and> b \<le> 102 then Some (b - 87)
      else if 65 \<le> b \<and> b \<le> 70 then Some (b - 55)
      else None)"

text \<open>One ASCII byte as \<^verbatim>\<open>json.Marshal\<close> writes it inside a string, HTML escaping on.\<close>

definition escape_ascii :: "char \<Rightarrow> string" where
  "escape_ascii c =
     (let b = of_char c in
      if b = 92 \<or> b = 34 then [CHR 92, c]
      else if b = 8 then [CHR 92, CHR ''b'']
      else if b = 12 then [CHR 92, CHR ''f'']
      else if b = 10 then [CHR 92, CHR ''n'']
      else if b = 13 then [CHR 92, CHR ''r'']
      else if b = 9 then [CHR 92, CHR ''t'']
      else if b < 32 \<or> b = 38 \<or> b = 60 \<or> b = 62
        then [CHR 92, CHR ''u'', CHR ''0'', CHR ''0'', hexdigit (b div 16), hexdigit (b mod 16)]
      else [c])"

function quote_body :: "string \<Rightarrow> string" where
  "quote_body [] = []"
| "quote_body (c # s) =
     (let (r, n) = decode_rune (c # s) in
      if of_char c < (128 :: nat) then escape_ascii c @ quote_body s
      else if r = rune_error \<and> n = 1 then [CHR 92] @ ''ufffd'' @ quote_body s
      else if r = 8232 \<or> r = 8233
        then [CHR 92] @ ''u202'' @ [hexdigit (r mod 16)] @ quote_body (drop (n - 1) s)
      else take n (c # s) @ quote_body (drop (n - 1) s))"
  by pat_completeness auto
termination by (relation "measure length") auto

text \<open>\<^verbatim>\<open>json.Marshal\<close> of a string.\<close>

definition json_quote :: "string \<Rightarrow> string" where
  "json_quote s = CHR 34 # quote_body s @ [CHR 34]"

text \<open>The four hex digits of a \<^verbatim>\<open>\u\<close> escape (\<^verbatim>\<open>getu4\<close> behind its \<^verbatim>\<open>\u\<close>).\<close>

definition hex4 :: "string \<Rightarrow> nat option" where
  "hex4 s =
     (case s of a # b # c # d # _ \<Rightarrow>
        (case (unhex a, unhex b, unhex c, unhex d) of
           (Some w, Some x, Some y, Some z) \<Rightarrow> Some (w * 4096 + x * 256 + y * 16 + z)
         | _ \<Rightarrow> None)
      | _ \<Rightarrow> None)"

definition getu4 :: "string \<Rightarrow> nat option" where
  "getu4 s = (if take 2 s = [CHR 92, CHR ''u''] then hex4 (drop 2 s) else None)"

text \<open>A surrogate followed by an escape that completes it (\<^verbatim>\<open>utf16.DecodeRune\<close>).\<close>

definition surrogate_pair :: "nat \<Rightarrow> string \<Rightarrow> nat option" where
  "surrogate_pair r s =
     (case getu4 s of None \<Rightarrow> None
      | Some r1 \<Rightarrow> if 55296 \<le> r \<and> r < 56320 \<and> 56320 \<le> r1 \<and> r1 < 57344
          then Some ((r - 55296) * 1024 + (r1 - 56320) + 65536) else None)"

definition simple_escape :: "char \<Rightarrow> char option" where
  "simple_escape e =
     (if e = CHR 34 \<or> e = CHR 92 \<or> e = CHR ''/'' then Some e
      else if e = CHR ''b'' then Some (CHR 8)
      else if e = CHR ''f'' then Some (CHR 12)
      else if e = CHR ''n'' then Some (CHR 10)
      else if e = CHR ''r'' then Some (CHR 13)
      else if e = CHR ''t'' then Some (CHR 9)
      else None)"

text \<open>The bytes between the quotes, decoded; \<^const>\<open>None\<close> is a malformed literal.\<close>

function unquote_body :: "string \<Rightarrow> string option" where
  "unquote_body [] = Some []"
| "unquote_body (c # s) =
     (if c = CHR 92 then
        (case s of [] \<Rightarrow> None
         | e # t \<Rightarrow>
           if e = CHR ''u'' then
             (case hex4 t of None \<Rightarrow> None
              | Some r \<Rightarrow>
                if 55296 \<le> r \<and> r < 57344 then
                  (case surrogate_pair r (drop 4 t) of
                     Some d \<Rightarrow> map_option ((@) (encode_rune d)) (unquote_body (drop 10 t))
                   | None \<Rightarrow> map_option ((@) (encode_rune rune_error)) (unquote_body (drop 4 t)))
                else map_option ((@) (encode_rune r)) (unquote_body (drop 4 t)))
           else (case simple_escape e of None \<Rightarrow> None
                 | Some x \<Rightarrow> map_option (Cons x) (unquote_body t)))
      else if c = CHR 34 \<or> of_char c < (32 :: nat) then None
      else map_option ((@) (encode_rune (fst (decode_rune (c # s)))))
             (unquote_body (drop (snd (decode_rune (c # s)) - 1) s)))"
  by pat_completeness auto
termination by (relation "measure length") auto

text \<open>\<^verbatim>\<open>json.Unmarshal\<close> of one string literal into a string.\<close>

definition json_unquote :: "string \<Rightarrow> string option" where
  "json_unquote lit =
     (if 2 \<le> length lit \<and> hd lit = CHR 34 \<and> last lit = CHR 34
      then unquote_body (butlast (tl lit)) else None)"

subsection \<open>Reading what was written\<close>

lemma of_char_lt [simp]: "of_char c < (256 :: nat)"
  by (metis nat_of_char_less_256)

lemma char_of_of_char_lt: "n < 256 \<Longrightarrow> of_char (char_of n :: char) = (n :: nat)"
  by simp

lemma unhex_hexdigit: "n < 16 \<Longrightarrow> unhex (hexdigit n) = Some n"
  by (auto simp: unhex_def hexdigit_def Let_def)

lemma hex4_ascii:
  "b < 256 \<Longrightarrow> hex4 (CHR ''0'' # CHR ''0'' # hexdigit (b div 16) # hexdigit (b mod 16) # t) = Some b"
proof -
  assume "b < 256"
  then have "b div 16 < 16" by simp
  moreover have "b mod 16 < 16" by simp
  moreover have "unhex CHR ''0'' = Some 0" by (simp add: unhex_def)
  ultimately show ?thesis by (simp add: hex4_def unhex_hexdigit)
qed

lemma encode_ascii: "b < 128 \<Longrightarrow> encode_rune b = [char_of b]"
  by (simp add: encode_rune_def rune_error_def Let_def)

lemma decode_ascii: "of_char c < (128 :: nat) \<Longrightarrow> decode_rune (c # s) = (of_char c, 1)"
  by (simp add: decode_rune_def)

lemma append_singleton: "(@) [c] = Cons c"
  by auto

lemma unquote_plain:
  "of_char c < (128 :: nat) \<Longrightarrow> \<not> of_char c < (32 :: nat) \<Longrightarrow> c \<noteq> CHR 34 \<Longrightarrow> c \<noteq> CHR 92 \<Longrightarrow>
   unquote_body (c # t) = map_option (Cons c) (unquote_body t)"
  by (simp add: decode_ascii encode_ascii append_singleton)

lemma unquote_simple:
  "simple_escape e = Some x \<Longrightarrow> e \<noteq> CHR ''u'' \<Longrightarrow>
   unquote_body (CHR 92 # e # t) = map_option (Cons x) (unquote_body t)"
  by simp


lemma escape_escaped:
  assumes "c \<in> {CHR 92, CHR 34, CHR 8, CHR 12, CHR 10, CHR 13, CHR 9}"
  shows "\<exists>e. escape_ascii c = [CHR 92, e] \<and> e \<noteq> CHR ''u'' \<and> simple_escape e = Some c"
  using assms by (elim insertE) (simp_all add: escape_ascii_def simple_escape_def)

lemma unquote_escape:
  assumes "of_char c < (128 :: nat)"
  shows "unquote_body (escape_ascii c @ t) = map_option (Cons c) (unquote_body t)"
proof -
  define b :: nat where "b = of_char c"
  have c: "c = char_of b" by (simp add: b_def)
  consider (simple) "b \<in> {92, 34, 8, 12, 10, 13, 9}"
    | (hex) "b \<notin> {92, 34, 8, 12, 10, 13, 9}" "b < 32 \<or> b = 38 \<or> b = 60 \<or> b = 62"
    | (plain) "b \<notin> {92, 34, 8, 12, 10, 13, 9}" "\<not> (b < 32 \<or> b = 38 \<or> b = 60 \<or> b = 62)"
    by blast
  then show ?thesis
  proof cases
    case simple
    then have "of_char c \<in> (of_char :: char \<Rightarrow> nat) ` {CHR 92, CHR 34, CHR 8, CHR 12, CHR 10, CHR 13, CHR 9}"
      by (simp add: b_def)
    then have "c \<in> {CHR 92, CHR 34, CHR 8, CHR 12, CHR 10, CHR 13, CHR 9}"
      by (simp only: inj_image_mem_iff inj_of_char)
    from escape_escaped [OF this] show ?thesis by (auto simp: unquote_simple simp del: unquote_body.simps)
  next
    case hex
    then have "escape_ascii c = [CHR 92, CHR ''u'', CHR ''0'', CHR ''0'', hexdigit (b div 16), hexdigit (b mod 16)]"
      by (auto simp: escape_ascii_def Let_def simp flip: b_def)
    moreover have "b < 128" using assms by (simp add: b_def)
    ultimately show ?thesis
      by (simp add: hex4_ascii encode_ascii append_singleton flip: c)
  next
    case plain
    then have "escape_ascii c = [c]"
      by (auto simp: escape_ascii_def Let_def simp flip: b_def)
    moreover have "c \<noteq> CHR 34" "c \<noteq> CHR 92"
      using plain(1) by (auto simp: b_def)
    moreover have "\<not> of_char c < (32 :: nat)" using plain(2) by (simp add: b_def)
    ultimately show ?thesis using assms by (simp add: unquote_plain del: unquote_body.simps)
  qed
qed


lemma encode_rune2:
  assumes "2 \<le> x" "x < 32" "y < 64"
  shows "encode_rune (x * 64 + y) = map char_of [192 + x, 128 + y]"
proof -
  have "(x * 64 + y) div 64 = x" "(x * 64 + y) mod 64 = y" using assms by auto
  moreover have "\<not> x * 64 + y < 128" "x * 64 + y < 2048" using assms by auto
  ultimately show ?thesis by (simp add: encode_rune_def Let_def)
qed

lemma encode_rune3:
  assumes "x < 16" "y < 64" "z < 64" "x = 0 \<Longrightarrow> 32 \<le> y" "x = 13 \<Longrightarrow> y < 32"
  shows "encode_rune (x * 4096 + y * 64 + z) = map char_of [224 + x, 128 + y, 128 + z]"
proof -
  let ?r = "x * 4096 + y * 64 + z"
  have r: "?r = (x * 64 + y) * 64 + z" by simp
  have "?r div 64 = x * 64 + y" unfolding r using assms(3) by simp
  moreover have "?r mod 64 = z" unfolding r mod_mult_self3 using assms(3) by (rule mod_less)
  moreover have "?r div 4096 = x" using assms(2,3) by (intro div_nat_eqI) auto
  moreover have "(x * 64 + y) mod 64 = y" using assms(2) by simp
  moreover have "2048 \<le> ?r" "?r < 65536" using assms(1-4) by (cases "x = 0", auto)+
  moreover have "\<not> (55296 \<le> ?r \<and> ?r \<le> 57343)"
    using assms(2,3,5) by (cases "x < 13"; cases "x = 13") auto
  ultimately show ?thesis unfolding encode_rune_def Let_def by auto
qed

lemma encode_rune4:
  assumes "w < 5" "x < 64" "y < 64" "z < 64" "w = 0 \<Longrightarrow> 16 \<le> x" "w = 4 \<Longrightarrow> x < 16"
  shows "encode_rune (w * 262144 + x * 4096 + y * 64 + z) =
    map char_of [240 + w, 128 + x, 128 + y, 128 + z]"
proof -
  let ?r = "w * 262144 + x * 4096 + y * 64 + z"
  have r: "?r = ((w * 64 + x) * 64 + y) * 64 + z" by simp
  have d1: "?r div 64 = (w * 64 + x) * 64 + y" unfolding r using assms(4) by simp
  have d2: "?r mod 64 = z" unfolding r mod_mult_self3 using assms(4) by (rule mod_less)
  have d3: "?r div 4096 = w * 64 + x" using assms(3,4) by (intro div_nat_eqI) auto
  have d4: "?r div 262144 = w" using assms(2-4) by (intro div_nat_eqI) auto
  have m: "((w * 64 + x) * 64 + y) mod 64 = y" "(w * 64 + x) mod 64 = x"
    unfolding mod_mult_self3 using assms(2,3) by (simp_all only: mod_less)
  have lo: "65536 \<le> ?r" using assms(1,5) by (cases "w = 0") auto
  have hi: "?r \<le> 1114111" using assms(1-4,6) by (cases "w = 4") auto
  have e: "encode_rune ?r = map char_of
      [240 + ?r div 262144, 128 + ?r div 4096 mod 64, 128 + ?r div 64 mod 64, 128 + ?r mod 64]"
    unfolding encode_rune_def Let_def using lo hi by auto
  show ?thesis unfolding e d1 d2 d3 d4 m by simp
qed

lemma second_high: "second_ok a b \<Longrightarrow> \<not> b < 128"
  by (auto simp: second_ok_def cont_byte_def split: if_splits)

lemma decode_multi:
  assumes "\<not> of_char c < (128 :: nat)" and "decode_rune (c # s) = (r, n)"
    and "\<not> (r = rune_error \<and> n = 1)"
  shows "2 \<le> n \<and> n \<le> length (c # s) \<and> encode_rune r = take n (c # s) \<and>
    (\<forall>t. decode_rune (take n (c # s) @ t) = (r, n)) \<and>
    (\<forall>b \<in> set (take n (c # s)). \<not> of_char b < (128 :: nat))"
proof -
  consider (two) d u where "194 \<le> (of_char c :: nat)" "of_char c \<le> (223 :: nat)" "s = d # u"
      "cont_byte 128 191 (of_char d)" "r = (of_char c - 192) * 64 + (of_char d - 128)" "n = 2"
    | (three) d e u where "224 \<le> (of_char c :: nat)" "of_char c \<le> (239 :: nat)" "s = d # e # u"
      "second_ok (of_char c) (of_char d)" "cont_byte 128 191 (of_char e)"
      "r = (of_char c - 224) * 4096 + (of_char d - 128) * 64 + (of_char e - 128)" "n = 3"
    | (four) d e f u where "240 \<le> (of_char c :: nat)" "of_char c \<le> (244 :: nat)" "s = d # e # f # u"
      "second_ok (of_char c) (of_char d)" "cont_byte 128 191 (of_char e)" "cont_byte 128 191 (of_char f)"
      "r = (of_char c - 240) * 262144 + (of_char d - 128) * 4096 + (of_char e - 128) * 64 + (of_char f - 128)" "n = 4"
    using assms by (auto simp: decode_rune_def Let_def split: if_splits list.splits)
  then show ?thesis
  proof cases
    case two
    have "encode_rune r = [c, d]" unfolding two(5)
      by (subst encode_rune2) (use two in \<open>auto simp: cont_byte_def\<close>)
    with two assms(1) show ?thesis by (simp add: decode_rune_def cont_byte_def)
  next
    case three
    have "encode_rune r = [c, d, e]" unfolding three(6)
      by (subst encode_rune3) (use three in \<open>auto simp: cont_byte_def second_ok_def split: if_splits\<close>)
    with three assms(1) second_high [OF three(4)] show ?thesis by (simp add: decode_rune_def cont_byte_def)
  next
    case four
    have "encode_rune r = [c, d, e, f]" unfolding four(7)
      by (subst encode_rune4) (use four in \<open>auto simp: cont_byte_def second_ok_def split: if_splits\<close>)
    with four assms(1) second_high [OF four(4)] show ?thesis by (simp add: decode_rune_def cont_byte_def)
  qed
qed


lemma decode_multi_high:
  assumes "\<not> of_char c < (128 :: nat)"
  shows "\<not> of_char c < (32 :: nat)" "c \<noteq> CHR 34" "c \<noteq> CHR 92"
  using assms by auto

lemma unquote_multi:
  assumes "\<not> of_char c < (128 :: nat)" and "decode_rune (c # s) = (r, n)"
    and "\<not> (r = rune_error \<and> n = 1)"
  shows "unquote_body (take n (c # s) @ t) = map_option ((@) (encode_rune r)) (unquote_body t)"
proof -
  note m = decode_multi [OF assms]
  then obtain k where n: "n = Suc k" "k \<le> length s" by (cases n) auto
  have "decode_rune (c # take k s @ t) = (r, n)" using m n by simp
  then show ?thesis using decode_multi_high [OF assms(1)] n by simp
qed

lemma hex4_fffd: "hex4 (''fffd'' @ t) = Some rune_error"
  by (simp add: hex4_def unhex_def rune_error_def)

lemma hex4_line_separator:
  "r = 8232 \<or> r = 8233 \<Longrightarrow> hex4 (''202'' @ hexdigit (r mod 16) # t) = Some r"
  by (auto simp: hex4_def unhex_def hexdigit_def)

lemma unquote_u:
  assumes "hex4 t = Some r" and "\<not> (55296 \<le> r \<and> r < 57344)"
  shows "unquote_body (CHR 92 # CHR ''u'' # t) = map_option ((@) (encode_rune r)) (unquote_body (drop 4 t))"
  using assms by auto

lemma unquote_quote_body: "unquote_body (quote_body s) = Some (to_valid_utf8 s)"
proof (induction s rule: quote_body.induct)
  case 1
  then show ?case by simp
next
  case (2 c s)
  obtain r n where d: "decode_rune (c # s) = (r, n)" by (cases "decode_rune (c # s)")
  note IH = 2(1) [OF d [symmetric] refl] 2(2-4) [OF d [symmetric] refl]
  consider (ascii) "of_char c < (128 :: nat)"
    | (bad) "\<not> of_char c < (128 :: nat)" "r = rune_error \<and> n = 1"
    | (sep) "\<not> of_char c < (128 :: nat)" "\<not> (r = rune_error \<and> n = 1)" "r = 8232 \<or> r = 8233"
    | (multi) "\<not> of_char c < (128 :: nat)" "\<not> (r = rune_error \<and> n = 1)" "\<not> (r = 8232 \<or> r = 8233)"
    by blast
  then show ?case
  proof cases
    case ascii
    then show ?thesis using IH(1)
      by (simp add: decode_ascii unquote_escape encode_ascii del: unquote_body.simps)
  next
    case bad
    have "unquote_body (quote_body (c # s)) = map_option ((@) (encode_rune rune_error)) (unquote_body (quote_body s))"
      using bad d unquote_u [OF hex4_fffd [of "quote_body s"]]
      by (simp add: rune_error_def del: unquote_body.simps)
    then show ?thesis using IH(2) bad d by simp
  next
    case sep
    have "unquote_body (quote_body (c # s)) =
        map_option ((@) (encode_rune r)) (unquote_body (quote_body (drop (n - 1) s)))"
      using sep d unquote_u [OF hex4_line_separator [OF sep(3), of "quote_body (drop (n - 1) s)"]]
      by (auto simp del: unquote_body.simps)
    then show ?thesis using IH(3) sep d by simp
  next
    case multi
    have "unquote_body (quote_body (c # s)) =
        map_option ((@) (encode_rune r)) (unquote_body (quote_body (drop (n - 1) s)))"
      using multi d unquote_multi [OF multi(1) d multi(2)]
      by (auto simp del: unquote_body.simps take_Cons' take_Suc_Cons)
    then show ?thesis using IH(4) multi d by simp
  qed
qed

lemma unquote_quote: "json_unquote (json_quote s) = Some (to_valid_utf8 s)"
  by (simp add: json_unquote_def json_quote_def unquote_quote_body)


text \<open>\<^verbatim>\<open>utf8.ValidString\<close>: no byte is left over.\<close>

function valid_utf8 :: "string \<Rightarrow> bool" where
  "valid_utf8 [] = True"
| "valid_utf8 (c # s) = (\<not> bad_rune (c # s) \<and> valid_utf8 (drop (snd (decode_rune (c # s)) - 1) s))"
  by pat_completeness auto
termination by (relation "measure length") auto

lemma to_valid_utf8_id: "valid_utf8 s \<Longrightarrow> to_valid_utf8 s = s"
proof (induction s rule: valid_utf8.induct)
  case (2 c s)
  obtain r n where d: "decode_rune (c # s) = (r, n)" by (cases "decode_rune (c # s)")
  show ?case
  proof (cases "of_char c < (128 :: nat)")
    case True
    with 2 show ?thesis by (simp add: decode_ascii encode_ascii)
  next
    case False
    have "\<not> (r = rune_error \<and> n = 1)" using 2(2) d by simp
    from decode_multi [OF False d this] have "2 \<le> n" "encode_rune r = take n (c # s)" by auto
    with 2 d show ?thesis by (cases n) auto
  qed
qed simp

lemma valid_utf8_ascii: "\<forall>c \<in> set s. of_char c < (128 :: nat) \<Longrightarrow> valid_utf8 s"
  by (induction s) (auto simp: decode_ascii rune_error_def)

section \<open>Plain strings\<close>

text \<open>Strings of letters, digits and a few signs are written as they are; for evaluation.\<close>

definition plain_byte :: "char \<Rightarrow> bool" where
  "plain_byte c \<longleftrightarrow> c \<in> set ''abcdefghijklmnopqrstuvwxyz0123456789-_@.''"

lemma plain_byte_ascii: "plain_byte c \<Longrightarrow> of_char c < (128 :: nat) \<and> escape_ascii c = [c]"
  unfolding plain_byte_def by (simp, elim disjE; simp add: escape_ascii_def)

lemma quote_plain: "list_all plain_byte s \<Longrightarrow> json_quote s = CHR 34 # s @ [CHR 34]"
proof -
  assume "list_all plain_byte s"
  then have "quote_body s = s" by (induction s) (auto simp: decode_ascii plain_byte_ascii)
  then show ?thesis by (simp add: json_quote_def)
qed

lemma valid_plain: "list_all plain_byte s \<Longrightarrow> to_valid_utf8 s = s"
  by (auto simp: list_all_iff plain_byte_ascii intro!: to_valid_utf8_id valid_utf8_ascii)

declare to_valid_utf8.simps(2) [simp del] quote_body.simps(2) [simp del] unquote_body.simps(2) [simp del] valid_utf8.simps(2) [simp del]

text \<open>
  What the panel writes as a JSON string reads back as the same string when it is valid UTF-8;
  otherwise each stray byte has become U+FFFD, as ranging over the string would show it.
\<close>

lemma written_string_reads_back:
  "json_unquote (json_quote s) = Some (to_valid_utf8 s) \<and>
   (valid_utf8 s \<longrightarrow> json_unquote (json_quote s) = Some s)"
  by (simp add: unquote_quote to_valid_utf8_id)

end
