(* ===== verification/Jsonc.thy ===== *)
theory Jsonc
  imports GoJson
begin

text \<open>
  The span-carrying JSONC parser of \<^verbatim>\<open>src/internal/xrayconfig/render.go\<close>: \<^verbatim>\<open>node\<close>,
  \<^verbatim>\<open>jsoncParser\<close> and \<^verbatim>\<open>parseJSONC\<close>.

  A document is a byte string and a position an offset into it, as in the code.  The three
  recursive functions of the parser carry fuel; \<^const>\<open>None\<close> is a parse that has not returned
  within it.  The lemmas bound every span, bound the fuel by the length of the document and find
  the only place where no fuel is enough.
\<close>

section \<open>The parser\<close>

text \<open>
  \<^verbatim>\<open>node\<close>: kind, byte span, decoded value of a string, the keys and key offsets of an object,
  the values or elements, the separator commas of an array and the trailing-comma mark.
\<close>

datatype node =
  Node (kind: char) (nstart: nat) (nend: nat) (nvalue: string) (keys: "string list")
    (propStarts: "nat list") (items: "node list") (commas: "nat list") (trailing: bool)

datatype parse_error =
    UnexpectedEnd
  | UnterminatedObject nat
  | MissingColon nat
  | UnterminatedArray nat
  | MalformedString nat
  | UnterminatedString nat
  | TrailingContent nat

fun node_get :: "node \<Rightarrow> string \<Rightarrow> node option" where
  "node_get (Node k _ _ _ ks _ its _ _) key =
     (if k \<noteq> CHR ''{'' then None else map_of (zip ks its) key)"

subsection \<open>Scanning\<close>

definition blank_char :: "char \<Rightarrow> bool" where
  "blank_char c \<longleftrightarrow> c = CHR '' '' \<or> c = CHR 9 \<or> c = CHR 13 \<or> c = CHR 10"

text \<open>The two inner loops of \<^verbatim>\<open>blank\<close>: to the end of the line, to the end of the comment.\<close>

function skip_line :: "string \<Rightarrow> nat \<Rightarrow> nat" where
  "skip_line src p = (if p < length src \<and> src ! p \<noteq> CHR 10 then skip_line src (p + 1) else p)"
  by pat_completeness auto
termination by (relation "measure (\<lambda>(src, p). length src - p)") auto

function skip_block :: "string \<Rightarrow> nat \<Rightarrow> nat" where
  "skip_block src p =
     (if p + 1 < length src \<and> \<not> (src ! p = CHR ''*'' \<and> src ! (p + 1) = CHR ''/'')
      then skip_block src (p + 1) else p + 2)"
  by pat_completeness auto
termination by (relation "measure (\<lambda>(src, p). length src - p)") auto

declare skip_line.simps [simp del] skip_block.simps [simp del]

lemma skip_line_ge: "p \<le> skip_line src p"
  by (induction src p rule: skip_line.induct) (subst skip_line.simps, auto)

lemma skip_block_ge: "p < skip_block src p"
  by (induction src p rule: skip_block.induct) (subst skip_block.simps, auto)

function blank :: "string \<Rightarrow> nat \<Rightarrow> nat" where
  "blank src p =
     (if p < length src then
        if blank_char (src ! p) then blank src (p + 1)
        else if src ! p = CHR ''/'' \<and> p + 1 < length src \<and> src ! (p + 1) = CHR ''/''
          then blank src (skip_line src (p + 2))
        else if src ! p = CHR ''/'' \<and> p + 1 < length src \<and> src ! (p + 1) = CHR ''*''
          then blank src (skip_block src (p + 2))
        else p
      else p)"
  by pat_completeness auto
termination
  by (relation "measure (\<lambda>(src, p). length src - p)")
    (auto intro!: diff_less_mono2 intro: less_le_trans [OF _ skip_line_ge] less_trans [OF _ skip_block_ge])

function scan_str :: "string \<Rightarrow> nat \<Rightarrow> nat option" where
  "scan_str src p =
     (if p < length src then
        if src ! p = CHR 92 then scan_str src (p + 2)
        else if src ! p = CHR 34 then Some (p + 1)
        else scan_str src (p + 1)
      else None)"
  by pat_completeness auto
termination by (relation "measure (\<lambda>(src, p). length src - p)") auto

definition literal_stop :: "string \<Rightarrow> nat \<Rightarrow> bool" where
  "literal_stop src p \<longleftrightarrow>
     blank_char (src ! p) \<or> src ! p = CHR '','' \<or> src ! p = CHR ''}'' \<or> src ! p = CHR '']'' \<or> src ! p = CHR '':'' \<or>
     (src ! p = CHR ''/'' \<and> p + 1 < length src \<and> (src ! (p + 1) = CHR ''/'' \<or> src ! (p + 1) = CHR ''*''))"

function scan_literal :: "string \<Rightarrow> nat \<Rightarrow> nat" where
  "scan_literal src p = (if p < length src \<and> \<not> literal_stop src p then scan_literal src (p + 1) else p)"
  by pat_completeness auto
termination by (relation "measure (\<lambda>(src, p). length src - p)") auto

declare blank.simps [simp del] scan_str.simps [simp del] scan_literal.simps [simp del]

abbreviation slice :: "string \<Rightarrow> nat \<Rightarrow> nat \<Rightarrow> string" where
  "slice src a b \<equiv> take (b - a) (drop a src)"

definition str :: "string \<Rightarrow> nat \<Rightarrow> parse_error + node \<times> nat" where
  "str src start =
     (case scan_str src (start + 1) of
        None \<Rightarrow> Inl (UnterminatedString start)
      | Some e \<Rightarrow>
          (case json_unquote (slice src start e) of
             None \<Rightarrow> Inl (MalformedString start)
           | Some v \<Rightarrow> Inr (Node (CHR 34) start e v [] [] [] [] False, e)))"

definition literal :: "string \<Rightarrow> nat \<Rightarrow> node \<times> nat" where
  "literal src start =
     (let e = scan_literal src start in (Node (CHR ''l'') start e [] [] [] [] [] False, e))"


subsection \<open>Values, objects and arrays\<close>

text \<open>
  \<^verbatim>\<open>value\<close>, and the loops of \<^verbatim>\<open>object\<close> and \<^verbatim>\<open>array\<close> from the byte behind the opening bracket:
  one call or one turn of a loop, with the parser it calls and the rest of the loop as arguments.
  The recursion is tied in \<^verbatim>\<open>value_at\<close>, \<^verbatim>\<open>object_loop\<close> and \<^verbatim>\<open>array_loop\<close>, where the fuel falls by one
  per call of \<^verbatim>\<open>value\<close> and per turn of a loop.
\<close>

type_synonym parse_result = "(parse_error + node \<times> nat) option"
type_synonym value_parser = "string \<Rightarrow> nat \<Rightarrow> parse_result"
type_synonym object_parser =
  "string \<Rightarrow> nat \<Rightarrow> nat \<Rightarrow> string list \<Rightarrow> nat list \<Rightarrow> node list \<Rightarrow> bool \<Rightarrow> parse_result"
type_synonym array_parser =
  "string \<Rightarrow> nat \<Rightarrow> nat \<Rightarrow> node list \<Rightarrow> nat list \<Rightarrow> bool \<Rightarrow> parse_result"

definition value_call :: "object_parser \<Rightarrow> array_parser \<Rightarrow> value_parser" where
  "value_call object array src p =
     (let q = blank src p in
      if q \<ge> length src then Some (Inl UnexpectedEnd)
      else if src ! q = CHR ''{'' then object src q (q + 1) [] [] [] False
      else if src ! q = CHR ''['' then array src q (q + 1) [] [] False
      else if src ! q = CHR 34 then Some (str src q)
      else Some (Inr (literal src q)))"

definition object_turn :: "value_parser \<Rightarrow> object_parser \<Rightarrow> object_parser" where
  "object_turn val loop src st p ks ps its tr =
     (let q = blank src p in
      if q \<ge> length src then Some (Inl (UnterminatedObject st))
      else if src ! q = CHR ''}''
        then Some (Inr (Node (CHR ''{'') st (q + 1) [] ks ps its [] tr, q + 1))
      else case str src q of
        Inl e \<Rightarrow> Some (Inl e)
      | Inr (key, k) \<Rightarrow>
          let c = blank src k in
          if c \<ge> length src \<or> src ! c \<noteq> CHR '':'' then Some (Inl (MissingColon (nend key)))
          else case val src (c + 1) of
            None \<Rightarrow> None
          | Some (Inl e) \<Rightarrow> Some (Inl e)
          | Some (Inr (v, w)) \<Rightarrow>
              let x = blank src w;
                  ks' = ks @ [nvalue key]; ps' = ps @ [nstart key]; its' = its @ [v] in
              if x < length src \<and> src ! x = CHR '','' then
                let y = blank src (x + 1) in
                loop src st y ks' ps' its' (tr \<or> y < length src \<and> src ! y = CHR ''}'')
              else loop src st x ks' ps' its' tr)"

definition array_turn :: "value_parser \<Rightarrow> array_parser \<Rightarrow> array_parser" where
  "array_turn val loop src st p its cs tr =
     (let q = blank src p in
      if q \<ge> length src then Some (Inl (UnterminatedArray st))
      else if src ! q = CHR '']''
        then Some (Inr (Node (CHR ''['') st (q + 1) [] [] [] its cs tr, q + 1))
      else case val src q of
        None \<Rightarrow> None
      | Some (Inl e) \<Rightarrow> Some (Inl e)
      | Some (Inr (v, w)) \<Rightarrow>
          let x = blank src w; its' = its @ [v] in
          if x < length src \<and> src ! x = CHR '','' then
            let y = blank src (x + 1) in
            loop src st y its' (cs @ [x]) (tr \<or> y < length src \<and> src ! y = CHR '']'')
          else loop src st x its' cs tr)"

fun value_at :: "nat \<Rightarrow> value_parser"
  and object_loop :: "nat \<Rightarrow> object_parser"
  and array_loop :: "nat \<Rightarrow> array_parser" where
  "value_at 0 = (\<lambda>src p. None)"
| "value_at (Suc f) = value_call (object_loop f) (array_loop f)"
| "object_loop 0 = (\<lambda>src st p ks ps its tr. None)"
| "object_loop (Suc f) = object_turn (value_at f) (object_loop f)"
| "array_loop 0 = (\<lambda>src st p its cs tr. None)"
| "array_loop (Suc f) = array_turn (value_at f) (array_loop f)"

lemma parser_code [code]:
  "value_at 0 src p = None"
  "value_at (Suc f) src p = value_call (object_loop f) (array_loop f) src p"
  "object_loop 0 src st p ks ps its tr = None"
  "object_loop (Suc f) src st p ks ps its tr = object_turn (value_at f) (object_loop f) src st p ks ps its tr"
  "array_loop 0 src st p its cs tr = None"
  "array_loop (Suc f) src st p its cs tr = array_turn (value_at f) (array_loop f) src st p its cs tr"
  by simp_all

definition parseJSONC :: "nat \<Rightarrow> string \<Rightarrow> (parse_error + node) option" where
  "parseJSONC fuel document =
     (case value_at fuel document 0 of
        None \<Rightarrow> None
      | Some (Inl e) \<Rightarrow> Some (Inl e)
      | Some (Inr (root, w)) \<Rightarrow>
          let p = blank document w in
          Some (if p \<noteq> length document then Inl (TrailingContent p) else Inr root))"

subsection \<open>Where the scans stop\<close>

lemma blank_ge: "p \<le> blank src p"
proof (induction src p rule: blank.induct)
  case (1 src p)
  then show ?case
    using skip_line_ge [of "p + 2" src] skip_block_ge [of "p + 2" src]
    by (subst blank.simps) (auto simp del: add_2_eq_Suc')
qed

text \<open>A byte that is neither white space nor the start of a comment.\<close>

definition at_token :: "string \<Rightarrow> nat \<Rightarrow> bool" where
  "at_token src p \<longleftrightarrow> p < length src \<and> \<not> blank_char (src ! p) \<and>
     \<not> (src ! p = CHR ''/'' \<and> p + 1 < length src \<and> (src ! (p + 1) = CHR ''/'' \<or> src ! (p + 1) = CHR ''*''))"

lemma blank_at_token [simp]: "at_token src p \<Longrightarrow> blank src p = p"
  by (subst blank.simps) (auto simp: at_token_def)

lemma blank_stop: "blank src p < length src \<Longrightarrow> at_token src (blank src p)"
proof (induction src p rule: blank.induct)
  case (1 src p)
  show ?case
  proof (cases "at_token src p \<or> \<not> p < length src")
    case True
    moreover have "p < length src" using 1(4) blank_ge [of p src] by simp
    ultimately show ?thesis by simp
  next
    case False
    then consider "blank_char (src ! p)" "blank src p = blank src (p + 1)"
      | "\<not> blank_char (src ! p)" "src ! p = CHR ''/'' \<and> p + 1 < length src \<and> src ! (p + 1) = CHR ''/''"
        "blank src p = blank src (skip_line src (p + 2))"
      | "\<not> blank_char (src ! p)" "\<not> (src ! p = CHR ''/'' \<and> p + 1 < length src \<and> src ! (p + 1) = CHR ''/'')"
        "src ! p = CHR ''/'' \<and> p + 1 < length src \<and> src ! (p + 1) = CHR ''*''"
        "blank src p = blank src (skip_block src (p + 2))"
      by (force simp: at_token_def blank.simps [of src p])
    then show ?thesis using 1 False by cases auto
  qed
qed

lemma blank_idem: "blank src p < length src \<Longrightarrow> blank src (blank src p) = blank src p"
  by (rule blank_at_token) (rule blank_stop)

lemma scan_str_bounds: "scan_str src p = Some e \<Longrightarrow> p < e \<and> e \<le> length src \<and> src ! (e - 1) = CHR 34"
proof (induction src p rule: scan_str.induct)
  case (1 src p)
  from 1(3) have "p < length src" by (subst (asm) scan_str.simps) (auto split: if_splits)
  with 1 show ?case by (subst (asm) (3) scan_str.simps) (auto split: if_splits)
qed

lemma scan_literal_bounds: "p \<le> length src \<Longrightarrow> p \<le> scan_literal src p \<and> scan_literal src p \<le> length src"
proof (induction src p rule: scan_literal.induct)
  case (1 src p)
  then show ?case by (subst (1 2) scan_literal.simps) auto
qed

lemma strD: "str src p = Inr (n, w) \<Longrightarrow>
    n = Node (CHR 34) p w (nvalue n) [] [] [] [] False \<and> p + 1 < w \<and> w \<le> length src"
  using scan_str_bounds [of src "p + 1"] by (auto simp: str_def split: option.splits)

lemma literalD: "literal src p = (n, w) \<Longrightarrow> p \<le> length src \<Longrightarrow>
    n = Node (CHR ''l'') p w [] [] [] [] [] False \<and> p \<le> w \<and> w \<le> length src"
  using scan_literal_bounds [of p src] by (auto simp: literal_def Let_def)


section \<open>Spans\<close>

text \<open>The spans of consecutive nodes lie in order between two offsets.\<close>

fun laid_out :: "nat \<Rightarrow> node list \<Rightarrow> nat \<Rightarrow> bool" where
  "laid_out lo [] hi \<longleftrightarrow> lo \<le> hi"
| "laid_out lo (n # ns) hi \<longleftrightarrow> lo \<le> nstart n \<and> nstart n \<le> nend n \<and> laid_out (nend n) ns hi"

text \<open>
  A node as the document has it: the span lies in the document and between the right
  brackets, the children in order inside it, commas and keys inside it too, and the value of a
  string is its literal decoded.
\<close>

fun wf_node :: "string \<Rightarrow> node \<Rightarrow> bool" where
  "wf_node src (Node k s e v ks ps its cs tr) \<longleftrightarrow>
     s \<le> e \<and> e \<le> length src \<and>
     (if k = CHR ''{'' then
        s + 2 \<le> e \<and> src ! s = CHR ''{'' \<and> src ! (e - 1) = CHR ''}'' \<and>
        length ks = length its \<and> length ps = length its \<and> (\<forall>p \<in> set ps. s < p \<and> p < e) \<and>
        laid_out (s + 1) its (e - 1)
      else if k = CHR ''['' then
        s + 2 \<le> e \<and> src ! s = CHR ''['' \<and> src ! (e - 1) = CHR '']'' \<and>
        length cs \<le> length its \<and> (\<forall>c \<in> set cs. s < c \<and> c < e - 1 \<and> src ! c = CHR '','') \<and>
        laid_out (s + 1) its (e - 1)
      else its = [] \<and> (k = CHR 34 \<and> s + 2 \<le> e \<and> json_unquote (slice src s e) = Some v \<or> k = CHR ''l'')) \<and>
     (\<forall>n \<in> set its. wf_node src n)"

lemma laid_out_mono: "laid_out lo ns hi \<Longrightarrow> hi \<le> hi' \<Longrightarrow> laid_out lo ns hi'"
  by (induction lo ns hi rule: laid_out.induct) auto

lemma laid_out_snoc:
  "laid_out lo (ns @ [n]) hi \<longleftrightarrow> laid_out lo ns (nstart n) \<and> nstart n \<le> nend n \<and> nend n \<le> hi"
  by (induction lo ns hi rule: laid_out.induct) auto

lemma laid_out_le: "laid_out lo ns hi \<Longrightarrow> lo \<le> hi"
  by (induction lo ns hi rule: laid_out.induct) auto

lemma laid_out_nth:
  "laid_out lo ns hi \<Longrightarrow> i < length ns \<Longrightarrow>
   lo \<le> nstart (ns ! i) \<and> nstart (ns ! i) \<le> nend (ns ! i) \<and> nend (ns ! i) \<le> hi \<and>
   (\<forall>j. i < j \<longrightarrow> j < length ns \<longrightarrow> nend (ns ! i) \<le> nstart (ns ! j))"
proof (induction lo ns hi arbitrary: i rule: laid_out.induct)
  case (2 lo n ns hi)
  show ?case
  proof (cases i)
    case 0
    then show ?thesis
      using 2 laid_out_le [of "nend n" ns hi] by (auto simp: nth_Cons split: nat.split)
  next
    case (Suc i')
    with 2(1) [of i'] 2(2,3) show ?thesis by (auto simp: nth_Cons split: nat.splits)
  qed
qed simp

definition value_ok :: "value_parser \<Rightarrow> bool" where
  "value_ok V \<longleftrightarrow> (\<forall>src p n w. V src p = Some (Inr (n, w)) \<longrightarrow>
     blank src p = nstart n \<and> nstart n < length src \<and> nend n = w \<and> wf_node src n)"

definition object_ok :: "object_parser \<Rightarrow> bool" where
  "object_ok V \<longleftrightarrow> (\<forall>src st p ks ps its tr n w.
     st < p \<longrightarrow> src ! st = CHR ''{'' \<longrightarrow> laid_out (st + 1) its p \<longrightarrow>
     length ks = length its \<longrightarrow> length ps = length its \<longrightarrow> (\<forall>k \<in> set ps. st < k \<and> k < p) \<longrightarrow>
     (\<forall>n \<in> set its. wf_node src n) \<longrightarrow>
     V src st p ks ps its tr = Some (Inr (n, w)) \<longrightarrow>
     nstart n = st \<and> nend n = w \<and> p < w \<and> wf_node src n)"

definition array_ok :: "array_parser \<Rightarrow> bool" where
  "array_ok V \<longleftrightarrow> (\<forall>src st p its cs tr n w.
     st < p \<longrightarrow> src ! st = CHR ''['' \<longrightarrow> laid_out (st + 1) its p \<longrightarrow>
     length cs \<le> length its \<longrightarrow> (\<forall>c \<in> set cs. st < c \<and> c < p \<and> src ! c = CHR '','') \<longrightarrow>
     (\<forall>n \<in> set its. wf_node src n) \<longrightarrow>
     V src st p its cs tr = Some (Inr (n, w)) \<longrightarrow>
     nstart n = st \<and> nend n = w \<and> p < w \<and> wf_node src n)"

lemma wf_node_bounds: "wf_node src n \<Longrightarrow> nstart n \<le> nend n \<and> nend n \<le> length src"
  by (cases n) simp

lemma wf_str: "str src p = Inr (n, w) \<Longrightarrow> nstart n = p \<and> nend n = w \<and> p + 1 < w \<and> w \<le> length src \<and> wf_node src n"
  using scan_str_bounds [of src "p + 1" w] by (auto simp: str_def split: option.splits)

lemma value_call_ok:
  assumes O: "object_ok ob" and A: "array_ok arr"
  shows "value_ok (value_call ob arr)"
  unfolding value_ok_def
proof (intro allI impI)
  fix src p n w
  assume e: "value_call ob arr src p = Some (Inr (n, w))"
  let ?q = "blank src p"
  from e have q: "?q < length src" by (auto simp: value_call_def Let_def split: if_splits)
  consider "src ! ?q = CHR ''{''" "ob src ?q (?q + 1) [] [] [] False = Some (Inr (n, w))"
    | "src ! ?q = CHR ''[''" "arr src ?q (?q + 1) [] [] False = Some (Inr (n, w))"
    | "str src ?q = Inr (n, w)" | "literal src ?q = (n, w)"
    using e q by (auto simp: value_call_def Let_def split: if_splits)
  then show "?q = nstart n \<and> nstart n < length src \<and> nend n = w \<and> wf_node src n"
  proof cases
    case 1
    then show ?thesis using O [unfolded object_ok_def, rule_format, of ?q "?q + 1" src "[]" "[]" "[]" False n w] q
      by auto
  next
    case 2
    then show ?thesis using A [unfolded array_ok_def, rule_format, of ?q "?q + 1" src "[]" "[]" False n w] q
      by auto
  next
    case 3
    then show ?thesis using wf_str [OF 3] q by simp
  next
    case 4
    then show ?thesis using literalD [OF 4] q by simp
  qed
qed


lemma object_turnE:
  assumes "object_turn val loop src st p ks ps its tr = Some (Inr (n, w))"
  obtains (close) q where "q = blank src p" "q < length src" "src ! q = CHR ''}''"
      "n = Node (CHR ''{'') st (q + 1) [] ks ps its [] tr" "w = q + 1"
    | (more) q key k c v u y tr' where "q = blank src p" "q < length src" "str src q = Inr (key, k)"
      "c = blank src k" "c < length src" "val src (c + 1) = Some (Inr (v, u))" "u \<le> y"
      "loop src st y (ks @ [nvalue key]) (ps @ [nstart key]) (its @ [v]) tr' = Some (Inr (n, w))"
proof -
  let ?q = "blank src p"
  from assms have q: "?q < length src" by (auto simp: object_turn_def Let_def split: if_splits)
  show thesis
  proof (cases "src ! ?q = CHR ''}''")
    case True
    with assms q show thesis by (intro close) (auto simp: object_turn_def Let_def)
  next
    case False
    with assms q obtain key k where s: "str src ?q = Inr (key, k)"
      by (auto simp: object_turn_def Let_def split: sum.splits)
    let ?c = "blank src k"
    from assms q s False have c: "?c < length src" and "src ! ?c = CHR '':''"
      by (auto simp: object_turn_def Let_def split: if_splits)
    with assms q s False obtain v u where v: "val src (?c + 1) = Some (Inr (v, u))"
      by (auto simp: object_turn_def Let_def split: option.splits sum.splits)
    let ?x = "blank src u"
    have "\<exists>y tr'. u \<le> y \<and>
        loop src st y (ks @ [nvalue key]) (ps @ [nstart key]) (its @ [v]) tr' = Some (Inr (n, w))"
    proof (cases "?x < length src \<and> src ! ?x = CHR '',''")
      case True
      have "u \<le> blank src (?x + 1)" using blank_ge [of u src] blank_ge [of "?x + 1" src] by simp
      with True show ?thesis using assms q s False c \<open>src ! ?c = CHR '':''\<close> v
        by (auto simp: object_turn_def Let_def)
    next
      case False
      then show ?thesis
        using assms q s \<open>src ! ?q \<noteq> CHR ''}''\<close> c \<open>src ! ?c = CHR '':''\<close> v blank_ge [of u src]
        by (intro exI [of _ ?x] exI [of _ tr]) (auto simp: object_turn_def Let_def)
    qed
    then show thesis using more [OF refl q s refl c v] by blast
  qed
qed

lemma array_turnE:
  assumes "array_turn val loop src st p its cs tr = Some (Inr (n, w))"
  obtains (close) q where "q = blank src p" "q < length src" "src ! q = CHR '']''"
      "n = Node (CHR ''['') st (q + 1) [] [] [] its cs tr" "w = q + 1"
    | (more) q v u y cs' tr' where "q = blank src p" "q < length src" "src ! q \<noteq> CHR '']''"
      "val src q = Some (Inr (v, u))"
      "y = blank src u \<and> cs' = cs \<and> tr' = tr \<or>
       blank src u < length src \<and> src ! blank src u = CHR '','' \<and> y = blank src (blank src u + 1) \<and>
       cs' = cs @ [blank src u]"
      "loop src st y (its @ [v]) cs' tr' = Some (Inr (n, w))"
proof -
  let ?q = "blank src p"
  from assms have q: "?q < length src" by (auto simp: array_turn_def Let_def split: if_splits)
  show thesis
  proof (cases "src ! ?q = CHR '']''")
    case True
    with assms q show thesis by (intro close) (auto simp: array_turn_def Let_def)
  next
    case False
    with assms q obtain v u where v: "val src ?q = Some (Inr (v, u))"
      by (auto simp: array_turn_def Let_def split: option.splits sum.splits)
    let ?x = "blank src u"
    show thesis
    proof (cases "?x < length src \<and> src ! ?x = CHR '',''")
      case True
      with assms q False v show thesis
        by (intro more [of ?q v u "blank src (?x + 1)" "cs @ [?x]"]) (auto simp: array_turn_def Let_def)
    next
      case False
      with assms q \<open>src ! ?q \<noteq> CHR '']''\<close> v show thesis
        by (intro more [of ?q v u ?x cs tr]) (auto simp: array_turn_def Let_def)
    qed
  qed
qed

lemma object_okD:
  assumes "object_ok V" and "V src st p ks ps its tr = Some (Inr (n, w))"
    and "st < p" and "src ! st = CHR ''{''" and "laid_out (st + 1) its p"
    and "length ks = length its" and "length ps = length its" and "\<forall>k \<in> set ps. st < k \<and> k < p"
    and "\<forall>n \<in> set its. wf_node src n"
  shows "nstart n = st \<and> nend n = w \<and> p < w \<and> wf_node src n"
  using assms unfolding object_ok_def by blast

lemma array_okD:
  assumes "array_ok V" and "V src st p its cs tr = Some (Inr (n, w))"
    and "st < p" and "src ! st = CHR ''[''" and "laid_out (st + 1) its p"
    and "length cs \<le> length its" and "\<forall>c \<in> set cs. st < c \<and> c < p \<and> src ! c = CHR '',''"
    and "\<forall>n \<in> set its. wf_node src n"
  shows "nstart n = st \<and> nend n = w \<and> p < w \<and> wf_node src n"
  using assms unfolding array_ok_def by blast

lemma object_turn_ok:
  assumes V: "value_ok val" and O: "object_ok loop"
  shows "object_ok (object_turn val loop)"
  unfolding object_ok_def
proof (intro allI impI)
  fix src st p ks ps its tr n w
  assume st: "st < p" "src ! st = CHR ''{''" and lay: "laid_out (st + 1) its p"
    and len: "length ks = length its" "length ps = length its" and ps: "\<forall>k \<in> set ps. st < k \<and> k < p"
    and wf: "\<forall>n \<in> set its. wf_node src n"
    and e: "object_turn val loop src st p ks ps its tr = Some (Inr (n, w))"
  have ge: "p \<le> blank src p" by (rule blank_ge)
  from e show "nstart n = st \<and> nend n = w \<and> p < w \<and> wf_node src n"
  proof (cases rule: object_turnE)
    case (close q)
    moreover have "p \<le> q" using ge close(1) by simp
    moreover have "\<forall>k \<in> set ps. st < k \<and> k < q + 1" using ps \<open>p \<le> q\<close> by force
    ultimately show ?thesis using st len wf laid_out_mono [OF lay] by auto
  next
    case (more q key k c v u y tr')
    note s = wf_str [OF more(3)]
    have v: "nstart v = blank src (c + 1)" "nend v = u" "wf_node src v"
      using V more(6) by (auto simp: value_ok_def)
    have "k \<le> c" "c + 1 \<le> nstart v" using blank_ge more(4) v(1) by auto
    moreover have "nstart v \<le> u" using wf_node_bounds [OF v(3)] v(2) by simp
    ultimately have "laid_out (st + 1) (its @ [v]) y" "p < y" "nstart key < y" "p \<le> nstart key"
      using s ge more(1,7) laid_out_mono [OF lay] v(2) by (auto simp: laid_out_snoc)
    moreover have "\<forall>j \<in> set (ps @ [nstart key]). st < j \<and> j < y"
      using ps calculation st(1) by force
    ultimately have "nstart n = st \<and> nend n = w \<and> y < w \<and> wf_node src n"
      using st(1) len wf v(3) by (intro object_okD [OF O more(8)] st(2)) auto
    then show ?thesis using \<open>p < y\<close> by simp
  qed
qed

lemma array_turn_ok:
  assumes V: "value_ok val" and A: "array_ok loop"
  shows "array_ok (array_turn val loop)"
  unfolding array_ok_def
proof (intro allI impI)
  fix src st p its cs tr n w
  assume st: "st < p" "src ! st = CHR ''[''" and lay: "laid_out (st + 1) its p"
    and len: "length cs \<le> length its" and cs: "\<forall>c \<in> set cs. st < c \<and> c < p \<and> src ! c = CHR '',''"
    and wf: "\<forall>n \<in> set its. wf_node src n"
    and e: "array_turn val loop src st p its cs tr = Some (Inr (n, w))"
  have ge: "p \<le> blank src p" by (rule blank_ge)
  from e show "nstart n = st \<and> nend n = w \<and> p < w \<and> wf_node src n"
  proof (cases rule: array_turnE)
    case (close q)
    moreover have "p \<le> q" using ge close(1) by simp
    moreover have "\<forall>c \<in> set cs. st < c \<and> c < q \<and> src ! c = CHR '',''" using cs \<open>p \<le> q\<close> by force
    ultimately show ?thesis using st len wf laid_out_mono [OF lay] by auto
  next
    case (more q v u y cs' tr')
    have v: "nstart v = q" "nend v = u" "wf_node src v"
      using V more(4) blank_idem [of src p] more(1,2) by (auto simp: value_ok_def)
    have "q \<le> u" using wf_node_bounds [OF v(3)] v(1,2) by simp
    moreover have uy: "u \<le> y" using more(5) blank_ge [of u src] blank_ge [of "blank src u + 1" src] by auto
    ultimately have "laid_out (st + 1) (its @ [v]) y" "p \<le> y"
      using ge more(1) laid_out_mono [OF lay] v by (auto simp: laid_out_snoc)
    moreover have "\<forall>c \<in> set cs'. st < c \<and> c < y \<and> src ! c = CHR '',''"
      using more(5)
    proof
      assume "y = blank src u \<and> cs' = cs \<and> tr' = tr"
      then show ?thesis using cs calculation(2) by force
    next
      assume b: "blank src u < length src \<and> src ! blank src u = CHR '','' \<and>
        y = blank src (blank src u + 1) \<and> cs' = cs @ [blank src u]"
      have "st < blank src u" "blank src u < y"
        using b st(1) ge more(1) \<open>q \<le> u\<close> blank_ge [of u src] blank_ge [of "blank src u + 1" src] by auto
      then show ?thesis using cs b calculation(2) by force
    qed
    moreover have "length cs' \<le> length (its @ [v])" using more(5) len by auto
    ultimately have "nstart n = st \<and> nend n = w \<and> y < w \<and> wf_node src n"
      using st(1) wf v(3) by (intro array_okD [OF A more(6)] st(2)) auto
    then show ?thesis using \<open>p \<le> y\<close> by simp
  qed
qed

lemma parsers_ok: "value_ok (value_at f) \<and> object_ok (object_loop f) \<and> array_ok (array_loop f)"
proof (induction f)
  case 0
  show ?case by (simp add: value_ok_def object_ok_def array_ok_def)
next
  case (Suc f)
  then show ?case by (simp add: value_call_ok object_turn_ok array_turn_ok)
qed

lemma value_at_ok:
  "value_at f src p = Some (Inr (n, w)) \<Longrightarrow>
   blank src p = nstart n \<and> nstart n < length src \<and> nend n = w \<and> w \<le> length src \<and> wf_node src n"
  using parsers_ok [of f] wf_node_bounds [of src n] by (auto simp: value_ok_def)

lemma parseJSONC_ok:
  "parseJSONC f doc = Some (Inr root) \<Longrightarrow> wf_node doc root \<and> blank doc (nend root) = length doc"
  using value_at_ok [of f doc 0]
  by (auto simp: parseJSONC_def Let_def split: option.splits sum.splits if_splits)


section \<open>How much fuel is enough\<close>

text \<open>
  Every turn of an object loop consumes a key.  A turn of an array loop consumes its element,
  except that the literal in front of a colon or a closing brace is empty: there the position
  stays and no fuel is enough.
\<close>

definition stuck :: "string \<Rightarrow> nat \<Rightarrow> bool" where
  "stuck src q \<longleftrightarrow> q < length src \<and> (src ! q = CHR ''}'' \<or> src ! q = CHR '':'')"

lemma stuck_token: "stuck src q \<Longrightarrow> at_token src q"
  by (auto simp: stuck_def at_token_def blank_char_def)

lemma scan_literal_stop: "literal_stop src q \<Longrightarrow> scan_literal src q = q"
  by (subst scan_literal.simps) simp

lemma stuck_value:
  assumes "stuck src q"
  shows "value_at (Suc f) src q = Some (Inr (Node (CHR ''l'') q q [] [] [] [] [] False, q))"
proof -
  have "scan_literal src q = q" using assms by (intro scan_literal_stop) (auto simp: stuck_def literal_stop_def)
  then show ?thesis using assms stuck_token [OF assms]
    by (auto simp: value_call_def Let_def stuck_def literal_def)
qed

lemma array_stuck: "stuck src q \<Longrightarrow> array_loop f src st q its cs tr = None"
proof (induction f arbitrary: its)
  case (Suc f)
  show ?case
  proof (cases f)
    case 0
    then show ?thesis using Suc.prems stuck_token [OF Suc.prems] by (auto simp: array_turn_def stuck_def)
  next
    case (Suc g)
    then show ?thesis
      using Suc.IH Suc.prems stuck_token [OF Suc.prems] stuck_value [OF Suc.prems, of g]
      by (auto simp: array_turn_def stuck_def Let_def simp del: value_at.simps)
  qed
qed simp

lemma value_at_empty:
  assumes "value_at f src q = Some (Inr (v, q))" and "at_token src q"
  shows "literal_stop src q"
proof (cases f)
  case (Suc g)
  have q: "q < length src" using assms(2) by (simp add: at_token_def)
  have "src ! q \<noteq> CHR ''{''"
    using assms q Suc object_okD [of "object_loop g" src q "q + 1" "[]" "[]" "[]" False v q] parsers_ok [of g]
    by (auto simp: value_call_def Let_def)
  moreover have "src ! q \<noteq> CHR ''[''"
    using assms q Suc array_okD [of "array_loop g" src q "q + 1" "[]" "[]" False v q] parsers_ok [of g]
    by (auto simp: value_call_def Let_def)
  moreover have "src ! q \<noteq> CHR 34"
    using assms q Suc wf_str [of src q v q] by (auto simp: value_call_def Let_def)
  ultimately have "scan_literal src q = q"
    using assms q Suc by (auto simp: value_call_def Let_def literal_def)
  then show ?thesis
    using q scan_literal_bounds [of "q + 1" src] by (subst (asm) scan_literal.simps) (auto split: if_splits)
qed (use assms in simp)

lemma array_progress:
  assumes "value_at f src q = Some (Inr (v, u))" and "at_token src q" and "src ! q \<noteq> CHR '']''" and "\<not> stuck src q"
  shows "q < u \<or> q < length src \<and> u = q \<and> blank src u = q \<and> src ! q = CHR '',''"
proof -
  have "q \<le> u" using value_at_ok [OF assms(1)] wf_node_bounds [of src v] assms(2) by auto
  moreover have "literal_stop src q" if "u = q" using assms(1,2) that value_at_empty by blast
  moreover have "q < length src" using assms(2) by (simp add: at_token_def)
  ultimately show ?thesis
    using assms(2-4) by (auto simp: literal_stop_def at_token_def stuck_def le_less)
qed


text \<open>A turn gives the same result under parsers that agree with its own where it calls them.\<close>

lemma object_turn_transfer:
  assumes V: "value_ok val" and e: "object_turn val loop src st p ks ps its tr = Some r"
    and val: "\<forall>c r. p < c \<longrightarrow> val src c = Some r \<longrightarrow> val' src c = Some r"
    and loop: "\<forall>y ks ps its tr r. p < length src \<longrightarrow> p < y \<longrightarrow> loop src st y ks ps its tr = Some r \<longrightarrow>
      loop' src st y ks ps its tr = Some r"
  shows "object_turn val' loop' src st p ks ps its tr = Some r"
proof -
  let ?q = "blank src p"
  show ?thesis
  proof (cases "?q < length src \<and> src ! ?q \<noteq> CHR ''}'' \<and> (\<exists>key k. str src ?q = Inr (key, k) \<and>
      blank src k < length src \<and> src ! blank src k = CHR '':'')")
    case False
    then show ?thesis using e by (auto simp: object_turn_def Let_def not_less split: sum.splits)
  next
    case True
    then obtain key k where q: "?q < length src" "src ! ?q \<noteq> CHR ''}''" and s: "str src ?q = Inr (key, k)"
      and c: "blank src k < length src" "src ! blank src k = CHR '':''" by blast
    let ?c = "blank src k"
    have pc: "p < ?c + 1" "p < length src" using blank_ge [of p src] wf_str [OF s] blank_ge [of k src] q(1) by simp_all
    show ?thesis
    proof (cases "\<exists>v u. val src (?c + 1) = Some (Inr (v, u))")
      case False
      obtain e' where "val src (?c + 1) = Some (Inl e')" "r = Inl e'"
        using e q s c False by (auto simp: object_turn_def Let_def split: option.splits sum.splits)
      with q s c val pc show ?thesis by (auto simp: object_turn_def Let_def)
    next
      case True
      then obtain v u where v: "val src (?c + 1) = Some (Inr (v, u))" by blast
      have "?c + 1 \<le> u"
        using V v blank_ge [of "?c + 1" src] wf_node_bounds [of src v] by (auto simp: value_ok_def)
      then have "p < blank src u" "p < blank src (blank src u + 1)"
        using pc blank_ge [of u src] blank_ge [of "blank src u + 1" src] by auto
      with e q s c v val pc loop show ?thesis by (auto simp: object_turn_def Let_def split: if_splits)
    qed
  qed
qed


lemma array_turn_transfer:
  assumes e: "array_turn (value_at f) (array_loop f) src st p its cs tr = Some r"
    and val: "\<forall>c r. p \<le> c \<longrightarrow> value_at f src c = Some r \<longrightarrow> val' src c = Some r"
    and loop: "\<forall>y its cs tr r. p < length src \<longrightarrow> p < y \<longrightarrow> array_loop f src st y its cs tr = Some r \<longrightarrow>
      loop' src st y its cs tr = Some r"
  shows "array_turn val' loop' src st p its cs tr = Some r"
proof -
  let ?q = "blank src p"
  have pq: "p \<le> ?q" by (rule blank_ge)
  show ?thesis
  proof (cases "?q < length src \<and> src ! ?q \<noteq> CHR '']'' \<and> (\<exists>v u. value_at f src ?q = Some (Inr (v, u)))")
    case False
    then have "?q \<ge> length src \<or> src ! ?q = CHR '']'' \<or> (\<exists>e'. value_at f src ?q = Some (Inl e') \<and> r = Inl e')"
      using e by (auto simp: array_turn_def Let_def not_less split: option.splits sum.splits if_splits)
    then show ?thesis using e val pq by (auto simp: array_turn_def Let_def split: if_splits)
  next
    case True
    then obtain v u where q: "?q < length src" "src ! ?q \<noteq> CHR '']''"
      and v: "value_at f src ?q = Some (Inr (v, u))" by blast
    have tok: "at_token src ?q" by (rule blank_stop) (rule q)
    have ns: "\<not> stuck src ?q"
    proof
      assume st: "stuck src ?q"
      obtain g where "f = Suc g" using v by (cases f) auto
      with v stuck_value [OF st, of g] have "u = ?q" by simp
      then show False
        using e q v st tok array_stuck [OF st] by (auto simp: array_turn_def Let_def stuck_def split: if_splits)
    qed
    let ?x = "blank src u"
    have "p < (if ?x < length src \<and> src ! ?x = CHR '','' then blank src (?x + 1) else ?x)"
      using array_progress [OF v tok q(2) ns] pq blank_ge [of u src] blank_ge [of "?x + 1" src] by auto
    moreover have "p < length src" using pq q(1) by simp
    ultimately show ?thesis using e q v val pq loop by (auto simp: array_turn_def Let_def split: if_splits)
  qed
qed

lemma fuel_enough:
  "(\<forall>p r g. value_at f src p = Some r \<longrightarrow> 2 * (length src - p) + 1 \<le> g \<longrightarrow> value_at g src p = Some r) \<and>
   (\<forall>st p ks ps its tr r g. object_loop f src st p ks ps its tr = Some r \<longrightarrow>
      2 * (length src - p) + 2 \<le> g \<longrightarrow> object_loop g src st p ks ps its tr = Some r) \<and>
   (\<forall>st p its cs tr r g. array_loop f src st p its cs tr = Some r \<longrightarrow>
      2 * (length src - p) + 2 \<le> g \<longrightarrow> array_loop g src st p its cs tr = Some r)"
proof (induction f)
  case (Suc f)
  note V = Suc [THEN conjunct1, rule_format]
  note O = Suc [THEN conjunct2, THEN conjunct1, rule_format]
  note A = Suc [THEN conjunct2, THEN conjunct2, rule_format]
  have "value_at g src p = Some r" if e: "value_at (Suc f) src p = Some r" and g: "2 * (length src - p) + 1 \<le> g" for p r g
  proof -
    obtain g' where g': "g = Suc g'" using g by (cases g) auto
    let ?q = "blank src p"
    have n: "2 * (length src - (?q + 1)) + 2 \<le> g'" if "?q < length src"
      using g g' that blank_ge [of p src] by linarith
    show ?thesis
    proof (cases "?q < length src \<and> (src ! ?q = CHR ''{'' \<or> src ! ?q = CHR ''['')")
      case True
      then show ?thesis using e g' n O [of ?q "?q + 1" _ _ _ _ r g'] A [of ?q "?q + 1" _ _ _ r g']
        by (auto simp: value_call_def Let_def)
    next
      case False
      then show ?thesis using e g' by (auto simp: value_call_def Let_def split: if_splits)
    qed
  qed
  moreover have "object_loop g src st p ks ps its tr = Some r"
    if e: "object_loop (Suc f) src st p ks ps its tr = Some r" and g: "2 * (length src - p) + 2 \<le> g"
    for st p ks ps its tr r g
  proof -
    obtain g' where g': "g = Suc g'" "2 * (length src - p) + 1 \<le> g'" using g by (cases g) auto
    have "object_turn (value_at g') (object_loop g') src st p ks ps its tr = Some r"
    proof (rule object_turn_transfer [of "value_at f" "object_loop f"])
      show "value_ok (value_at f)" using parsers_ok by blast
      show "object_turn (value_at f) (object_loop f) src st p ks ps its tr = Some r" using e by simp
      show "\<forall>c r. p < c \<longrightarrow> value_at f src c = Some r \<longrightarrow> value_at g' src c = Some r"
        by (intro allI impI, erule V) (use g'(2) in linarith)
      show "\<forall>y ks ps its tr r. p < length src \<longrightarrow> p < y \<longrightarrow> object_loop f src st y ks ps its tr = Some r \<longrightarrow>
          object_loop g' src st y ks ps its tr = Some r"
        by (intro allI impI, erule O) (use g'(2) in linarith)
    qed
    then show ?thesis using g' by simp
  qed
  moreover have "array_loop g src st p its cs tr = Some r"
    if e: "array_loop (Suc f) src st p its cs tr = Some r" and g: "2 * (length src - p) + 2 \<le> g"
    for st p its cs tr r g
  proof -
    obtain g' where g': "g = Suc g'" "2 * (length src - p) + 1 \<le> g'" using g by (cases g) auto
    have "array_turn (value_at g') (array_loop g') src st p its cs tr = Some r"
    proof (rule array_turn_transfer [of f])
      show "array_turn (value_at f) (array_loop f) src st p its cs tr = Some r" using e by simp
      show "\<forall>c r. p \<le> c \<longrightarrow> value_at f src c = Some r \<longrightarrow> value_at g' src c = Some r"
        by (intro allI impI, erule V) (use g'(2) in linarith)
      show "\<forall>y its cs tr r. p < length src \<longrightarrow> p < y \<longrightarrow> array_loop f src st y its cs tr = Some r \<longrightarrow>
          array_loop g' src st y its cs tr = Some r"
        by (intro allI impI, erule A) (use g'(2) in linarith)
    qed
    then show ?thesis using g' by simp
  qed
  ultimately show ?case by blast
qed simp


text \<open>
  The calls and turns of one run of the parser: where \<^verbatim>\<open>value\<close> is entered, and where the loops of
  \<^verbatim>\<open>object\<close> and \<^verbatim>\<open>array\<close> (with the offset of their bracket) begin a turn.
\<close>

definition after_comma :: "string \<Rightarrow> nat \<Rightarrow> nat" where
  "after_comma src w =
     (let x = blank src w in if x < length src \<and> src ! x = CHR '','' then blank src (x + 1) else x)"

inductive calls_value :: "string \<Rightarrow> nat \<Rightarrow> bool"
  and turns_object :: "string \<Rightarrow> nat \<Rightarrow> nat \<Rightarrow> bool"
  and turns_array :: "string \<Rightarrow> nat \<Rightarrow> nat \<Rightarrow> bool" for src where
  root: "calls_value src 0"
| open_object: "calls_value src p \<Longrightarrow> blank src p < length src \<Longrightarrow> src ! blank src p = CHR ''{'' \<Longrightarrow>
    turns_object src (blank src p) (blank src p + 1)"
| open_array: "calls_value src p \<Longrightarrow> blank src p < length src \<Longrightarrow> src ! blank src p = CHR ''['' \<Longrightarrow>
    turns_array src (blank src p) (blank src p + 1)"
| member: "turns_object src st p \<Longrightarrow> blank src p < length src \<Longrightarrow> src ! blank src p \<noteq> CHR ''}'' \<Longrightarrow>
    str src (blank src p) = Inr (key, k) \<Longrightarrow> blank src k < length src \<Longrightarrow> src ! blank src k = CHR '':'' \<Longrightarrow>
    calls_value src (blank src k + 1)"
| next_member: "turns_object src st p \<Longrightarrow> blank src p < length src \<Longrightarrow> src ! blank src p \<noteq> CHR ''}'' \<Longrightarrow>
    str src (blank src p) = Inr (key, k) \<Longrightarrow> blank src k < length src \<Longrightarrow> src ! blank src k = CHR '':'' \<Longrightarrow>
    value_at f src (blank src k + 1) = Some (Inr (v, w)) \<Longrightarrow> turns_object src st (after_comma src w)"
| element: "turns_array src st p \<Longrightarrow> blank src p < length src \<Longrightarrow> src ! blank src p \<noteq> CHR '']'' \<Longrightarrow>
    calls_value src (blank src p)"
| next_element: "turns_array src st p \<Longrightarrow> blank src p < length src \<Longrightarrow> src ! blank src p \<noteq> CHR '']'' \<Longrightarrow>
    value_at f src (blank src p) = Some (Inr (v, w)) \<Longrightarrow> turns_array src st (after_comma src w)"

definition array_meets_closer :: "string \<Rightarrow> bool" where
  "array_meets_closer src \<longleftrightarrow> (\<exists>st p. turns_array src st p \<and> stuck src (blank src p))"

lemma after_comma_ge: "w \<le> after_comma src w"
  using blank_ge [of w src] blank_ge [of "blank src w + 1" src] by (auto simp: after_comma_def Let_def)

lemma object_turn_None:
  assumes V: "value_ok val" and e: "object_turn val loop src st p ks ps its tr = None"
  obtains key k where "blank src p < length src" "src ! blank src p \<noteq> CHR ''}''"
    "str src (blank src p) = Inr (key, k)" "blank src k < length src" "src ! blank src k = CHR '':''"
    "p < blank src k + 1"
    "val src (blank src k + 1) = None \<or> (\<exists>v w ks ps its tr. val src (blank src k + 1) = Some (Inr (v, w)) \<and>
       p < after_comma src w \<and> loop src st (after_comma src w) ks ps its tr = None)"
proof -
  let ?q = "blank src p"
  from e have q: "?q < length src" "src ! ?q \<noteq> CHR ''}''"
    by (auto simp: object_turn_def Let_def not_le split: if_splits)
  with e obtain key k where s: "str src ?q = Inr (key, k)"
    by (auto simp: object_turn_def Let_def split: sum.splits)
  let ?c = "blank src k"
  from e q s have c: "?c < length src" "src ! ?c = CHR '':''"
    by (auto simp: object_turn_def Let_def split: if_splits)
  have p: "p < ?c + 1" using blank_ge [of p src] wf_str [OF s] blank_ge [of k src] by simp
  have "val src (?c + 1) = None \<or> (\<exists>v w ks ps its tr. val src (?c + 1) = Some (Inr (v, w)) \<and>
      p < after_comma src w \<and> loop src st (after_comma src w) ks ps its tr = None)"
  proof (cases "val src (?c + 1)")
    case (Some r)
    with e q s c obtain v u where v: "val src (?c + 1) = Some (Inr (v, u))"
      by (cases r) (auto simp: object_turn_def Let_def)
    have "?c + 1 \<le> u"
      using V v blank_ge [of "?c + 1" src] wf_node_bounds [of src v] by (auto simp: value_ok_def)
    then have "p < after_comma src u" using p after_comma_ge [of u src] by simp
    moreover have "\<exists>ks ps its tr. loop src st (after_comma src u) ks ps its tr = None"
      using e q s c v by (auto simp: object_turn_def after_comma_def Let_def split: if_splits)
    ultimately show ?thesis using v by blast
  qed simp
  then show thesis using that q s c p by blast
qed

lemma array_turn_None:
  assumes e: "array_turn (value_at f) loop src st p its cs tr = None"
  shows "blank src p < length src \<and> src ! blank src p \<noteq> CHR '']'' \<and>
    (value_at f src (blank src p) = None \<or> stuck src (blank src p) \<or>
     (\<exists>v w its cs tr. value_at f src (blank src p) = Some (Inr (v, w)) \<and> p < after_comma src w \<and>
        loop src st (after_comma src w) its cs tr = None))"
proof -
  let ?q = "blank src p"
  have pq: "p \<le> ?q" by (rule blank_ge)
  from e have q: "?q < length src" "src ! ?q \<noteq> CHR '']''"
    by (auto simp: array_turn_def Let_def not_le split: if_splits)
  show ?thesis
  proof (cases "value_at f src ?q = None \<or> stuck src ?q")
    case False
    with e q obtain v u where v: "value_at f src ?q = Some (Inr (v, u))"
      by (auto simp: array_turn_def Let_def split: sum.splits)
    have "p < after_comma src u"
      using array_progress [OF v blank_stop [OF q(1)] q(2)] False pq blank_ge [of u src]
        blank_ge [of "blank src u + 1" src]
      by (auto simp: after_comma_def Let_def)
    moreover have "\<exists>its cs tr. loop src st (after_comma src u) its cs tr = None"
      using e q v by (auto simp: array_turn_def after_comma_def Let_def split: if_splits)
    ultimately show ?thesis using q v by blast
  qed (use q in auto)
qed

lemma hang_meets_closer:
  "(\<forall>p. calls_value src p \<longrightarrow> 2 * (length src - p) + 1 \<le> g \<longrightarrow> value_at g src p = None \<longrightarrow> array_meets_closer src) \<and>
   (\<forall>st p ks ps its tr. turns_object src st p \<longrightarrow> 2 * (length src - p) + 2 \<le> g \<longrightarrow>
      object_loop g src st p ks ps its tr = None \<longrightarrow> array_meets_closer src) \<and>
   (\<forall>st p its cs tr. turns_array src st p \<longrightarrow> 2 * (length src - p) + 2 \<le> g \<longrightarrow>
      array_loop g src st p its cs tr = None \<longrightarrow> array_meets_closer src)"
proof (induction g)
  case (Suc g)
  note V = Suc [THEN conjunct1, rule_format]
  note O = Suc [THEN conjunct2, THEN conjunct1, rule_format]
  note A = Suc [THEN conjunct2, THEN conjunct2, rule_format]
  have "array_meets_closer src"
    if t: "calls_value src p" and n: "2 * (length src - p) + 1 \<le> Suc g" and e: "value_at (Suc g) src p = None" for p
  proof -
    let ?q = "blank src p"
    have q: "?q < length src" and c: "src ! ?q = CHR ''{'' \<and> object_loop g src ?q (?q + 1) [] [] [] False = None \<or>
        src ! ?q = CHR ''['' \<and> array_loop g src ?q (?q + 1) [] [] False = None"
      using e by (auto simp: value_call_def Let_def not_le split: if_splits)
    have "2 * (length src - (?q + 1)) + 2 \<le> g" using n q blank_ge [of p src] by linarith
    with c show ?thesis
      using O [OF open_object [OF t q]] A [OF open_array [OF t q]] by blast
  qed
  moreover have "array_meets_closer src"
    if t: "turns_object src st p" and n: "2 * (length src - p) + 2 \<le> Suc g"
      and e: "object_loop (Suc g) src st p ks ps its tr = None" for st p ks ps its tr
  proof -
    from e have e': "object_turn (value_at g) (object_loop g) src st p ks ps its tr = None" by simp
    obtain key k where s: "blank src p < length src" "src ! blank src p \<noteq> CHR ''}''"
      "str src (blank src p) = Inr (key, k)" "blank src k < length src" "src ! blank src k = CHR '':''"
      and p: "p < blank src k + 1"
      and r: "value_at g src (blank src k + 1) = None \<or> (\<exists>v w ks ps its tr. value_at g src (blank src k + 1) =
        Some (Inr (v, w)) \<and> p < after_comma src w \<and> object_loop g src st (after_comma src w) ks ps its tr = None)"
      by (rule object_turn_None [OF parsers_ok [THEN conjunct1] e'])
    have L: "p < length src" using blank_ge [of p src] s(1) by simp
    from r show ?thesis
    proof (elim disjE exE conjE)
      assume "value_at g src (blank src k + 1) = None"
      then show ?thesis using n p L by (intro V [OF member [OF t s]]) auto
    next
      fix v w ks ps its tr
      assume v: "value_at g src (blank src k + 1) = Some (Inr (v, w))" and w: "p < after_comma src w"
        and l: "object_loop g src st (after_comma src w) ks ps its tr = None"
      show ?thesis using n w L by (intro O [OF next_member [OF t s v] _ l]) auto
    qed
  qed
  moreover have "array_meets_closer src"
    if t: "turns_array src st p" and n: "2 * (length src - p) + 2 \<le> Suc g"
      and e: "array_loop (Suc g) src st p its cs tr = None" for st p its cs tr
  proof -
    have q: "blank src p < length src" "src ! blank src p \<noteq> CHR '']''"
      and r: "value_at g src (blank src p) = None \<or> stuck src (blank src p) \<or>
        (\<exists>v w its cs tr. value_at g src (blank src p) = Some (Inr (v, w)) \<and> p < after_comma src w \<and>
          array_loop g src st (after_comma src w) its cs tr = None)"
      using array_turn_None [of g "array_loop g" src st p its cs tr] e by auto
    have L: "p < length src" "p \<le> blank src p" using blank_ge [of p src] q(1) by simp_all
    from r show ?thesis
    proof (elim disjE exE conjE)
      assume "value_at g src (blank src p) = None"
      then show ?thesis using n L by (intro V [OF element [OF t q]]) auto
    next
      assume "stuck src (blank src p)"
      then show ?thesis using t by (auto simp: array_meets_closer_def)
    next
      fix v w its cs tr
      assume v: "value_at g src (blank src p) = Some (Inr (v, w))" and w: "p < after_comma src w"
        and l: "array_loop g src st (after_comma src w) its cs tr = None"
      show ?thesis using n w L by (intro A [OF next_element [OF t q v] _ l]) auto
    qed
  qed
  ultimately show ?case by blast
qed simp

lemma value_at_unique:
  assumes "value_at f src p = Some a" and "value_at g src p = Some b"
  shows "a = b"
  using fuel_enough [THEN conjunct1, rule_format, OF assms(1) order_refl]
    fuel_enough [THEN conjunct1, rule_format, OF assms(2) order_refl] by simp

text \<open>A call or a turn that never returns keeps the whole parse from returning.\<close>

lemma object_hangs:
  assumes s: "blank src p < length src" "src ! blank src p \<noteq> CHR ''}''"
      "str src (blank src p) = Inr (key, k)" "blank src k < length src" "src ! blank src k = CHR '':''"
    and h: "(\<forall>f. value_at f src (blank src k + 1) = None) \<or>
      (\<exists>f v w. value_at f src (blank src k + 1) = Some (Inr (v, w)) \<and>
        (\<forall>f ks ps its tr. object_loop f src st (after_comma src w) ks ps its tr = None))"
  shows "object_loop f src st p ks ps its tr = None"
proof (cases f)
  case (Suc g)
  show ?thesis
  proof (cases "value_at g src (blank src k + 1)")
    case None
    then show ?thesis using Suc s by (simp add: object_turn_def Let_def)
  next
    case (Some r)
    with h obtain f' v w where "value_at f' src (blank src k + 1) = Some (Inr (v, w))"
      and l: "\<forall>f ks ps its tr. object_loop f src st (after_comma src w) ks ps its tr = None" by auto
    with Some value_at_unique have "r = Inr (v, w)" by blast
    with Suc s Some l show ?thesis by (auto simp: object_turn_def after_comma_def Let_def)
  qed
qed simp

lemma array_hangs:
  assumes s: "blank src p < length src" "src ! blank src p \<noteq> CHR '']''"
    and h: "(\<forall>f. value_at f src (blank src p) = None) \<or>
      (\<exists>f v w. value_at f src (blank src p) = Some (Inr (v, w)) \<and>
        (\<forall>f its cs tr. array_loop f src st (after_comma src w) its cs tr = None))"
  shows "array_loop f src st p its cs tr = None"
proof (cases f)
  case (Suc g)
  show ?thesis
  proof (cases "value_at g src (blank src p)")
    case None
    then show ?thesis using Suc s by (simp add: array_turn_def Let_def)
  next
    case (Some r)
    with h obtain f' v w where "value_at f' src (blank src p) = Some (Inr (v, w))"
      and l: "\<forall>f its cs tr. array_loop f src st (after_comma src w) its cs tr = None" by auto
    with Some value_at_unique have "r = Inr (v, w)" by blast
    with Suc s Some l show ?thesis by (auto simp: array_turn_def after_comma_def Let_def)
  qed
qed simp

lemma value_hangs:
  assumes "blank src p < length src"
    and "src ! blank src p = CHR ''{'' \<and> (\<forall>f ks ps its tr. object_loop f src (blank src p) (blank src p + 1) ks ps its tr = None) \<or>
      src ! blank src p = CHR ''['' \<and> (\<forall>f its cs tr. array_loop f src (blank src p) (blank src p + 1) its cs tr = None)"
  shows "value_at f src p = None"
  using assms by (cases f) (auto simp: value_call_def Let_def)

lemma hang_propagates:
  "calls_value src p \<Longrightarrow> (\<forall>f. value_at f src p = None) \<longrightarrow> (\<forall>f. value_at f src 0 = None)"
  "turns_object src st q \<Longrightarrow> (\<forall>f ks ps its tr. object_loop f src st q ks ps its tr = None) \<longrightarrow>
     (\<forall>f. value_at f src 0 = None)"
  "turns_array src st r \<Longrightarrow> (\<forall>f its cs tr. array_loop f src st r its cs tr = None) \<longrightarrow>
     (\<forall>f. value_at f src 0 = None)"
proof (induction rule: calls_value_turns_object_turns_array.inducts)
  case (open_object p)
  then show ?case using value_hangs by blast
next
  case (open_array p)
  then show ?case using value_hangs by blast
next
  case (member st p key k)
  then show ?case using object_hangs [OF member(3-7)] by blast
next
  case (next_member st p key k f v w)
  then show ?case using object_hangs [OF next_member(3-7)] by blast
next
  case (element st p)
  then show ?case using array_hangs [OF element(3,4)] by blast
next
  case (next_element st p f v w)
  then show ?case using array_hangs [OF next_element(3,4)] by blast
qed simp

lemma closer_hangs:
  assumes "array_meets_closer src"
  shows "value_at f src 0 = None"
proof -
  obtain st p where t: "turns_array src st p" and s: "stuck src (blank src p)"
    using assms by (auto simp: array_meets_closer_def)
  have q: "blank src p < length src" "src ! blank src p \<noteq> CHR '']''" using s by (auto simp: stuck_def)
  have b: "blank src (blank src p) = blank src p" by (rule blank_idem) (rule q)
  have "after_comma src (blank src p) = blank src p"
    using s b by (auto simp: after_comma_def stuck_def)
  then have "array_loop g src st p its cs tr = None" for g its cs tr
    using array_hangs [OF q, of st] stuck_value [OF s] array_stuck [OF s] by metis
  then show ?thesis using hang_propagates(3) [OF t] by blast
qed

definition parse_fuel :: "string \<Rightarrow> nat" where
  "parse_fuel document = 2 * length document + 1"

lemma parse_fuel_decides:
  assumes "parseJSONC f doc = Some r" and "parse_fuel doc \<le> g"
  shows "parseJSONC g doc = Some r"
proof -
  obtain v where v: "value_at f doc 0 = Some v" using assms(1) by (auto simp: parseJSONC_def split: option.splits)
  moreover have "value_at g doc 0 = Some v"
    using assms(2) by (intro fuel_enough [THEN conjunct1, rule_format, OF v]) (simp add: parse_fuel_def)
  ultimately show ?thesis using assms(1) by (simp add: parseJSONC_def)
qed

lemma parse_None_iff: "parseJSONC f doc = None \<longleftrightarrow> value_at f doc 0 = None"
  by (auto simp: parseJSONC_def Let_def split: option.split sum.split)

lemma parse_returns_iff:
  assumes "parse_fuel doc \<le> g"
  shows "parseJSONC g doc = None \<longleftrightarrow> array_meets_closer doc"
proof
  assume "parseJSONC g doc = None"
  then have "value_at g doc 0 = None" by (simp add: parse_None_iff)
  then show "array_meets_closer doc"
    using assms by (intro hang_meets_closer [THEN conjunct1, rule_format, OF root]) (auto simp: parse_fuel_def)
next
  assume "array_meets_closer doc"
  then show "parseJSONC g doc = None" using closer_hangs by (simp add: parse_None_iff)
qed

section \<open>Properties\<close>

text \<open>
  C13. The parse of a document returns within fuel linear in its length, with the result any
  larger fuel gives, unless an array loop comes to a colon or a closing brace: there, and only
  there, it never returns, whatever the fuel.
\<close>

theorem parse_returns_or_meets_closer:
  "if array_meets_closer doc then \<forall>fuel. parseJSONC fuel doc = None
   else \<exists>r. \<forall>extra. parseJSONC (parse_fuel doc + extra) doc = Some r"
proof (cases "parseJSONC (parse_fuel doc) doc")
  case None
  then have "array_meets_closer doc" using parse_returns_iff by blast
  then show ?thesis using closer_hangs by (simp add: parse_None_iff)
next
  case (Some r)
  then have "\<forall>fuel \<ge> parse_fuel doc. parseJSONC fuel doc = Some r" using parse_fuel_decides by blast
  then have "\<forall>extra. parseJSONC (parse_fuel doc + extra) doc = Some r" by simp
  moreover have "\<not> array_meets_closer doc" using Some parse_returns_iff [of doc "parse_fuel doc"] by simp
  ultimately show ?thesis by auto
qed

text \<open>
  C14. Every node of a parsed document carries a span of the document: offsets in range, the
  children in order strictly inside their parent and between its brackets, separators and keys
  inside it, and a string's value is its own literal decoded; behind the root only blanks remain.
\<close>

theorem spans_in_document:
  assumes "parseJSONC fuel doc = Some (Inr root)"
  shows "wf_node doc root \<and> nstart root = blank doc 0 \<and> nend root \<le> length doc \<and> blank doc (nend root) = length doc"
proof -
  obtain w where "value_at fuel doc 0 = Some (Inr (root, w))"
    using assms by (auto simp: parseJSONC_def Let_def split: option.splits sum.splits if_splits)
  from value_at_ok [OF this] parseJSONC_ok [OF assms] show ?thesis by auto
qed

theorem spans_in_document_witness:
  "\<exists>root. parseJSONC 9 ''[1]'' = Some (Inr root) \<and> wf_node ''[1]'' root \<and> nend root = 3"
proof -
  let ?root = "Node (CHR ''['') 0 3 [] [] [] [Node (CHR ''l'') 1 2 [] [] [] [] [] False] [] False"
  have p: "parseJSONC 9 ''[1]'' = Some (Inr ?root)" by code_simp
  show ?thesis using spans_in_document [OF p] p by (intro exI [of _ ?root]) simp
qed

text \<open>The array \<^verbatim>\<open>[}\<close>: the loop appends the empty literal in front of the brace for ever.\<close>

lemma closer_in_array_hangs: "\<forall>fuel. parseJSONC fuel ''[}'' = None"
proof -
  have b: "blank ''[}'' 0 = 0" "blank ''[}'' 1 = 1" by code_simp+
  have "turns_array ''[}'' 0 1" using open_array [OF root, of "''[}''"] b(1) by simp
  then have "array_meets_closer ''[}''"
    unfolding array_meets_closer_def using b(2)
    by (intro exI [of _ 0] exI [of _ 1] conjI) (auto simp: stuck_def)
  then show ?thesis using closer_hangs by (simp add: parse_None_iff)
qed

end
