(* ===== verification/JsonText.thy ===== *)
theory JsonText
  imports Jsonc
begin

text \<open>
  A reference grammar for the parser: JSON values and the one-line text the panel writes for
  them (a space behind each colon and comma), and the proof that the parser reads every such
  text back, wherever it stands in a document, into a node that carries exactly its span.
\<close>

datatype json = JStr string | JLit string | JArr "json list" | JObj "(string \<times> json) list"

fun json_text :: "json \<Rightarrow> string" where
  "json_text (JStr s) = json_quote s"
| "json_text (JLit s) = s"
| "json_text (JArr xs) = ''['' @ join '', '' (map json_text xs) @ '']''"
| "json_text (JObj kvs) =
     ''{'' @ join '', '' (map (\<lambda>(k, v). json_quote k @ '': '' @ json_text v) kvs) @ ''}''"

text \<open>Literals are non-empty runs of bytes the parser takes for one literal.\<close>

definition literal_byte :: "char \<Rightarrow> bool" where
  "literal_byte c \<longleftrightarrow> c \<notin> {CHR '' '', CHR 9, CHR 13, CHR 10, CHR '','', CHR ''}'', CHR '']'', CHR '':'',
     CHR ''/'', CHR ''{'', CHR ''['', CHR 34}"

fun json_ok :: "json \<Rightarrow> bool" where
  "json_ok (JStr s) \<longleftrightarrow> True"
| "json_ok (JLit s) \<longleftrightarrow> s \<noteq> [] \<and> list_all literal_byte s"
| "json_ok (JArr xs) \<longleftrightarrow> list_all json_ok xs"
| "json_ok (JObj kvs) \<longleftrightarrow> list_all (\<lambda>(k, v). json_ok v) kvs"

abbreviation member_text :: "string \<times> json \<Rightarrow> string" where
  "member_text kv \<equiv> json_quote (fst kv) @ '': '' @ json_text (snd kv)"

text \<open>The node of a value whose text starts at an offset, with the nodes of its elements or members.\<close>

fun elem_commas :: "nat \<Rightarrow> json list \<Rightarrow> nat list" where
  "elem_commas p (x # y # zs) = (p + length (json_text x)) # elem_commas (p + length (json_text x) + 2) (y # zs)"
| "elem_commas p xs = []"

fun member_starts :: "nat \<Rightarrow> (string \<times> json) list \<Rightarrow> nat list" where
  "member_starts p [] = []"
| "member_starts p (kv # kvs) = p # member_starts (p + length (member_text kv) + 2) kvs"

fun node_of :: "nat \<Rightarrow> json \<Rightarrow> node"
  and elem_nodes :: "nat \<Rightarrow> json list \<Rightarrow> node list"
  and member_nodes :: "nat \<Rightarrow> (string \<times> json) list \<Rightarrow> node list" where
  "node_of p (JStr s) = Node (CHR 34) p (p + length (json_quote s)) (to_valid_utf8 s) [] [] [] [] False"
| "node_of p (JLit s) = Node (CHR ''l'') p (p + length s) [] [] [] [] [] False"
| "node_of p (JArr xs) =
     Node (CHR ''['') p (p + length (json_text (JArr xs))) [] [] [] (elem_nodes (p + 1) xs) (elem_commas (p + 1) xs) False"
| "node_of p (JObj kvs) =
     Node (CHR ''{'') p (p + length (json_text (JObj kvs))) [] (map (to_valid_utf8 \<circ> fst) kvs)
       (member_starts (p + 1) kvs) (member_nodes (p + 1) kvs) [] False"
| "elem_nodes p [] = []"
| "elem_nodes p (j # js) = node_of p j # elem_nodes (p + length (json_text j) + 2) js"
| "member_nodes p [] = []"
| "member_nodes p ((k, v) # kvs) =
     node_of (p + length (json_quote k) + 2) v # member_nodes (p + length (member_text (k, v)) + 2) kvs"

lemma node_of_start [simp]: "nstart (node_of p j) = p"
  by (cases j) auto

lemma node_of_end [simp]: "nend (node_of p j) = p + length (json_text j)"
  by (cases j) auto

section \<open>Standing at a position\<close>

lemma drop_nth: "drop p src = c # r \<Longrightarrow> p < length src \<and> src ! p = c"
  by (metis drop_eq_Nil2 list.distinct(1) not_le nth_via_drop)

lemma drop_Suc_Cons: "drop p src = c # r \<Longrightarrow> drop (p + 1) src = r"
  by (metis Suc_eq_plus1 drop_Suc list.sel(3) tl_drop)

lemma drop_add: "drop p src = x @ r \<Longrightarrow> drop (p + length x) src = r"
  by (metis add.commute append_eq_conv_conj drop_drop)

lemma token_byte:
  "drop p src = c # r \<Longrightarrow> \<not> blank_char c \<Longrightarrow> c \<noteq> CHR ''/'' \<Longrightarrow> at_token src p"
  using drop_nth [of p src c r] by (auto simp: at_token_def)

lemma blank_space: "drop p src = CHR '' '' # r \<Longrightarrow> blank src p = blank src (p + 1)"
  using drop_nth [of p src _ r] by (subst blank.simps) (auto simp: blank_char_def)

section \<open>Strings and literals\<close>

lemma scan_str_step:
  assumes "drop p src = c # r" and "c \<noteq> CHR 34" and "c \<noteq> CHR 92"
  shows "scan_str src p = scan_str src (p + 1)"
  using drop_nth [OF assms(1)] assms by (subst scan_str.simps) auto

lemma scan_str_escape: "drop p src = CHR 92 # r \<Longrightarrow> scan_str src p = scan_str src (p + 2)"
  using drop_nth [of p src _ r] by (subst scan_str.simps) auto

lemma scan_str_inert:
  "drop p src = x @ r \<Longrightarrow> CHR 34 \<notin> set x \<Longrightarrow> CHR 92 \<notin> set x \<Longrightarrow> scan_str src p = scan_str src (p + length x)"
proof (induction x arbitrary: p)
  case (Cons c x)
  have "scan_str src p = scan_str src (p + 1)" using Cons.prems by (intro scan_str_step [of p src c "x @ r"]) auto
  also have "\<dots> = scan_str src (p + 1 + length x)"
    using Cons.prems drop_Suc_Cons [of p src c "x @ r"] by (intro Cons.IH) auto
  finally show ?case by simp
qed simp

text \<open>An escape: the backslash, the byte it protects, and digits.\<close>

definition inert_piece :: "string \<Rightarrow> bool" where
  "inert_piece x \<longleftrightarrow> CHR 34 \<notin> set x \<and> CHR 92 \<notin> set x \<or>
     (\<exists>e y. x = CHR 92 # e # y \<and> CHR 34 \<notin> set y \<and> CHR 92 \<notin> set y)"

lemma scan_str_piece:
  assumes "drop p src = x @ r" and "inert_piece x"
  shows "scan_str src p = scan_str src (p + length x)"
proof (cases "CHR 34 \<notin> set x \<and> CHR 92 \<notin> set x")
  case True
  then show ?thesis using assms(1) scan_str_inert by blast
next
  case False
  then obtain e y where x: "x = CHR 92 # e # y" "CHR 34 \<notin> set y" "CHR 92 \<notin> set y"
    using assms(2) by (auto simp: inert_piece_def)
  have "drop (p + 2) src = y @ r" using drop_add [of p src "[CHR 92, e]" "y @ r"] assms(1) x by simp
  then have "scan_str src (p + 2) = scan_str src (p + 2 + length y)" using x by (intro scan_str_inert) auto
  then show ?thesis using scan_str_escape [of p src] assms(1) x by simp
qed

lemma hexdigit_inert: "n < 16 \<Longrightarrow> hexdigit n \<noteq> CHR 34 \<and> hexdigit n \<noteq> CHR 92"
  by (auto simp: hexdigit_def dest: arg_cong [where f = "of_char :: char \<Rightarrow> nat"])

lemma escape_ascii_inert: "of_char c < (128 :: nat) \<Longrightarrow> inert_piece (escape_ascii c)"
proof -
  assume "of_char c < (128 :: nat)"
  then have "hexdigit (of_char c div 16) \<noteq> CHR 34 \<and> hexdigit (of_char c div 16) \<noteq> CHR 92"
    "hexdigit (of_char c mod 16) \<noteq> CHR 34 \<and> hexdigit (of_char c mod 16) \<noteq> CHR 92"
    by (auto intro!: hexdigit_inert)
  then show ?thesis by (auto simp: inert_piece_def escape_ascii_def Let_def)
qed

lemma scan_quote_body:
  "drop p src = quote_body s @ CHR 34 # r \<Longrightarrow> scan_str src p = Some (p + length (quote_body s) + 1)"
  supply quote_body.simps(2) [simp]
proof (induction s arbitrary: p rule: quote_body.induct)
  case 1
  then show ?case using drop_nth [of p src] by (subst scan_str.simps) auto
next
  case (2 c s)
  obtain rn n where d: "decode_rune (c # s) = (rn, n)" by (cases "decode_rune (c # s)")
  have step: "scan_str src p = Some (p + length (quote_body (c # s)) + 1)"
    if "quote_body (c # s) = x @ quote_body t" "inert_piece x"
      "\<And>q. drop q src = quote_body t @ CHR 34 # r \<Longrightarrow> scan_str src q = Some (q + length (quote_body t) + 1)"
    for x t
  proof -
    have p: "drop p src = x @ quote_body t @ CHR 34 # r" using 2(5) that(1) by simp
    show ?thesis using scan_str_piece [OF p that(2)] that(3) [OF drop_add [OF p]] that(1) by simp
  qed
  show ?case
  proof (cases "of_char c < (128 :: nat)")
    case True
    then show ?thesis using d 2(1) [OF d [symmetric] refl True]
      by (intro step [of "escape_ascii c" s] escape_ascii_inert) auto
  next
    case high: False
    show ?thesis
    proof (cases "rn = rune_error \<and> n = 1")
      case True
      then show ?thesis using d high 2(2) [OF d [symmetric] refl high True]
        by (intro step [of "[CHR 92] @ ''ufffd''" s]) (auto simp: inert_piece_def)
    next
      case False
      show ?thesis
      proof (cases "rn = 8232 \<or> rn = 8233")
        case True
        then show ?thesis using d high False 2(3) [OF d [symmetric] refl high False True] hexdigit_inert [of "rn mod 16"]
          by (intro step [of "[CHR 92] @ ''u202'' @ [hexdigit (rn mod 16)]" "drop (n - 1) s"]) (auto simp: inert_piece_def)
      next
        case no: False
        have "inert_piece (take n (c # s))"
          using decode_multi [OF high d False] by (force simp: inert_piece_def)
        then show ?thesis using d high False no 2(4) [OF d [symmetric] refl high False no]
          by (intro step [of "take n (c # s)" "drop (n - 1) s"]) auto
      qed
    qed
  qed
qed

lemma str_quote:
  assumes "drop p src = json_quote s @ r"
  shows "str src p = Inr (Node (CHR 34) p (p + length (json_quote s)) (to_valid_utf8 s) [] [] [] [] False,
    p + length (json_quote s))"
proof -
  have "scan_str src (p + 1) = Some (p + length (json_quote s))"
    using scan_quote_body [of "p + 1" src s r] drop_Suc_Cons [of p src "CHR 34"] assms
    by (simp add: json_quote_def)
  moreover have "slice src p (p + length (json_quote s)) = json_quote s" using assms by simp
  ultimately show ?thesis by (simp add: str_def unquote_quote)
qed


definition delimited :: "string \<Rightarrow> bool" where
  "delimited r \<longleftrightarrow> r = [] \<or> hd r \<in> {CHR '','', CHR '']'', CHR ''}'', CHR '' '', CHR 10}"

lemma scan_literal_run:
  "drop p src = x @ r \<Longrightarrow> list_all literal_byte x \<Longrightarrow> delimited r \<Longrightarrow> scan_literal src p = p + length x"
proof (induction x arbitrary: p)
  case Nil
  show ?case
  proof (cases r)
    case (Cons c r')
    then have "literal_stop src p" using Nil drop_nth [of p src c r'] 
      by (auto simp: literal_stop_def delimited_def blank_char_def)
    then show ?thesis by (simp add: scan_literal_stop)
  qed (use Nil in \<open>subst scan_literal.simps, auto\<close>)
next
  case (Cons c x)
  have "\<not> literal_stop src p" "p < length src"
    using Cons.prems(1,2) drop_nth [of p src c "x @ r"]
    by (auto simp: literal_stop_def literal_byte_def blank_char_def)
  then have "scan_literal src p = scan_literal src (p + 1)" by (subst scan_literal.simps) simp
  also have "\<dots> = p + 1 + length x"
    using Cons.prems drop_Suc_Cons [of p src c "x @ r"] by (intro Cons.IH) auto
  finally show ?case by simp
qed

section \<open>Turns of the loops\<close>

text \<open>Parsers that return do so with twice the document's length as fuel, so their results combine.\<close>

definition full_fuel :: "string \<Rightarrow> nat" where
  "full_fuel src = 2 * length src + 2"

lemma at_token_less: "at_token src p \<Longrightarrow> p < length src"
  by (simp add: at_token_def)

lemma value_full: "value_at f src p = Some r \<Longrightarrow> value_at (full_fuel src) src p = Some r"
  by (rule fuel_enough [THEN conjunct1, rule_format, of f]) (auto simp: full_fuel_def)

lemma object_full:
  "object_loop f src st p ks ps its tr = Some r \<Longrightarrow> object_loop (full_fuel src) src st p ks ps its tr = Some r"
  by (rule fuel_enough [THEN conjunct2, THEN conjunct1, rule_format, of f]) (auto simp: full_fuel_def)

lemma array_full:
  "array_loop f src st p its cs tr = Some r \<Longrightarrow> array_loop (full_fuel src) src st p its cs tr = Some r"
  by (rule fuel_enough [THEN conjunct2, THEN conjunct2, rule_format, of f]) (auto simp: full_fuel_def)

lemma array_close:
  assumes "at_token src p" and "src ! p = CHR '']''"
  shows "\<exists>f. array_loop f src st p its cs tr = Some (Inr (Node (CHR ''['') st (p + 1) [] [] [] its cs tr, p + 1))"
  using assms by (intro exI [of _ "Suc 0"]) (auto simp: array_turn_def Let_def dest: at_token_less)

lemma array_last:
  assumes "at_token src p" and "src ! p \<noteq> CHR '']''" and "value_at f src p = Some (Inr (v, w))"
    and "blank src w = x" and "src ! x \<noteq> CHR '',''" and "array_loop g src st x (its @ [v]) cs tr = Some r"
  shows "\<exists>f. array_loop f src st p its cs tr = Some r"
  using assms value_full [OF assms(3)] array_full [OF assms(6)]
  by (intro exI [of _ "Suc (full_fuel src)"]) (auto simp: array_turn_def Let_def dest: at_token_less)

lemma array_comma:
  assumes "at_token src p" and "src ! p \<noteq> CHR '']''" and "value_at f src p = Some (Inr (v, w))"
    and "at_token src w" and "src ! w = CHR '',''" and "blank src (w + 1) = y" and "src ! y \<noteq> CHR '']''"
    and "array_loop g src st y (its @ [v]) (cs @ [w]) tr = Some r"
  shows "\<exists>f. array_loop f src st p its cs tr = Some r"
  using assms value_full [OF assms(3)] array_full [OF assms(8)]
  by (intro exI [of _ "Suc (full_fuel src)"]) (auto simp: array_turn_def Let_def dest: at_token_less)

lemma object_close:
  assumes "at_token src p" and "src ! p = CHR ''}''"
  shows "\<exists>f. object_loop f src st p ks ps its tr = Some (Inr (Node (CHR ''{'') st (p + 1) [] ks ps its [] tr, p + 1))"
  using assms by (intro exI [of _ "Suc 0"]) (auto simp: object_turn_def Let_def dest: at_token_less)

lemma object_last:
  assumes "at_token src p" and "src ! p \<noteq> CHR ''}''" and "str src p = Inr (key, k)"
    and "at_token src k" and "src ! k = CHR '':''" and "value_at f src (k + 1) = Some (Inr (v, w))"
    and "blank src w = x" and "src ! x \<noteq> CHR '',''"
    and "object_loop g src st x (ks @ [nvalue key]) (ps @ [nstart key]) (its @ [v]) tr = Some r"
  shows "\<exists>f. object_loop f src st p ks ps its tr = Some r"
  using assms value_full [OF assms(6)] object_full [OF assms(9)]
  by (intro exI [of _ "Suc (full_fuel src)"]) (auto simp: object_turn_def Let_def dest: at_token_less)

lemma object_comma:
  assumes "at_token src p" and "src ! p \<noteq> CHR ''}''" and "str src p = Inr (key, k)"
    and "at_token src k" and "src ! k = CHR '':''" and "value_at f src (k + 1) = Some (Inr (v, w))"
    and "at_token src w" and "src ! w = CHR '',''" and "blank src (w + 1) = y" and "src ! y \<noteq> CHR ''}''"
    and "object_loop g src st y (ks @ [nvalue key]) (ps @ [nstart key]) (its @ [v]) tr = Some r"
  shows "\<exists>f. object_loop f src st p ks ps its tr = Some r"
  using assms value_full [OF assms(6)] object_full [OF assms(11)]
  by (intro exI [of _ "Suc (full_fuel src)"]) (auto simp: object_turn_def Let_def dest: at_token_less)

lemma value_space: "drop p src = CHR '' '' # r \<Longrightarrow> value_at f src p = value_at f src (p + 1)"
  by (cases f) (simp_all add: value_call_def blank_space)

section \<open>Reading a text back\<close>

definition reads_back :: "json \<Rightarrow> bool" where
  "reads_back j \<longleftrightarrow> (\<forall>src p r. drop p src = json_text j @ r \<longrightarrow> delimited r \<longrightarrow>
     (\<exists>f. value_at f src p = Some (Inr (node_of p j, p + length (json_text j)))))"

lemma reads_backD:
  "reads_back j \<Longrightarrow> drop p src = json_text j @ r \<Longrightarrow> delimited r \<Longrightarrow>
   \<exists>f. value_at f src p = Some (Inr (node_of p j, p + length (json_text j)))"
  unfolding reads_back_def by blast

lemma json_text_hd:
  "json_ok j \<Longrightarrow> \<exists>c t. json_text j = c # t \<and> \<not> blank_char c \<and> c \<notin> {CHR ''/'', CHR '']'', CHR ''}'', CHR '','', CHR '':''}"
  by (cases j) (auto simp: json_quote_def literal_byte_def blank_char_def neq_Nil_conv)

lemma reads_back_token:
  assumes "json_ok j" and "drop p src = json_text j @ r"
  shows "at_token src p \<and> src ! p \<noteq> CHR '']'' \<and> src ! p \<noteq> CHR ''}'' \<and> src ! p \<noteq> CHR '',''"
  using json_text_hd [OF assms(1)] assms(2) drop_nth [of p src] token_byte [of p src] by force


lemma join_Cons_Cons: "join sep (x # y # zs) = x @ sep @ join sep (y # zs)"
  by simp

lemma token_at_byte:
  assumes "drop p src = c # r" and "c \<in> {CHR '','', CHR '']'', CHR ''}'', CHR '':'', CHR ''['', CHR ''{'', CHR 34}"
  shows "at_token src p" "src ! p = c"
  using assms token_byte [OF assms(1)] drop_nth [OF assms(1)] by (auto simp: blank_char_def)

lemma elements_read_back:
  assumes "xs \<noteq> []" and "\<forall>j \<in> set xs. json_ok j \<and> reads_back j"
    and "drop p src = join '', '' (map json_text xs) @ '']'' @ r"
  shows "\<exists>f. array_loop f src st p its cs False =
      Some (Inr (Node (CHR ''['') st (p + length (join '', '' (map json_text xs)) + 1) [] [] []
          (its @ elem_nodes p xs) (cs @ elem_commas p xs) False,
        p + length (join '', '' (map json_text xs)) + 1))"
  using assms
proof (induction xs arbitrary: p its cs)
  case (Cons j xs)
  have j: "json_ok j" "reads_back j" using Cons.prems(2) by auto
  let ?w = "p + length (json_text j)" and ?v = "node_of p j"
  show ?case
  proof (cases xs)
    case Nil
    have p: "drop p src = json_text j @ CHR '']'' # r" using Cons.prems(3) Nil by simp
    obtain f where v: "value_at f src p = Some (Inr (?v, ?w))"
      using reads_backD [OF j(2) p] by (auto simp: delimited_def)
    note w = token_at_byte [OF drop_add [OF p], simplified]
    obtain g where g: "array_loop g src st ?w (its @ [?v]) cs False =
        Some (Inr (Node (CHR ''['') st (?w + 1) [] [] [] (its @ [?v]) cs False, ?w + 1))"
      using array_close [OF w] by blast
    have tok: "at_token src p" "src ! p \<noteq> CHR '']''" using reads_back_token [OF j(1) p] by auto
    have w': "blank src ?w = ?w" "src ! ?w \<noteq> CHR '',''" using w by auto
    show ?thesis using array_last [OF tok v w' g] Nil by simp
  next
    case (Cons k ys)
    let ?t = "join '', '' (map json_text xs)"
    have p: "drop p src = json_text j @ CHR '','' # CHR '' '' # ?t @ '']'' @ r"
      using Cons.prems(3) Cons by simp
    obtain f where v: "value_at f src p = Some (Inr (?v, ?w))"
      using reads_backD [OF j(2) p] by (auto simp: delimited_def)
    have dw: "drop ?w src = CHR '','' # CHR '' '' # ?t @ '']'' @ r" by (rule drop_add [OF p])
    have w: "at_token src ?w" "src ! ?w = CHR '',''" using token_at_byte [OF dw] by auto
    have dx: "drop (?w + 1) src = CHR '' '' # ?t @ '']'' @ r" by (rule drop_Suc_Cons [OF dw])
    have dy: "drop (?w + 2) src = ?t @ '']'' @ r" using drop_Suc_Cons [OF dx] by simp
    have k: "at_token src (?w + 2)" "src ! (?w + 2) \<noteq> CHR '']''"
      using reads_back_token [of k "?w + 2" src] dy Cons Cons.prems(2) by (cases ys; auto)+
    have y: "blank src (?w + 1) = ?w + 2" using blank_space [OF dx] k(1) by simp
    have ne: "xs \<noteq> []" "\<forall>j \<in> set xs. json_ok j \<and> reads_back j" using Cons Cons.prems(2) by auto
    obtain g where g: "array_loop g src st (?w + 2) (its @ [?v]) (cs @ [?w]) False =
        Some (Inr (Node (CHR ''['') st (?w + 2 + length ?t + 1) [] [] [] ((its @ [?v]) @ elem_nodes (?w + 2) xs)
          ((cs @ [?w]) @ elem_commas (?w + 2) xs) False, ?w + 2 + length ?t + 1))"
      using Cons.IH [OF ne dy, of "its @ [?v]" "cs @ [?w]"] by blast
    have tok: "at_token src p" "src ! p \<noteq> CHR '']''" using reads_back_token [OF j(1) p] by auto
    show ?thesis using array_comma [OF tok v w y k(2) g] Cons by (simp add: add.assoc)
  qed
qed simp

lemma member_reads_back:
  assumes "json_ok (snd kv)" and "reads_back (snd kv)" and "drop p src = member_text kv @ r" and "delimited r"
  obtains key k f where "at_token src p" "src ! p \<noteq> CHR ''}''" "str src p = Inr (key, k)"
    "nvalue key = to_valid_utf8 (fst kv)" "nstart key = p"
    "at_token src k" "src ! k = CHR '':''"
    "value_at f src (k + 1) = Some (Inr (node_of (p + length (json_quote (fst kv)) + 2) (snd kv), p + length (member_text kv)))"
proof -
  let ?k = "p + length (json_quote (fst kv))"
  have p: "drop p src = json_quote (fst kv) @ CHR '':'' # CHR '' '' # json_text (snd kv) @ r"
    using assms(3) by simp
  then have p34: "drop p src = CHR 34 # quote_body (fst kv) @ CHR 34 # CHR '':'' # CHR '' '' # json_text (snd kv) @ r"
    by (simp add: json_quote_def)
  have dk: "drop ?k src = CHR '':'' # CHR '' '' # json_text (snd kv) @ r" by (rule drop_add [OF p])
  have dk1: "drop (?k + 1) src = CHR '' '' # json_text (snd kv) @ r" by (rule drop_Suc_Cons [OF dk])
  have dv: "drop (?k + 1 + 1) src = json_text (snd kv) @ r" by (rule drop_Suc_Cons [OF dk1])
  obtain f where "value_at f src (?k + 1 + 1) =
      Some (Inr (node_of (?k + 1 + 1) (snd kv), ?k + 1 + 1 + length (json_text (snd kv))))"
    using reads_backD [OF assms(2) dv assms(4)] by blast
  then have v: "value_at f src (?k + 1) = Some (Inr (node_of (?k + 2) (snd kv), p + length (member_text kv)))"
    using value_space [OF dk1, of f] by (simp_all add: add.assoc)
  show thesis
    using that [OF token_at_byte(1) [OF p34] _ str_quote [OF p] _ _ token_at_byte [OF dk] v] token_at_byte(2) [OF p34]
    by simp
qed

lemma members_read_back:
  assumes "kvs \<noteq> []" and "\<forall>kv \<in> set kvs. json_ok (snd kv) \<and> reads_back (snd kv)"
    and "drop p src = join '', '' (map member_text kvs) @ ''}'' @ r"
  shows "\<exists>f. object_loop f src st p ks ps its False =
      Some (Inr (Node (CHR ''{'') st (p + length (join '', '' (map member_text kvs)) + 1) []
          (ks @ map (to_valid_utf8 \<circ> fst) kvs) (ps @ member_starts p kvs) (its @ member_nodes p kvs) [] False,
        p + length (join '', '' (map member_text kvs)) + 1))"
  using assms
proof (induction kvs arbitrary: p ks ps its)
  case (Cons kv kvs)
  have j: "json_ok (snd kv)" "reads_back (snd kv)" using Cons.prems(2) by auto
  let ?w = "p + length (member_text kv)" and ?v = "node_of (p + length (json_quote (fst kv)) + 2) (snd kv)"
  obtain kk kj where kv: "kv = (kk, kj)" by (cases kv)
  show ?case
  proof (cases kvs)
    case Nil
    have p: "drop p src = member_text kv @ CHR ''}'' # r" using Cons.prems(3) Nil by simp
    obtain key k f where m: "at_token src p" "src ! p \<noteq> CHR ''}''" "str src p = Inr (key, k)"
      and key: "nvalue key = to_valid_utf8 (fst kv)" "nstart key = p"
      and k: "at_token src k" "src ! k = CHR '':''" "value_at f src (k + 1) = Some (Inr (?v, ?w))"
      by (rule member_reads_back [OF j p]) (simp add: delimited_def)
    have w: "at_token src ?w" "src ! ?w = CHR ''}''" using token_at_byte [OF drop_add [OF p]] by auto
    then have w': "blank src ?w = ?w" "src ! ?w \<noteq> CHR '',''" by auto
    obtain g where g: "object_loop g src st ?w (ks @ [nvalue key]) (ps @ [nstart key]) (its @ [?v]) False =
        Some (Inr (Node (CHR ''{'') st (?w + 1) [] (ks @ [nvalue key]) (ps @ [nstart key]) (its @ [?v]) [] False, ?w + 1))"
      using object_close [OF w, of st "ks @ [nvalue key]" "ps @ [nstart key]" "its @ [?v]" False] by blast
    show ?thesis using object_last [OF m k w' g] Nil key kv by simp
  next
    case (Cons kv2 ys)
    let ?t = "join '', '' (map member_text kvs)"
    have p: "drop p src = member_text kv @ CHR '','' # CHR '' '' # ?t @ ''}'' @ r"
      using Cons.prems(3) Cons by simp
    obtain key k f where m: "at_token src p" "src ! p \<noteq> CHR ''}''" "str src p = Inr (key, k)"
      and key: "nvalue key = to_valid_utf8 (fst kv)" "nstart key = p"
      and k: "at_token src k" "src ! k = CHR '':''" "value_at f src (k + 1) = Some (Inr (?v, ?w))"
      by (rule member_reads_back [OF j p]) (simp add: delimited_def)
    have dw: "drop ?w src = CHR '','' # CHR '' '' # ?t @ ''}'' @ r" by (rule drop_add [OF p])
    have w: "at_token src ?w" "src ! ?w = CHR '',''" using token_at_byte [OF dw] by auto
    have dx: "drop (?w + 1) src = CHR '' '' # ?t @ ''}'' @ r" by (rule drop_Suc_Cons [OF dw])
    have dy: "drop (?w + 2) src = ?t @ ''}'' @ r" using drop_Suc_Cons [OF dx] by simp
    have "\<exists>z. ?t = CHR 34 # z" using Cons by (cases ys) (auto simp: json_quote_def)
    then obtain z where dz: "drop (?w + 2) src = CHR 34 # z" using dy by auto
    have y: "blank src (?w + 1) = ?w + 2" "src ! (?w + 2) \<noteq> CHR ''}''"
      using blank_space [OF dx] token_at_byte [OF dz] by auto
    have ne: "kvs \<noteq> []" "\<forall>kv \<in> set kvs. json_ok (snd kv) \<and> reads_back (snd kv)"
      using Cons Cons.prems(2) by auto
    obtain g where g: "object_loop g src st (?w + 2) (ks @ [nvalue key]) (ps @ [nstart key]) (its @ [?v]) False =
        Some (Inr (Node (CHR ''{'') st (?w + 2 + length ?t + 1) []
          ((ks @ [nvalue key]) @ map (to_valid_utf8 \<circ> fst) kvs) ((ps @ [nstart key]) @ member_starts (?w + 2) kvs)
          ((its @ [?v]) @ member_nodes (?w + 2) kvs) [] False, ?w + 2 + length ?t + 1))"
      using Cons.IH [OF ne dy, of "ks @ [nvalue key]" "ps @ [nstart key]" "its @ [?v]"] by blast
    show ?thesis using object_comma [OF m k w y g] Cons key kv by (simp add: add.assoc comp_def)
  qed
qed simp

lemma member_text_map:
  "map (\<lambda>(k, v). json_quote k @ '': '' @ json_text v) kvs = map member_text kvs"
  by (simp add: case_prod_beta)

lemma json_text_JObj: "json_text (JObj kvs) = ''{'' @ join '', '' (map member_text kvs) @ ''}''"
  by (simp only: json_text.simps member_text_map)

lemma value_open:
  assumes "drop p src = c # r" and "c = CHR ''['' \<or> c = CHR ''{''"
  shows "value_at (Suc f) src p =
    (if c = CHR ''{'' then object_loop f src p (p + 1) [] [] [] False else array_loop f src p (p + 1) [] [] False)"
  using token_at_byte [OF assms(1)] at_token_less [of src p] assms(2)
  by (auto simp: value_call_def Let_def)

lemma read_back_JStr: "reads_back (JStr s)"
  unfolding reads_back_def
proof (intro allI impI)
  fix src p r
  assume p: "drop p src = json_text (JStr s) @ r"
  then have "drop p src = CHR 34 # quote_body s @ CHR 34 # r" by (simp add: json_quote_def)
  from token_at_byte [OF this] have t: "at_token src p" "src ! p = CHR 34" by auto
  then have "value_at (Suc 0) src p = Some (str src p)"
    by (auto simp: value_call_def Let_def dest: at_token_less)
  then show "\<exists>f. value_at f src p = Some (Inr (node_of p (JStr s), p + length (json_text (JStr s))))"
    using str_quote [of p src s r] p by (intro exI [of _ "Suc 0"]) (auto simp del: value_at.simps)
qed

lemma read_back_JLit:
  assumes "json_ok (JLit s)"
  shows "reads_back (JLit s)"
  unfolding reads_back_def
proof (intro allI impI)
  fix src p r
  assume p: "drop p src = json_text (JLit s) @ r" and d: "delimited r"
  obtain c s' where c: "s = c # s'" "literal_byte c" using assms by (cases s) auto
  then have "at_token src p" "src ! p = c" "p < length src"
    using token_byte [of p src c] drop_nth [of p src c] p by (auto simp: literal_byte_def blank_char_def)
  then have "value_at (Suc 0) src p = Some (Inr (literal src p))"
    using c(2) by (auto simp: value_call_def Let_def literal_byte_def)
  moreover have "scan_literal src p = p + length s" using p d assms by (intro scan_literal_run) auto
  ultimately show "\<exists>f. value_at f src p = Some (Inr (node_of p (JLit s), p + length (json_text (JLit s))))"
    by (intro exI [of _ "Suc 0"]) (auto simp: literal_def Let_def simp del: value_at.simps)
qed

lemma read_back_JArr:
  assumes "\<forall>j \<in> set xs. json_ok j \<and> reads_back j"
  shows "reads_back (JArr xs)"
  unfolding reads_back_def
proof (intro allI impI)
  fix src p r
  assume p: "drop p src = json_text (JArr xs) @ r"
  let ?t = "join '', '' (map json_text xs)"
  have p1: "drop p src = CHR ''['' # ?t @ '']'' @ r" using p by simp
  have d: "drop (p + 1) src = ?t @ '']'' @ r" by (rule drop_Suc_Cons [OF p1])
  have "\<exists>f. array_loop f src p (p + 1) [] [] False =
      Some (Inr (Node (CHR ''['') p (p + 1 + length ?t + 1) [] [] [] (elem_nodes (p + 1) xs) (elem_commas (p + 1) xs) False,
        p + 1 + length ?t + 1))"
  proof (cases "xs = []")
    case True
    then show ?thesis using array_close [of src "p + 1" p "[]" "[]" False] token_at_byte [of "p + 1" src "CHR '']''" r] d
      by auto
  next
    case False
    then show ?thesis using elements_read_back [OF False assms d, of p "[]" "[]"] by simp
  qed
  then obtain f where "array_loop f src p (p + 1) [] [] False =
      Some (Inr (Node (CHR ''['') p (p + 1 + length ?t + 1) [] [] [] (elem_nodes (p + 1) xs) (elem_commas (p + 1) xs) False,
        p + 1 + length ?t + 1))" by blast
  then show "\<exists>f. value_at f src p = Some (Inr (node_of p (JArr xs), p + length (json_text (JArr xs))))"
    using value_open [OF p1, of f] by (intro exI [of _ "Suc f"]) auto
qed

lemma read_back_JObj:
  assumes "\<forall>kv \<in> set kvs. json_ok (snd kv) \<and> reads_back (snd kv)"
  shows "reads_back (JObj kvs)"
  unfolding reads_back_def
proof (intro allI impI)
  fix src p r
  assume p: "drop p src = json_text (JObj kvs) @ r"
  let ?t = "join '', '' (map member_text kvs)"
  have p1: "drop p src = CHR ''{'' # ?t @ ''}'' @ r" using p by (simp add: json_text_JObj del: json_text.simps)
  have d: "drop (p + 1) src = ?t @ ''}'' @ r" by (rule drop_Suc_Cons [OF p1])
  have "\<exists>f. object_loop f src p (p + 1) [] [] [] False =
      Some (Inr (Node (CHR ''{'') p (p + 1 + length ?t + 1) [] (map (to_valid_utf8 \<circ> fst) kvs)
        (member_starts (p + 1) kvs) (member_nodes (p + 1) kvs) [] False, p + 1 + length ?t + 1))"
  proof (cases "kvs = []")
    case True
    then show ?thesis using object_close [of src "p + 1" p "[]" "[]" "[]" False] token_at_byte [of "p + 1" src "CHR ''}''" r] d
      by auto
  next
    case False
    then show ?thesis using members_read_back [OF False assms d, of p "[]" "[]" "[]"] by simp
  qed
  then obtain f where "object_loop f src p (p + 1) [] [] [] False =
      Some (Inr (Node (CHR ''{'') p (p + 1 + length ?t + 1) [] (map (to_valid_utf8 \<circ> fst) kvs)
        (member_starts (p + 1) kvs) (member_nodes (p + 1) kvs) [] False, p + 1 + length ?t + 1))" by blast
  then show "\<exists>f. value_at f src p = Some (Inr (node_of p (JObj kvs), p + length (json_text (JObj kvs))))"
    using value_open [OF p1, of f] by (intro exI [of _ "Suc f"]) (auto simp: json_text_JObj simp del: json_text.simps)
qed

lemma read_back: "json_ok j \<Longrightarrow> reads_back j"
proof (induction j)
  case (JStr s)
  show ?case by (rule read_back_JStr)
next
  case (JLit s)
  then show ?case by (rule read_back_JLit)
next
  case (JArr xs)
  then show ?case by (intro read_back_JArr) (auto simp: list_all_iff)
next
  case (JObj kvs)
  then show ?case by (intro read_back_JObj) (force simp: list_all_iff)
qed

lemma parse_text:
  assumes "json_ok j" and "parse_fuel (json_text j) \<le> g"
  shows "parseJSONC g (json_text j) = Some (Inr (node_of 0 j))"
proof -
  obtain f where "value_at f (json_text j) 0 = Some (Inr (node_of 0 j, length (json_text j)))"
    using reads_backD [OF read_back [OF assms(1)], of 0 "json_text j" "[]"] by (auto simp: delimited_def)
  then have "parseJSONC f (json_text j) = Some (Inr (node_of 0 j))"
    by (simp add: parseJSONC_def Let_def blank.simps)
  then show ?thesis using assms(2) by (rule parse_fuel_decides)
qed

text \<open>
  C20. The one-line text of any JSON value parses back, within the fuel of its length, into the
  node of that value: same kinds, keys and strings all the way down, with exactly the spans the
  text has.
\<close>

theorem text_parses_back:
  assumes "json_ok j"
  shows "parseJSONC (parse_fuel (json_text j)) (json_text j) = Some (Inr (node_of 0 j))"
  using parse_text [OF assms] by simp

theorem text_parses_back_witness:
  "\<exists>n. parseJSONC (parse_fuel (json_text (JObj [(''a'', JArr [JLit ''1'', JStr ''b''])])))
     (json_text (JObj [(''a'', JArr [JLit ''1'', JStr ''b''])])) = Some (Inr n) \<and>
   node_get n ''a'' \<noteq> None"
proof -
  have ok: "json_ok (JObj [(''a'', JArr [JLit ''1'', JStr ''b''])])" by (simp add: literal_byte_def)
  then show ?thesis using text_parses_back [OF ok] by (simp add: valid_plain plain_byte_def del: json_text.simps)
qed

end
