(* ===== verification/Render.thy ===== *)
theory Render
  imports JsonText "HOL-Library.Multiset" "HOL-Library.Sublist"
begin

text \<open>
  The render of a roster plan into the xray config document: \<^verbatim>\<open>RenderClients\<close> of
  \<^verbatim>\<open>src/internal/xrayconfig/render.go\<close> and the edits it plans, and \<^verbatim>\<open>FileRenderer\<close> of
  \<^verbatim>\<open>src/internal/roster/render.go\<close>, which writes the result.

  An index out of range is the outcome \<open>Panics\<close>, a parse that does not return \<open>Hangs\<close>.  Go leaves
  the order of edits at equal offsets to \<^verbatim>\<open>slices.SortFunc\<close>, which is an argument; the theorems
  hold for every sort.
\<close>

section \<open>Plans and edits\<close>

record client_op =
  op_Email :: string
  op_ID :: string
  op_Flow :: string

record render_plan =
  pl_Adds :: "client_op list gomap"
  pl_Removes :: "string list gomap"
  pl_Sets :: "client_op list gomap"

definition plan_empty :: "render_plan \<Rightarrow> bool" where
  "plan_empty p \<longleftrightarrow> pl_Adds p = [] \<and> pl_Removes p = [] \<and> pl_Sets p = []"

record text_edit =
  te_at :: nat
  te_end :: nat
  te_text :: string

record insertion =
  ins_at :: nat
  ins_text :: string

datatype render_error =
    ScanFailed parse_error
  | NoInbounds
  | NotVless string
  | NoSettings string
  | ClientsNotArray

datatype render_outcome =
    Hangs
  | Panics
  | RenderFailed render_error
  | Rendering_done string bool

section \<open>Layout\<close>

definition multiline :: "string \<Rightarrow> nat \<Rightarrow> nat \<Rightarrow> bool" where
  "multiline document s e \<longleftrightarrow> CHR 10 \<in> set (slice document s e)"

text \<open>\<^verbatim>\<open>bytes.LastIndexByte(document[:pos], '\n') + 1\<close>.\<close>

definition line_start :: "string \<Rightarrow> nat \<Rightarrow> nat" where
  "line_start document pos =
     (let t = take pos document in length t - length (takeWhile (\<lambda>c. c \<noteq> CHR 10) (rev t)))"

definition lineIndent :: "string \<Rightarrow> nat \<Rightarrow> string" where
  "lineIndent document pos =
     takeWhile (\<lambda>c. c = CHR '' '' \<or> c = CHR 9) (drop (line_start document pos) document)"

section \<open>Planning\<close>

definition byEmailOf :: "node \<Rightarrow> nat gomap" where
  "byEmailOf clients =
     fold (\<lambda>(index, entry) m.
         if kind entry \<noteq> CHR ''{'' then m
         else case node_get entry ''email'' of
           None \<Rightarrow> m
         | Some email \<Rightarrow> if kind email = CHR 34 then AList.update (nvalue email) index m else m)
       (enumerate 0 (items clients)) []"

definition emailsOf :: "nat gomap \<Rightarrow> string list" where
  "emailsOf byEmail = map fst byEmail"

definition dropEmails :: "client_op list \<Rightarrow> string list \<Rightarrow> client_op list" where
  "dropEmails ops present = filter (\<lambda>op. op_Email op \<notin> set present) ops"

abbreviation quoted :: "string \<Rightarrow> string" where
  "quoted s \<equiv> CHR 34 # s @ [CHR 34]"

definition renderEntry :: "client_op \<Rightarrow> string" where
  "renderEntry client =
     ''{'' @ quoted ''email'' @ '': '' @ json_quote (op_Email client) @ '', '' @
     quoted ''id'' @ '': '' @ json_quote (op_ID client) @
     (if op_Flow client \<noteq> [] then '', '' @ quoted ''flow'' @ '': '' @ json_quote (op_Flow client) else []) @
     ''}''"

definition renderEntries :: "client_op list \<Rightarrow> string list" where
  "renderEntries add = map renderEntry add"

definition renderClientsValue :: "string \<Rightarrow> client_op list \<Rightarrow> string" where
  "renderClientsValue keyIndent add =
     ''['' @ [CHR 10] @ keyIndent @ ''  '' @
     join ('','' @ [CHR 10] @ keyIndent @ ''  '') (renderEntries add) @ [CHR 10] @ keyIndent @ '']''"

text \<open>The entry to drop with its separator; \<^const>\<open>None\<close> is the index out of range of \<^verbatim>\<open>clients.commas\<close>.\<close>

definition planEntryRemoval :: "node \<Rightarrow> nat \<Rightarrow> text_edit option" where
  "planEntryRemoval clients index =
     (let entry = items clients ! index in
      if index < length (items clients) - 1 then
        Some \<lparr>te_at = nstart entry, te_end = nstart (items clients ! (index + 1)), te_text = []\<rparr>
      else if index < length (commas clients) then
        Some \<lparr>te_at = nstart entry, te_end = commas clients ! index + 1, te_text = []\<rparr>
      else if index > 0 then
        (if index - 1 < length (commas clients)
         then Some \<lparr>te_at = commas clients ! (index - 1), te_end = nend entry, te_text = []\<rparr> else None)
      else Some \<lparr>te_at = nstart entry, te_end = nend entry, te_text = []\<rparr>)"

definition planIDSet :: "node \<Rightarrow> string \<Rightarrow> text_edit option" where
  "planIDSet entry id0 =
     (let encoded = json_quote id0;
          gain = (if items entry = []
            then \<lparr>te_at = nstart entry + 1, te_end = nstart entry + 1, te_text = quoted ''id'' @ '': '' @ encoded\<rparr>
            else \<lparr>te_at = nstart entry + 1, te_end = nstart entry + 1, te_text = quoted ''id'' @ '': '' @ encoded @ '', ''\<rparr>)
      in case node_get entry ''id'' of
        None \<Rightarrow> Some gain
      | Some key \<Rightarrow>
          if kind key = CHR 34 then
            (if nvalue key = id0 then None
             else Some \<lparr>te_at = nstart key, te_end = nend key, te_text = encoded\<rparr>)
          else Some gain)"

definition planClientsInsert ::
  "string \<Rightarrow> node \<Rightarrow> client_op list \<Rightarrow> render_error + insertion option" where
  "planClientsInsert document settings add =
     (case node_get settings ''clients'' of
        None \<Rightarrow>
          let key = json_quote ''clients'' in
          if items settings = [] then
            if multiline document (nstart settings) (nend settings) then
              let indent = lineIndent document (nstart settings) @ ''  '' in
              Inr (Some \<lparr>ins_at = nstart settings + 1,
                ins_text = [CHR 10] @ indent @ key @ '': '' @ renderClientsValue indent add @ [CHR 10] @
                  lineIndent document (nstart settings)\<rparr>)
            else Inr (Some \<lparr>ins_at = nstart settings + 1,
                ins_text = key @ '': ['' @ join '', '' (renderEntries add) @ '']''\<rparr>)
          else
            if multiline document (nstart settings) (nend settings) then
              let indent = lineIndent document (last (propStarts settings)) in
              Inr (Some \<lparr>ins_at = nend (last (items settings)),
                ins_text = '','' @ [CHR 10] @ indent @ key @ '': '' @ renderClientsValue indent add\<rparr>)
            else Inr (Some \<lparr>ins_at = nend (last (items settings)),
                ins_text = '', '' @ key @ '': ['' @ join '', '' (renderEntries add) @ '']''\<rparr>)
      | Some clients \<Rightarrow>
          if kind clients \<noteq> CHR ''['' then Inl ClientsNotArray
          else
            let remaining = dropEmails add (emailsOf (byEmailOf clients)); entries = renderEntries remaining in
            if remaining = [] then Inr None
            else if items clients = [] then
              if multiline document (nstart clients) (nend clients) then
                let keyIndent = lineIndent document (nstart clients) in
                Inr (Some \<lparr>ins_at = nstart clients + 1,
                  ins_text = [CHR 10] @ keyIndent @ ''  '' @ join ('','' @ [CHR 10] @ keyIndent @ ''  '') entries @
                    [CHR 10] @ keyIndent\<rparr>)
              else Inr (Some \<lparr>ins_at = nstart clients + 1, ins_text = join '', '' entries\<rparr>)
            else
              let lst = last (items clients); indent = lineIndent document (nstart lst) in
              if trailing clients then
                if multiline document (nstart clients) (nend clients) then
                  Inr (Some \<lparr>ins_at = line_start document (nend clients - 1),
                    ins_text = indent @ join ('','' @ [CHR 10] @ indent) entries @ [CHR 10]\<rparr>)
                else
                  let gap = takeWhile (\<lambda>c. c \<noteq> CHR '','') (slice document (nend lst) (nend clients)) in
                  Inr (Some \<lparr>ins_at = nend lst +
                      (if CHR '','' \<in> set (slice document (nend lst) (nend clients)) then length gap + 1 else 0),
                    ins_text = '' '' @ join '', '' entries\<rparr>)
              else if multiline document (nstart clients) (nend clients) then
                Inr (Some \<lparr>ins_at = nend lst, ins_text = '','' @ [CHR 10] @ indent @ join ('','' @ [CHR 10] @ indent) entries\<rparr>)
              else Inr (Some \<lparr>ins_at = nend lst, ins_text = '', '' @ join '', '' entries\<rparr>))"

section \<open>RenderClients\<close>

text \<open>The removals of one inbound; \<^const>\<open>None\<close> is a panic.\<close>

fun plan_removals :: "node \<Rightarrow> nat gomap \<Rightarrow> string list \<Rightarrow> text_edit list option" where
  "plan_removals clients byEmail [] = Some []"
| "plan_removals clients byEmail (email # removes) =
     (case map_of byEmail email of
        None \<Rightarrow> plan_removals clients byEmail removes
      | Some index \<Rightarrow>
          (case (planEntryRemoval clients index, plan_removals clients byEmail removes) of
             (Some e, Some es) \<Rightarrow> Some (e # es)
           | _ \<Rightarrow> None))"

text \<open>The sets of one inbound: rewrites of ids the array carries, and the operations left to append.\<close>

fun plan_sets :: "node \<Rightarrow> nat gomap \<Rightarrow> client_op list \<Rightarrow> text_edit list \<times> client_op list" where
  "plan_sets clients byEmail [] = ([], [])"
| "plan_sets clients byEmail (op # sets) =
     (let (edits, rest) = plan_sets clients byEmail sets in
      case map_of byEmail (op_Email op) of
        None \<Rightarrow> (edits, op # rest)
      | Some index \<Rightarrow>
          (case planIDSet (items clients ! index) (op_ID op) of
             None \<Rightarrow> (edits, rest)
           | Some e \<Rightarrow> (e # edits, rest)))"

definition insert_edits :: "insertion option \<Rightarrow> text_edit list" where
  "insert_edits i = (case i of None \<Rightarrow> []
     | Some x \<Rightarrow> [\<lparr>te_at = ins_at x, te_end = ins_at x, te_text = ins_text x\<rparr>])"

definition managed :: "render_plan \<Rightarrow> string \<Rightarrow> bool" where
  "managed plan tag \<longleftrightarrow> has_key (pl_Adds plan) tag \<or> has_key (pl_Removes plan) tag \<or> has_key (pl_Sets plan) tag"

text \<open>The loop body of \<^verbatim>\<open>RenderClients\<close> for one inbound.\<close>

definition plan_inbound :: "string \<Rightarrow> render_plan \<Rightarrow> node \<Rightarrow> (render_error + text_edit list) option" where
  "plan_inbound document plan inbound =
     (if kind inbound \<noteq> CHR ''{'' then Some (Inr [])
      else case node_get inbound ''tag'' of
        None \<Rightarrow> Some (Inr [])
      | Some tag \<Rightarrow>
        if kind tag \<noteq> CHR 34 \<or> \<not> managed plan (nvalue tag) then Some (Inr [])
        else
          let adds = get_or [] (pl_Adds plan) (nvalue tag);
              removes = get_or [] (pl_Removes plan) (nvalue tag);
              sets = get_or [] (pl_Sets plan) (nvalue tag) in
          if (case node_get inbound ''protocol'' of None \<Rightarrow> True
              | Some protocol \<Rightarrow> \<not> equal_fold (nvalue protocol) ''vless'')
            then Some (Inl (NotVless (nvalue tag)))
          else case node_get inbound ''settings'' of
            None \<Rightarrow> Some (Inl (NoSettings (nvalue tag)))
          | Some settings \<Rightarrow>
            if kind settings \<noteq> CHR ''{'' then Some (Inl (NoSettings (nvalue tag)))
            else case node_get settings ''clients'' of
              None \<Rightarrow>
                let appendOps = adds @ sets;
                    appendOps' = (if removes \<noteq> [] then dropEmails appendOps removes else appendOps) in
                (case planClientsInsert document settings appendOps' of
                   Inl e \<Rightarrow> Some (Inl e)
                 | Inr i \<Rightarrow> Some (Inr (insert_edits i)))
            | Some clients \<Rightarrow>
              if kind clients \<noteq> CHR ''['' then Some (Inl ClientsNotArray)
              else
                let byEmail = byEmailOf clients; (rewrites, rest) = plan_sets clients byEmail sets;
                    appendOps = adds @ rest in
                case plan_removals clients byEmail removes of
                  None \<Rightarrow> None
                | Some removals \<Rightarrow>
                  if appendOps = [] then Some (Inr (removals @ rewrites))
                  else case planClientsInsert document settings (dropEmails appendOps (emailsOf byEmail)) of
                    Inl e \<Rightarrow> Some (Inl e)
                  | Inr i \<Rightarrow> Some (Inr (removals @ rewrites @ insert_edits i)))"

fun plan_inbounds :: "string \<Rightarrow> render_plan \<Rightarrow> node list \<Rightarrow> (render_error + text_edit list) option" where
  "plan_inbounds document plan [] = Some (Inr [])"
| "plan_inbounds document plan (inbound # rest) =
     (case plan_inbound document plan inbound of
        None \<Rightarrow> None
      | Some (Inl e) \<Rightarrow> Some (Inl e)
      | Some (Inr edits) \<Rightarrow>
          (case plan_inbounds document plan rest of
             Some (Inr others) \<Rightarrow> Some (Inr (edits @ others))
           | r \<Rightarrow> r))"

text \<open>The edits applied one after the other; \<^const>\<open>None\<close> is a slice out of range.\<close>

fun apply_edits :: "string \<Rightarrow> text_edit list \<Rightarrow> string option" where
  "apply_edits rendered [] = Some rendered"
| "apply_edits rendered (e # edits) =
     (if te_at e \<le> length rendered \<and> te_end e \<le> length rendered
      then apply_edits (take (te_at e) rendered @ te_text e @ drop (te_end e) rendered) edits
      else None)"

definition RenderClients ::
  "(text_edit list \<Rightarrow> text_edit list) \<Rightarrow> nat \<Rightarrow> string \<Rightarrow> render_plan \<Rightarrow> render_outcome" where
  "RenderClients sort_edits fuel document plan =
     (if plan_empty plan then Rendering_done document False
      else case parseJSONC fuel document of
        None \<Rightarrow> Hangs
      | Some (Inl e) \<Rightarrow> RenderFailed (ScanFailed e)
      | Some (Inr root) \<Rightarrow>
        (case node_get root ''inbounds'' of
           None \<Rightarrow> RenderFailed NoInbounds
         | Some inbounds \<Rightarrow>
           if kind inbounds \<noteq> CHR ''['' then RenderFailed NoInbounds
           else case plan_inbounds document plan (items inbounds) of
             None \<Rightarrow> Panics
           | Some (Inl e) \<Rightarrow> RenderFailed e
           | Some (Inr edits) \<Rightarrow>
             if edits = [] then Rendering_done document False
             else (case apply_edits document (sort_edits edits) of
                 None \<Rightarrow> Panics
               | Some rendered \<Rightarrow> Rendering_done rendered True)))"

text \<open>What \<^verbatim>\<open>slices.SortFunc\<close> with the offsets compared downwards promises.\<close>

definition sorts_down :: "(text_edit list \<Rightarrow> text_edit list) \<Rightarrow> bool" where
  "sorts_down srt \<longleftrightarrow> (\<forall>es. mset (srt es) = mset es \<and> sorted_wrt (\<lambda>a b. te_at a \<ge> te_at b) (srt es))"

definition sort_down :: "text_edit list \<Rightarrow> text_edit list" where
  "sort_down es = rev (sort_key te_at es)"


section \<open>Edits applied last to first\<close>

text \<open>The reference: the document copied left to right, each edit's span replaced by its text.\<close>

fun spliced :: "string \<Rightarrow> nat \<Rightarrow> text_edit list \<Rightarrow> string" where
  "spliced document p [] = drop p document"
| "spliced document p (e # es) = slice document p (te_at e) @ te_text e @ spliced document (te_end e) es"

fun ordered :: "nat \<Rightarrow> text_edit list \<Rightarrow> nat \<Rightarrow> bool" where
  "ordered p [] n \<longleftrightarrow> p \<le> n"
| "ordered p (e # es) n \<longleftrightarrow> p \<le> te_at e \<and> te_at e \<le> te_end e \<and> ordered (te_end e) es n"

lemma ordered_le: "ordered p es n \<Longrightarrow> p \<le> n"
  by (induction p es n rule: ordered.induct) auto

lemma ordered_append: "ordered p (xs @ ys) n \<longleftrightarrow> (\<exists>m. ordered p xs m \<and> ordered m ys n)"
proof (induction xs arbitrary: p)
  case Nil
  have "ordered p ys n \<Longrightarrow> m \<le> p \<Longrightarrow> ordered m ys n" for m p by (cases ys) auto
  then show ?case by auto
qed auto

lemma apply_edits_append:
  "apply_edits d (xs @ ys) = (case apply_edits d xs of None \<Rightarrow> None | Some d' \<Rightarrow> apply_edits d' ys)"
  by (induction d xs rule: apply_edits.induct) auto

lemma apply_edits_splice_from:
  "ordered p es (length d) \<Longrightarrow> apply_edits d (rev es) = Some (take p d @ spliced d p es)"
proof (induction p es "length d" rule: ordered.induct)
  case (2 p e es)
  have e: "p \<le> te_at e" "te_at e \<le> te_end e" "te_end e \<le> length d" "ordered (te_end e) es (length d)"
    using 2(2) ordered_le by auto
  have "take (te_at e) d = take p d @ slice d p (te_at e)"
    using e(1) by (metis le_add_diff_inverse take_add)
  with e 2(1) [OF e(4)] show ?case by (simp add: apply_edits_append)
qed simp

lemma apply_edits_splice: "ordered 0 es (length d) \<Longrightarrow> apply_edits d (rev es) = Some (spliced d 0 es)"
  using apply_edits_splice_from [of 0 es d] by simp

lemma sorts_down_unique:
  assumes "sorts_down srt" and "sorted_wrt (<) (map te_at es)"
  shows "srt es = rev es"
proof -
  let ?xs = "rev (srt es)"
  have m: "mset ?xs = mset es" and "sorted_wrt (\<lambda>a b. te_at a \<ge> te_at b) (srt es)"
    using assms(1) by (auto simp: sorts_down_def)
  then have "sorted (map te_at ?xs)" by (simp add: sorted_wrt_rev sorted_wrt_map)
  moreover have "sorted (map te_at es)" "distinct (map te_at es)"
    using assms(2) by (auto simp: strict_sorted_iff)
  moreover have "mset (map te_at ?xs) = mset (map te_at es)" using m by (simp only: mset_map)
  ultimately have eq: "map te_at ?xs = map te_at es"
    by (metis properties_for_sort sorted_sort_id)
  have "inj_on te_at (set es)" using \<open>distinct (map te_at es)\<close> by (simp add: distinct_map)
  moreover have "set ?xs = set es" using m by (metis set_mset_mset)
  ultimately have "?xs = es" using eq by (metis inj_on_Un_image_eq_iff map_inj_on sup.idem)
  then show ?thesis by (metis rev_rev_ident)
qed

lemma sorts_down_sort_down: "sorts_down sort_down"
proof -
  have "sorted_wrt (\<lambda>a b. te_at a \<le> te_at b) (sort_key te_at es)" for es
    using sorted_sort_key [of te_at es] by (simp add: sorted_wrt_map)
  then show ?thesis by (auto simp: sorts_down_def sort_down_def sorted_wrt_rev)
qed

lemma subseq_splice:
  "ordered p es (length d) \<Longrightarrow> \<forall>e \<in> set es. te_end e = te_at e \<Longrightarrow> subseq (drop p d) (spliced d p es)"
proof (induction p es "length d" rule: ordered.induct)
  case (2 p e es)
  then have e: "p \<le> te_at e" "te_end e = te_at e" and IH: "subseq (drop (te_end e) d) (spliced d (te_end e) es)" by auto
  have "drop p d = slice d p (te_at e) @ drop (te_at e) d"
    using e(1) by (metis append_take_drop_id drop_drop le_add_diff_inverse add.commute)
  moreover have "subseq (slice d p (te_at e) @ drop (te_at e) d)
      (slice d p (te_at e) @ te_text e @ spliced d (te_end e) es)"
    using IH e(2) by (intro list_emb_append_mono list_emb_append2) auto
  ultimately show ?case by simp
qed simp


section \<open>Where the planned edits lie\<close>

lemma node_get_wf:
  assumes "wf_node d n" and "node_get n key = Some m"
  shows "wf_node d m \<and> nstart n < nstart m \<and> nend m < nend n \<and> nend n \<le> length d"
proof -
  obtain k s e v ks ps its cs tr where n: "n = Node k s e v ks ps its cs tr" by (cases n)
  from assms(2) n have k: "k = CHR ''{''" and z: "map_of (zip ks its) key = Some m" by (auto split: if_splits)
  from map_of_SomeD [OF z] have "m \<in> set its" by (rule set_zip_rightD)
  then obtain i where i: "i < length its" "its ! i = m" by (auto simp: in_set_conv_nth)
  have l: "laid_out (s + 1) its (e - 1)" "s + 2 \<le> e" using assms(1) n k by auto
  show ?thesis using laid_out_nth [OF l(1) i(1)] i(2) l(2) \<open>m \<in> set its\<close> assms(1) n by auto
qed

lemma wf_container:
  assumes "wf_node d n" and "kind n = CHR ''{'' \<or> kind n = CHR ''[''"
  shows "nstart n + 2 \<le> nend n \<and> nend n \<le> length d \<and> laid_out (nstart n + 1) (items n) (nend n - 1) \<and>
    (\<forall>m \<in> set (items n). wf_node d m)"
  using assms by (cases n) auto

lemma last_item_within:
  assumes "laid_out lo ns hi" and "ns \<noteq> []"
  shows "lo \<le> nend (last ns) \<and> nend (last ns) \<le> hi"
  using laid_out_nth [OF assms(1), of "length ns - 1"] assms(2) by (simp add: last_conv_nth)

lemma line_start_le: "line_start d pos \<le> pos"
  by (simp add: line_start_def Let_def le_diff_conv)

lemma line_start_after:
  assumes "i < pos" and "i < length d" and "d ! i = CHR 10"
  shows "i < line_start d pos"
proof -
  let ?t = "take pos d" and ?P = "\<lambda>c. c \<noteq> CHR 10"
  have "i < length ?t" "?t ! i = CHR 10" using assms by auto
  let ?k = "length ?t - Suc i"
  have "rev ?t ! ?k = ?t ! (length ?t - Suc ?k)" using \<open>i < length ?t\<close> by (intro rev_nth) linarith
  then have "rev ?t ! ?k = CHR 10" using \<open>i < length ?t\<close> \<open>?t ! i = CHR 10\<close> by (simp only: Suc_diff_Suc diff_diff_cancel less_imp_le)
  then have "\<not> ?k < length (takeWhile ?P (rev ?t))"
    by (metis (mono_tags, lifting) nth_mem set_takeWhileD takeWhile_nth)
  then show ?thesis using \<open>i < length ?t\<close> unfolding line_start_def Let_def by linarith
qed


lemma multiline_line_start:
  assumes "multiline d s e" and "s + 2 \<le> e" and "e \<le> length d" and "d ! (e - 1) = CHR '']''"
  shows "s < line_start d (e - 1)"
proof -
  obtain i where i: "i < e - s" "d ! (s + i) = CHR 10"
    using assms(1,3) by (auto simp: multiline_def in_set_conv_nth)
  then have "s + i \<noteq> e - 1" using assms(4) by auto
  then have "s + i < e - 1" using i(1) by linarith
  then have "s + i < line_start d (e - 1)" using i(2) assms(3) by (intro line_start_after) auto
  then show ?thesis by simp
qed

lemma gap_length: "c \<in> set xs \<Longrightarrow> length (takeWhile (\<lambda>x. x \<noteq> c) xs) < length xs"
  by (induction xs) auto

lemma insert_array_within:
  assumes wf: "wf_node d clients" and k: "kind clients = CHR ''[''"
    and g: "node_get settings ''clients'' = Some clients"
    and e: "planClientsInsert d settings add = Inr (Some i)"
  shows "nstart clients < ins_at i \<and> ins_at i \<le> nend clients"
proof -
  have c: "nstart clients + 2 \<le> nend clients" "nend clients \<le> length d"
    "laid_out (nstart clients + 1) (items clients) (nend clients - 1)"
    using wf_container [OF wf] k by auto
  have br: "d ! (nend clients - 1) = CHR '']''" using wf k by (cases clients) auto
  have ml: "multiline d (nstart clients) (nend clients) \<Longrightarrow> nstart clients < line_start d (nend clients - 1)"
    using multiline_line_start c(1,2) br by blast
  have le: "line_start d (nend clients - 1) \<le> nend clients" using line_start_le [of d "nend clients - 1"] by simp
  have ls: "items clients \<noteq> [] \<Longrightarrow> nstart clients + 1 \<le> nend (last (items clients)) \<and>
      nend (last (items clients)) \<le> nend clients - 1"
    using last_item_within [OF c(3)] by simp
  have gap: "CHR '','' \<in> set xs \<Longrightarrow> xs = slice d a (nend clients) \<Longrightarrow> a \<le> nend clients \<Longrightarrow>
      a + (length (takeWhile (\<lambda>c. c \<noteq> CHR '','') xs) + 1) \<le> nend clients" for xs a
    using gap_length [of "CHR '',''" xs] c(2) by simp
  show ?thesis
    using e g k c(1) ml le ls gap [OF _ refl]
    by (auto simp: planClientsInsert_def Let_def split: if_splits)
qed


lemma insert_within:
  assumes wf: "wf_node d settings" and k: "kind settings = CHR ''{''"
    and e: "planClientsInsert d settings add = Inr (Some i)"
  shows "nstart settings < ins_at i \<and> ins_at i < nend settings"
proof (cases "node_get settings ''clients''")
  case None
  have c: "nstart settings + 2 \<le> nend settings"
    "items settings \<noteq> [] \<Longrightarrow> nstart settings + 1 \<le> nend (last (items settings)) \<and>
      nend (last (items settings)) \<le> nend settings - 1"
    using wf_container [OF wf] k last_item_within by blast+
  then show ?thesis using e None by (auto simp: planClientsInsert_def Let_def split: if_splits)
next
  case (Some clients)
  then have "kind clients = CHR ''[''" using e by (auto simp: planClientsInsert_def split: if_splits)
  moreover have w: "wf_node d clients \<and> nstart settings < nstart clients \<and> nend clients < nend settings"
    using node_get_wf [OF wf Some] by simp
  ultimately show ?thesis using insert_array_within [OF _ _ Some e] by force
qed

lemma join_nonempty: "xs \<noteq> [] \<Longrightarrow> \<forall>x \<in> set xs. x \<noteq> [] \<Longrightarrow> join sep xs \<noteq> []"
  by (cases xs; cases "tl xs") auto

lemma insert_text_nonempty:
  assumes "planClientsInsert d settings add = Inr (Some i)"
  shows "ins_text i \<noteq> []"
proof -
  have "ops \<noteq> [] \<Longrightarrow> join sep (renderEntries ops) \<noteq> []" for sep ops
    by (rule join_nonempty) (auto simp: renderEntries_def renderEntry_def)
  then show ?thesis using assms
    by (auto simp: planClientsInsert_def Let_def json_quote_def split: option.splits if_splits)
qed

definition attach_only :: "render_plan \<Rightarrow> bool" where
  "attach_only plan \<longleftrightarrow> pl_Removes plan = [] \<and> pl_Sets plan = []"

lemma insert_edits_within:
  assumes "wf_node d settings" and "kind settings = CHR ''{''" and "planClientsInsert d settings add = Inr i"
    and "e \<in> set (insert_edits i)"
  shows "te_end e = te_at e \<and> nstart settings < te_at e \<and> te_end e < nend settings \<and> te_text e \<noteq> []"
  using assms insert_within [OF assms(1,2)] insert_text_nonempty by (auto simp: insert_edits_def split: option.splits)

lemma attach_inbound:
  assumes wf: "wf_node d inbound" and a: "attach_only plan"
  shows "case plan_inbound d plan inbound of None \<Rightarrow> False | Some (Inl _) \<Rightarrow> True
    | Some (Inr es) \<Rightarrow> length es \<le> 1 \<and>
        (\<forall>e \<in> set es. te_end e = te_at e \<and> nstart inbound < te_at e \<and> te_end e < nend inbound \<and> te_text e \<noteq> [])"
proof -
  have short: "length (insert_edits i) \<le> 1" for i by (simp add: insert_edits_def split: option.split)
  have within: "te_end e = te_at e \<and> nstart inbound < te_at e \<and> te_end e < nend inbound \<and> te_text e \<noteq> []"
    if "node_get inbound ''settings'' = Some settings" "kind settings = CHR ''{''"
      "planClientsInsert d settings add = Inr i" "e \<in> set (insert_edits i)" for settings add i e
    using insert_edits_within [OF _ that(2-4)] node_get_wf [OF wf that(1)] by force
  have [simp]: "get_or [] (pl_Removes plan) t = []" "get_or [] (pl_Sets plan) t = []" for t
    using a by (auto simp: attach_only_def)
  show ?thesis
    by (auto simp: plan_inbound_def Let_def short [simplified] intro: within
        split: option.split sum.split if_split dest: within)
qed


lemma attach_inbounds:
  assumes "laid_out lo ns hi" and "\<forall>n \<in> set ns. wf_node d n" and "attach_only plan"
  shows "case plan_inbounds d plan ns of None \<Rightarrow> False | Some (Inl _) \<Rightarrow> True
    | Some (Inr es) \<Rightarrow> ordered lo es hi \<and> sorted_wrt (<) (map te_at es) \<and>
        (\<forall>e \<in> set es. te_end e = te_at e \<and> lo < te_at e \<and> te_text e \<noteq> [])"
  using assms(1,2)
proof (induction lo ns hi rule: laid_out.induct)
  case (2 lo n ns hi)
  note n = attach_inbound [OF _ assms(3), of d n]
  from 2(2) have lo: "lo \<le> nstart n" "nstart n \<le> nend n" by auto
  show ?case
  proof (cases "\<exists>es. plan_inbound d plan n = Some (Inr es)")
    case False
    then show ?thesis using n 2(3) by (auto split: option.splits sum.splits)
  next
    case True
    then obtain es where es: "plan_inbound d plan n = Some (Inr es)" by blast
    then have e: "length es \<le> 1" "\<forall>e \<in> set es. te_end e = te_at e \<and> nstart n < te_at e \<and> te_end e < nend n \<and> te_text e \<noteq> []"
      using n 2(3) by auto
    have "case plan_inbounds d plan ns of None \<Rightarrow> False | Some (Inl _) \<Rightarrow> True
        | Some (Inr es) \<Rightarrow> ordered (nend n) es hi \<and> sorted_wrt (<) (map te_at es) \<and>
          (\<forall>e \<in> set es. te_end e = te_at e \<and> nend n < te_at e \<and> te_text e \<noteq> [])"
      using 2 by auto
    then show ?thesis
    proof (cases "\<exists>os. plan_inbounds d plan ns = Some (Inr os)")
      case True
      then obtain os where os: "plan_inbounds d plan ns = Some (Inr os)" by blast
      then have o: "ordered (nend n) os hi" "sorted_wrt (<) (map te_at os)"
        "\<forall>e \<in> set os. te_end e = te_at e \<and> nend n < te_at e \<and> te_text e \<noteq> []" using 2 by auto
      have "ordered lo es (nend n)" using e lo by (cases es) auto
      then have "ordered lo (es @ os) hi" using o(1) by (auto simp: ordered_append)
      moreover have "sorted_wrt (<) (map te_at (es @ os))"
        using e o lo by (cases es) (auto simp: sorted_wrt_append)
      moreover have "\<forall>e \<in> set (es @ os). te_end e = te_at e \<and> lo < te_at e \<and> te_text e \<noteq> []" using e o lo by force
      ultimately show ?thesis using es os by auto
    qed (use es in \<open>auto split: option.splits sum.splits\<close>)
  qed
qed simp

lemma render_attach:
  assumes "sorts_down srt" and "parseJSONC fuel d \<noteq> None" and "attach_only plan"
  shows "\<exists>es. ordered 0 es (length d) \<and> (\<forall>e \<in> set es. te_end e = te_at e \<and> te_text e \<noteq> []) \<and>
      RenderClients srt fuel d plan = Rendering_done (spliced d 0 es) (es \<noteq> []) \<or>
    (\<exists>err. RenderClients srt fuel d plan = RenderFailed err)"
proof -
  have plain: ?thesis if "RenderClients srt fuel d plan = Rendering_done d False"
    using that by (intro exI [of _ "[]"]) simp
  obtain r where r: "parseJSONC fuel d = Some r" using assms(2) by blast
  consider (empty) "plan_empty plan" | (err) "\<not> plan_empty plan" "\<exists>e. RenderClients srt fuel d plan = RenderFailed e"
    | (scan) root inbounds where "\<not> plan_empty plan" "r = Inr root" "node_get root ''inbounds'' = Some inbounds"
        "kind inbounds = CHR ''[''"
  proof (cases r)
    case (Inl e)
    then show thesis using that(1,2) r by (cases "plan_empty plan") (auto simp: RenderClients_def)
  next
    case (Inr root)
    show thesis
    proof (cases "\<exists>inbounds. node_get root ''inbounds'' = Some inbounds \<and> kind inbounds = CHR ''[''")
      case True
      then show thesis using that(1,3) Inr by blast
    next
      case False
      then show thesis using that(1,2) r Inr
        by (cases "plan_empty plan"; cases "node_get root ''inbounds''") (auto simp: RenderClients_def)
    qed
  qed
  then show ?thesis
  proof cases
    case empty
    then show ?thesis by (intro plain) (simp add: RenderClients_def)
  next
    case scan
    have "wf_node d root" using parseJSONC_ok [of fuel d root] r scan(2) by simp
    then have w: "wf_node d inbounds" "nend inbounds \<le> length d"
      using node_get_wf [OF _ scan(3)] by force+
    note c = wf_container [OF w(1)] scan(4)
    then have ai: "case plan_inbounds d plan (items inbounds) of None \<Rightarrow> False | Some (Inl _) \<Rightarrow> True
      | Some (Inr es) \<Rightarrow> ordered (nstart inbounds + 1) es (nend inbounds - 1) \<and> sorted_wrt (<) (map te_at es) \<and>
        (\<forall>e \<in> set es. te_end e = te_at e \<and> nstart inbounds + 1 < te_at e \<and> te_text e \<noteq> [])"
      using attach_inbounds [OF _ _ assms(3)] by blast
    show ?thesis
    proof (cases "plan_inbounds d plan (items inbounds)")
      case (Some x)
      show ?thesis
      proof (cases x)
        case (Inr es)
        have o: "ordered (nstart inbounds + 1) es (nend inbounds - 1)" "sorted_wrt (<) (map te_at es)"
          "\<forall>e \<in> set es. te_end e = te_at e \<and> te_text e \<noteq> []" using ai Some Inr by auto
        have m: "ordered a es b \<Longrightarrow> b \<le> c \<Longrightarrow> ordered a es c" for a b c
          by (induction a es b rule: ordered.induct) auto
        have o0: "ordered 0 es (length d)"
          using m [OF o(1), of "length d"] w(2) by (cases es) auto
        have "srt es = rev es" by (rule sorts_down_unique [OF assms(1) o(2)])
        then have "RenderClients srt fuel d plan = Rendering_done (spliced d 0 es) (es \<noteq> [])"
          using scan r Some Inr apply_edits_splice [OF o0] by (auto simp: RenderClients_def)
        then show ?thesis using o0 o(3) by blast
      qed (use scan r Some in \<open>auto simp: RenderClients_def\<close>)
    qed (use ai in simp)
  qed blast
qed


section \<open>The file\<close>

text \<open>
  \<^verbatim>\<open>FileRenderer.Render\<close>: read, render, and replace through a temporary file in the same
  directory.  The argument \<open>fails\<close> says which system call fails.  The state is the config file
  (contents and permissions) and the temporary file; \<^verbatim>\<open>os.Rename\<close> replaces the one by the other
  in one step.  The list holds the state after each call, so that a crash between two calls leaves
  one of its members; the deferred remove is the last.
\<close>

datatype sys_call = ReadFile | StatFile | CreateTemp | WriteTemp | ChmodTemp | CloseTemp | RenameTemp

record config_dir =
  cd_config :: "string \<times> nat"
  cd_temp :: "(string \<times> nat) option"

datatype file_outcome = FileError sys_call | FileRenderError render_error | FileCrash | FileDone bool

definition temp_mode :: nat where
  "temp_mode = 384"

fun replace_config :: "(sys_call \<Rightarrow> bool) \<Rightarrow> string \<Rightarrow> config_dir \<Rightarrow> config_dir list \<times> file_outcome" where
  "replace_config fails rendered s =
     (if fails StatFile then ([], FileError StatFile)
      else if fails CreateTemp then ([], FileError CreateTemp)
      else
        let s1 = s\<lparr>cd_temp := Some ([], temp_mode)\<rparr>;
            s2 = s\<lparr>cd_temp := Some (rendered, temp_mode)\<rparr>;
            s3 = s\<lparr>cd_temp := Some (rendered, snd (cd_config s))\<rparr>;
            s4 = s\<lparr>cd_config := (rendered, snd (cd_config s)), cd_temp := None\<rparr>;
            gone = s\<lparr>cd_temp := None\<rparr> in
        if fails WriteTemp then ([s1, gone], FileError WriteTemp)
        else if fails ChmodTemp then ([s1, s2, gone], FileError ChmodTemp)
        else if fails CloseTemp then ([s1, s2, s3, gone], FileError CloseTemp)
        else if fails RenameTemp then ([s1, s2, s3, gone], FileError RenameTemp)
        else ([s1, s2, s3, s4], FileDone True))"

definition FileRenderer_Render ::
  "(text_edit list \<Rightarrow> text_edit list) \<Rightarrow> nat \<Rightarrow> (sys_call \<Rightarrow> bool) \<Rightarrow> config_dir \<Rightarrow> render_plan \<Rightarrow>
   (config_dir list \<times> file_outcome) option" where
  "FileRenderer_Render sort_edits fuel fails s plan =
     (if fails ReadFile then Some ([], FileError ReadFile)
      else case RenderClients sort_edits fuel (fst (cd_config s)) plan of
        Hangs \<Rightarrow> None
      | Panics \<Rightarrow> Some ([], FileCrash)
      | RenderFailed e \<Rightarrow> Some ([], FileRenderError e)
      | Rendering_done rendered changed \<Rightarrow>
          if \<not> changed then Some ([], FileDone False) else Some (replace_config fails rendered s))"

section \<open>Converged documents\<close>

text \<open>The array already holds what the plan asks for under a tag.\<close>

definition carries :: "node \<Rightarrow> client_op \<Rightarrow> bool" where
  "carries clients op \<longleftrightarrow>
     (case map_of (byEmailOf clients) (op_Email op) of
        None \<Rightarrow> False
      | Some i \<Rightarrow>
          (case node_get (items clients ! i) ''id'' of
             None \<Rightarrow> False
           | Some key \<Rightarrow> kind key = CHR 34 \<and> nvalue key = op_ID op))"

definition converged_clients :: "render_plan \<Rightarrow> string \<Rightarrow> node \<Rightarrow> bool" where
  "converged_clients plan tag clients \<longleftrightarrow>
     (\<forall>op \<in> set (get_or [] (pl_Adds plan) tag). op_Email op \<in> set (emailsOf (byEmailOf clients))) \<and>
     (\<forall>email \<in> set (get_or [] (pl_Removes plan) tag). email \<notin> set (emailsOf (byEmailOf clients))) \<and>
     (\<forall>op \<in> set (get_or [] (pl_Sets plan) tag). carries clients op)"

text \<open>An inbound the plan does not manage, or a VLESS one whose clients have converged.\<close>

definition converged_inbound :: "render_plan \<Rightarrow> node \<Rightarrow> bool" where
  "converged_inbound plan inbound \<longleftrightarrow>
     kind inbound \<noteq> CHR ''{'' \<or>
     (case node_get inbound ''tag'' of
        None \<Rightarrow> True
      | Some tag \<Rightarrow>
          kind tag \<noteq> CHR 34 \<or> \<not> managed plan (nvalue tag) \<or>
          (case (node_get inbound ''protocol'', node_get inbound ''settings'') of
             (Some protocol, Some settings) \<Rightarrow>
               equal_fold (nvalue protocol) ''vless'' \<and> kind settings = CHR ''{'' \<and>
               (case node_get settings ''clients'' of
                  None \<Rightarrow> False
                | Some clients \<Rightarrow> kind clients = CHR ''['' \<and> converged_clients plan (nvalue tag) clients)
           | _ \<Rightarrow> False))"

lemma converged_removals:
  "\<forall>email \<in> set rs. email \<notin> set (emailsOf m) \<Longrightarrow> plan_removals clients m rs = Some []"
proof (induction rs)
  case (Cons r rs)
  then have "map_of m r = None" by (simp add: emailsOf_def map_of_eq_None_iff)
  with Cons show ?case by simp
qed simp

lemma carries_planIDSet: "carries clients op \<Longrightarrow>
    \<exists>i. map_of (byEmailOf clients) (op_Email op) = Some i \<and> planIDSet (items clients ! i) (op_ID op) = None"
  by (auto simp: carries_def planIDSet_def Let_def split: option.splits)

lemma converged_sets:
  "\<forall>op \<in> set ops. carries clients op \<Longrightarrow> plan_sets clients (byEmailOf clients) ops = ([], [])"
proof (induction ops)
  case (Cons op ops)
  then show ?case using carries_planIDSet [of clients op] by auto
qed simp

lemma dropEmails_present: "\<forall>op \<in> set ops. op_Email op \<in> set present \<Longrightarrow> dropEmails ops present = []"
  by (simp add: dropEmails_def)

lemma converged_plan_inbound:
  assumes "converged_inbound plan inbound"
  shows "plan_inbound d plan inbound = Some (Inr [])"
proof (cases "\<exists>tag protocol settings clients. kind inbound = CHR ''{'' \<and> node_get inbound ''tag'' = Some tag \<and>
    kind tag = CHR 34 \<and> managed plan (nvalue tag) \<and>
    node_get inbound ''protocol'' = Some protocol \<and> node_get inbound ''settings'' = Some settings \<and>
    equal_fold (nvalue protocol) ''vless'' \<and> kind settings = CHR ''{'' \<and>
    node_get settings ''clients'' = Some clients \<and> kind clients = CHR ''['' \<and> converged_clients plan (nvalue tag) clients")
  case True
  then obtain tag protocol settings clients where i: "kind inbound = CHR ''{''" "node_get inbound ''tag'' = Some tag"
    "kind tag = CHR 34" "managed plan (nvalue tag)"
    "node_get inbound ''protocol'' = Some protocol" "node_get inbound ''settings'' = Some settings"
    "equal_fold (nvalue protocol) ''vless''" "kind settings = CHR ''{''"
    "node_get settings ''clients'' = Some clients" "kind clients = CHR ''[''"
    and c: "converged_clients plan (nvalue tag) clients" by blast
  let ?adds = "get_or [] (pl_Adds plan) (nvalue tag)" and ?m = "byEmailOf clients"
  have r: "plan_removals clients ?m (get_or [] (pl_Removes plan) (nvalue tag)) = Some []"
    using c by (intro converged_removals) (simp add: converged_clients_def)
  have s: "plan_sets clients ?m (get_or [] (pl_Sets plan) (nvalue tag)) = ([], [])"
    using c by (intro converged_sets) (simp add: converged_clients_def)
  have a: "dropEmails ?adds (emailsOf ?m) = []"
    using c by (intro dropEmails_present) (simp add: converged_clients_def)
  have p: "planClientsInsert d settings [] = Inr None" using i by (simp add: planClientsInsert_def dropEmails_def)
  show ?thesis using i r s a p by (simp add: plan_inbound_def insert_edits_def Let_def)
next
  case False
  then show ?thesis using assms
    by (auto simp: converged_inbound_def plan_inbound_def split: option.splits)
qed

lemma converged_plan_inbounds:
  "\<forall>n \<in> set ns. converged_inbound plan n \<Longrightarrow> plan_inbounds d plan ns = Some (Inr [])"
  by (induction ns) (auto simp: converged_plan_inbound)


section \<open>Properties\<close>

lemma length_spliced:
  "ordered p es (length d) \<Longrightarrow> \<forall>e \<in> set es. te_end e = te_at e \<Longrightarrow>
   length (spliced d p es) = length d - p + sum_list (map (length \<circ> te_text) es)"
proof (induction p es "length d" rule: ordered.induct)
  case (2 p e es)
  then have "te_end e \<le> length d" using ordered_le by auto
  with 2 show ?case by auto
qed simp

text \<open>
  C17. A plan that only attaches clients never panics and never loses a byte: the render either
  refuses (and says why), or returns a document that contains the old one as a subsequence, and
  it reports a change exactly when the two differ.
\<close>

theorem attach_keeps_every_byte:
  assumes "sorts_down srt" and "parseJSONC fuel document \<noteq> None" and "attach_only plan"
  shows "(\<exists>err. RenderClients srt fuel document plan = RenderFailed err) \<or>
    (\<exists>rendered changed. RenderClients srt fuel document plan = Rendering_done rendered changed \<and>
       subseq document rendered \<and> (changed \<longleftrightarrow> rendered \<noteq> document))"
proof -
  have "subseq document (spliced document 0 es) \<and> (es \<noteq> [] \<longleftrightarrow> spliced document 0 es \<noteq> document)"
    if o: "ordered 0 es (length document)" and e: "\<forall>e \<in> set es. te_end e = te_at e \<and> te_text e \<noteq> []" for es
  proof -
    have "length (spliced document 0 es) = length document + sum_list (map (length \<circ> te_text) es)"
      using length_spliced [OF o] e by auto
    moreover have "es \<noteq> [] \<Longrightarrow> sum_list (map (length \<circ> te_text) es) > 0"
      using e by (cases es) auto
    ultimately show ?thesis using subseq_splice [OF o] e by (cases "es = []") auto
  qed
  then show ?thesis using render_attach [OF assms] by blast
qed


text \<open>
  Edits at strictly increasing offsets with disjoint spans give, applied last to first as the
  code does, the document copied left to right with each span replaced: no edit moves the offsets
  of another, and no slice is out of range.
\<close>

lemma disjoint_edits_compose:
  assumes "sorts_down srt" and "ordered 0 edits (length document)" and "sorted_wrt (<) (map te_at edits)"
  shows "apply_edits document (srt edits) = Some (spliced document 0 edits)"
  using sorts_down_unique [OF assms(1,3)] apply_edits_splice [OF assms(2)] by simp



section \<open>Examples\<close>

text \<open>A rendered entry is the one-line text of an object.\<close>

definition client_json :: "client_op \<Rightarrow> json" where
  "client_json op = JObj ([(''email'', JStr (op_Email op)), (''id'', JStr (op_ID op))] @
     (if op_Flow op \<noteq> [] then [(''flow'', JStr (op_Flow op))] else []))"

lemma json_ok_client [simp]: "json_ok (client_json op)"
  by (simp add: client_json_def)

lemma quote_keys [simp]:
  "json_quote ''email'' = quoted ''email''" "json_quote ''id'' = quoted ''id''" "json_quote ''flow'' = quoted ''flow''"
  "json_quote ''clients'' = quoted ''clients''"
  by (simp_all add: quote_plain plain_byte_def)

lemma valid_keys [simp]:
  "to_valid_utf8 ''email'' = ''email''" "to_valid_utf8 ''id'' = ''id''" "to_valid_utf8 ''flow'' = ''flow''"
  "to_valid_utf8 ''clients'' = ''clients''"
  by (simp_all add: valid_plain plain_byte_def)

lemma renderEntry_text: "renderEntry op = json_text (client_json op)"
  by (simp add: renderEntry_def client_json_def)

definition one_inbound :: "json list \<Rightarrow> json" where
  "one_inbound clients = JObj [(''inbounds'', JArr [JObj [(''tag'', JStr ''t''), (''protocol'', JStr ''vless''),
     (''settings'', JObj [(''clients'', JArr clients)])]])]"

definition op_a :: client_op where
  "op_a = \<lparr>op_Email = ''a'', op_ID = ''1'', op_Flow = []\<rparr>"

definition op_b :: client_op where
  "op_b = \<lparr>op_Email = ''b'', op_ID = ''2'', op_Flow = []\<rparr>"

definition doc_a :: string where
  "doc_a = json_text (one_inbound [client_json op_a])"

definition doc_ab :: string where
  "doc_ab = json_text (one_inbound [client_json op_a, client_json op_b])"

lemma parse_one_inbound:
  assumes "list_all json_ok clients"
  shows "parseJSONC (parse_fuel (json_text (one_inbound clients))) (json_text (one_inbound clients)) =
    Some (Inr (node_of 0 (one_inbound clients)))"
  by (rule parse_text) (use assms in \<open>simp_all add: one_inbound_def\<close>)

lemmas parse_doc_a = parse_one_inbound [of "[client_json op_a]", folded doc_a_def, simplified]
lemmas parse_doc_ab = parse_one_inbound [of "[client_json op_a, client_json op_b]", folded doc_ab_def, simplified]

theorem attach_keeps_every_byte_witness:
  "(\<exists>err. RenderClients sort_down (parse_fuel doc_a) doc_a \<lparr>pl_Adds = [(''t'', [op_b])], pl_Removes = [], pl_Sets = []\<rparr> = RenderFailed err) \<or>
   (\<exists>rendered changed. RenderClients sort_down (parse_fuel doc_a) doc_a
       \<lparr>pl_Adds = [(''t'', [op_b])], pl_Removes = [], pl_Sets = []\<rparr> = Rendering_done rendered changed \<and>
     subseq doc_a rendered \<and> (changed \<longleftrightarrow> rendered \<noteq> doc_a))"
  by (rule attach_keeps_every_byte) (simp_all add: sorts_down_sort_down parse_doc_a attach_only_def)

abbreviation example_inbounds :: "json \<Rightarrow> node list" where
  "example_inbounds j \<equiv> items (the (node_get (node_of 0 j) ''inbounds''))"


lemma disjoint_edits_compose_witness:
  "apply_edits ''abcd'' (sort_down [\<lparr>te_at = 1, te_end = 2, te_text = ''x''\<rparr>, \<lparr>te_at = 2, te_end = 2, te_text = ''yz''\<rparr>]) =
   Some (spliced ''abcd'' 0 [\<lparr>te_at = 1, te_end = 2, te_text = ''x''\<rparr>, \<lparr>te_at = 2, te_end = 2, te_text = ''yz''\<rparr>])"
  by (rule disjoint_edits_compose [OF sorts_down_sort_down]) simp_all

text \<open>
  Removing the only client of an array while another is attached in the same pass: the comma of
  the append has nothing in front of it.  Removing the last two clients of an array: the two spans
  overlap, and applied last to first the second one cuts behind the array.
\<close>

lemmas example_eval = one_inbound_def client_json_def op_a_def op_b_def valid_plain quote_plain plain_byte_def
  plan_inbound_def managed_def byEmailOf_def planEntryRemoval_def equal_fold_def planClientsInsert_def
  emailsOf_def dropEmails_def renderEntries_def renderEntry_def insert_edits_def Let_def

lemma plan_attach_b:
  "plan_inbounds doc_a \<lparr>pl_Adds = [(''t'', [op_b])], pl_Removes = [], pl_Sets = []\<rparr>
     (example_inbounds (one_inbound [client_json op_a])) =
   Some (Inr [\<lparr>te_at = 98, te_end = 98, te_text = '', '' @ json_text (client_json op_b)\<rparr>])"
  by (simp add: doc_a_def multiline_def example_eval)


lemma plan_swap_a_b:
  "plan_inbounds doc_a \<lparr>pl_Adds = [(''t'', [op_b])], pl_Removes = [(''t'', [''a''])], pl_Sets = []\<rparr>
     (example_inbounds (one_inbound [client_json op_a])) =
   Some (Inr [\<lparr>te_at = 73, te_end = 98, te_text = []\<rparr>,
     \<lparr>te_at = 98, te_end = 98, te_text = '', '' @ json_text (client_json op_b)\<rparr>])"
  by (simp add: doc_a_def multiline_def example_eval)

lemma plan_remove_a_b:
  "plan_inbounds doc_ab \<lparr>pl_Adds = [], pl_Removes = [(''t'', [''a'', ''b''])], pl_Sets = []\<rparr>
     (example_inbounds (one_inbound [client_json op_a, client_json op_b])) =
   Some (Inr [\<lparr>te_at = 73, te_end = 100, te_text = []\<rparr>, \<lparr>te_at = 98, te_end = 125, te_text = []\<rparr>])"
  by (simp add: example_eval)

lemma render_example:
  assumes "list_all json_ok clients" and "\<not> plan_empty plan" and "es \<noteq> []"
    and "plan_inbounds (json_text (one_inbound clients)) plan (example_inbounds (one_inbound clients)) = Some (Inr es)"
    and "apply_edits (json_text (one_inbound clients)) (sort_down es) = Some rendered"
  shows "RenderClients sort_down (parse_fuel (json_text (one_inbound clients))) (json_text (one_inbound clients)) plan =
    Rendering_done rendered True"
proof -
  obtain inbounds where "node_get (node_of 0 (one_inbound clients)) ''inbounds'' = Some inbounds" "kind inbounds = CHR ''[''"
    by (simp add: one_inbound_def valid_plain plain_byte_def)
  then show ?thesis using assms parse_one_inbound [OF assms(1)] by (simp add: RenderClients_def)
qed

lemma apply_attach_b:
  "apply_edits doc_a (sort_down [\<lparr>te_at = 98, te_end = 98, te_text = '', '' @ json_text (client_json op_b)\<rparr>]) = Some doc_ab"
  by (simp add: sort_down_def doc_a_def doc_ab_def one_inbound_def client_json_def op_a_def op_b_def quote_plain plain_byte_def)

lemma attach_b:
  "RenderClients sort_down (parse_fuel doc_a) doc_a \<lparr>pl_Adds = [(''t'', [op_b])], pl_Removes = [], pl_Sets = []\<rparr> =
   Rendering_done doc_ab True"
  unfolding doc_a_def
  by (rule render_example [OF _ _ _ plan_attach_b [unfolded doc_a_def] apply_attach_b [unfolded doc_a_def]])
    (simp_all add: plan_empty_def)

lemma swap_leaves_dangling_comma:
  "RenderClients sort_down (parse_fuel doc_a) doc_a \<lparr>pl_Adds = [(''t'', [op_b])], pl_Removes = [(''t'', [''a''])], pl_Sets = []\<rparr> =
   Rendering_done (take 73 doc_a @ '', '' @ json_text (client_json op_b) @ '']}}]}'') True"
  unfolding doc_a_def
  by (rule render_example [OF _ _ _ plan_swap_a_b [unfolded doc_a_def]])
    (simp_all add: plan_empty_def sort_down_def one_inbound_def client_json_def op_a_def quote_plain plain_byte_def)

lemma remove_last_two_corrupts:
  "RenderClients sort_down (parse_fuel doc_ab) doc_ab \<lparr>pl_Adds = [], pl_Removes = [(''t'', [''a'', ''b''])], pl_Sets = []\<rparr> =
   Rendering_done (take 73 doc_ab @ ''}]}'') True"
  unfolding doc_ab_def
  by (rule render_example [OF _ _ _ plan_remove_a_b [unfolded doc_ab_def]])
    (simp_all add: plan_empty_def sort_down_def one_inbound_def client_json_def op_a_def op_b_def quote_plain plain_byte_def)



section \<open>Entries\<close>

text \<open>
  The entry rendered for a client parses back, within the fuel of its length, into an object
  that carries the client's email and id, and its flow exactly when one is set; the same holds
  wherever the entry stands in a document, in front of a separator or a closing bracket.
\<close>

lemma rendered_entry_reads_back:
  assumes "valid_utf8 (op_Email op)" and "valid_utf8 (op_ID op)" and "valid_utf8 (op_Flow op)"
    and "drop p document = renderEntry op @ rest" and "delimited rest"
  shows "\<exists>fuel n. value_at fuel document p = Some (Inr (n, p + length (renderEntry op))) \<and> kind n = CHR ''{'' \<and>
    map_option nvalue (node_get n ''email'') = Some (op_Email op) \<and>
    map_option nvalue (node_get n ''id'') = Some (op_ID op) \<and>
    map_option nvalue (node_get n ''flow'') = (if op_Flow op = [] then None else Some (op_Flow op))"
proof -
  obtain f where "value_at f document p = Some (Inr (node_of p (client_json op), p + length (renderEntry op)))"
    using reads_backD [OF read_back [OF json_ok_client] assms(4) [unfolded renderEntry_text] assms(5)]
    by (auto simp: renderEntry_text)
  then show ?thesis
    using assms(1-3) by (intro exI [of _ f] exI [of _ "node_of p (client_json op)"])
      (simp add: client_json_def to_valid_utf8_id)
qed

lemma rendered_entry_reads_back_witness:
  "\<exists>fuel n. value_at fuel (renderEntry op_a) 0 = Some (Inr (n, length (renderEntry op_a))) \<and>
     map_option nvalue (node_get n ''email'') = Some ''a'' \<and> node_get n ''flow'' = None"
proof -
  have "valid_utf8 (op_Email op_a)" "valid_utf8 (op_ID op_a)" "valid_utf8 (op_Flow op_a)"
    by (auto simp: op_a_def intro: valid_utf8_ascii)
  from rendered_entry_reads_back [OF this, of 0 "renderEntry op_a" "[]"] show ?thesis
    by (auto simp: op_a_def delimited_def)
qed

end
