(* ===== verification/Roster.thy ===== *)
theory Roster
  imports Collector Render
begin

text \<open>
  The Roster write path, \<^verbatim>\<open>internal/roster/service.go\<close>: mutations validate, write the store first and
  queue a change; one loop applies the queue (renders the config file, then pushes to the running
  xray), retries, recovers interrupted deletes and converges the file against the store.

  The state of a service is its queue of changes, the emails whose last apply failed, the
  generation counter, the store's tables and the collector it notifies; \<open>sv_trace\<close> records the
  calls to the renderer, the pusher and the purge notifier in order. What those calls answer is an
  argument: \<open>render_err\<close> and \<open>push\<close>, where \<open>push\<close> decides from the calls made so far, so that any
  sequence of answers is covered. Store failures are the argument \<open>fail\<close>: \<open>fail 0\<close> for the
  operation's first store call, \<open>fail 1\<close> for the write that follows a read. The waiting of a mutation for its first apply is the value \<open>Wait\<close>;
  \<open>waitSettled\<close> is one turn of that wait. The generation counter is a natural number.
\<close>

section \<open>Changes and state\<close>

datatype op_kind = opAttach | opDetach | opRotate

record push_op =
  po_kind :: op_kind
  po_tag :: string
  po_flow :: string

record pending_change =
  pc_id :: string
  pc_ops :: "push_op list"
  pc_gen :: nat
  pc_purge :: bool

datatype sync_state = Synced | Pending | SyncFailed
datatype apply_state = ApplyPending | ApplyFailed

datatype reason = EmailInvalid | EmailTaken | ClientIDInvalid | ClientIDTaken | UnknownInbound

datatype mutation_error = Conflict reason | NotFound string | StoreFailed string | StoreRefused store_error

datatype answer = Now sync_state | Wait string

datatype effect =
    Rendered render_plan
  | AddUser string string string string  \<comment> \<open>tag, email, id, flow\<close>
  | RemoveUser string string             \<comment> \<open>tag, email\<close>
  | PurgeNotified string

record service =
  sv_db :: db
  sv_collector :: collector
  sv_pending :: "pending_change gomap"
  sv_failed :: "bool gomap"
  sv_nextGen :: nat
  sv_kick :: bool
  sv_lastApplyErr :: string
  sv_trace :: "effect list"
  sv_broadcasts :: nat

record uuid_lib =
  uuid_parse :: "string \<Rightarrow> string option"  \<comment> \<open>\<^verbatim>\<open>uuid.Parse\<close> then \<^verbatim>\<open>String\<close>: the canonical form\<close>
  uuid_new :: string

section \<open>Helpers\<close>

definition findManaged :: "view \<Rightarrow> string \<Rightarrow> inbound option" where
  "findManaged vw tag = find (\<lambda>i. ib_Tag i = tag \<and> Managed i) vw"

definition dedupeOrder :: "string list \<Rightarrow> string list" where
  "dedupeOrder inbounds = append_missing [] inbounds"

definition detachOps :: "string list \<Rightarrow> push_op list" where
  "detachOps tags = map (\<lambda>tag. \<lparr>po_kind = opDetach, po_tag = tag, po_flow = ''''\<rparr>) tags"

definition attach_op :: "string \<Rightarrow> inbound \<Rightarrow> push_op" where
  "attach_op tag i = \<lparr>po_kind = opAttach, po_tag = tag, po_flow = DefaultFlow i\<rparr>"

text \<open>The loop that resolves a selection: the attach operations of the tags the view manages.\<close>

definition attach_ops :: "view \<Rightarrow> string list \<Rightarrow> push_op list" where
  "attach_ops vw tags = concat (map (\<lambda>tag. case findManaged vw tag of
      None \<Rightarrow> [] | Some i \<Rightarrow> [attach_op tag i]) tags)"

definition managed_tags :: "view \<Rightarrow> string list \<Rightarrow> string list" where
  "managed_tags vw tags = filter (\<lambda>tag. findManaged vw tag \<noteq> None) tags"

definition seedLabels :: "view \<Rightarrow> push_op list \<Rightarrow> label list" where
  "seedLabels vw ops =
     (let flows = fold (\<lambda>op m. if po_kind op = opAttach then AList.update (po_tag op) (po_flow op) m else m) ops []
      in fold (\<lambda>i labels.
           case map_of flows (ib_Tag i) of
             None \<Rightarrow> labels
           | Some flow \<Rightarrow>
               if \<not> Managed i then labels
               else append_missing labels
                 [\<lparr>lab_protocol = to_upper (ib_Protocol i),
                   lab_security = SecurityLabel (ib_SecurityType i) flow,
                   lab_transport = TransportLabel (ib_TransportType i)\<rparr>]) vw [])"

definition optionLabel :: "inbound \<Rightarrow> string" where
  "optionLabel i =
     (let network = (if ib_TransportType i = ''raw'' then ''tcp''
                     else if ib_TransportType i = ''splithttp'' then ''xhttp''
                     else ib_TransportType i);
          dot = [CHR '' '', CHR 0xC2, CHR 0xB7, CHR '' '']
      in to_upper (ib_Protocol i) @ dot @ SecurityLabel (ib_SecurityType i) '''' @ dot @ network @
         (if ib_Port i \<noteq> '''' then '' :'' @ ib_Port i else ''''))"

definition InboundOptions :: "view \<Rightarrow> (string \<times> string) list" where
  "InboundOptions vw = map (\<lambda>i. (ib_Tag i, optionLabel i)) (filter Managed vw)"
section \<open>The queue\<close>

definition takePending :: "string \<Rightarrow> service \<Rightarrow> push_op list \<times> service" where
  "takePending email s =
     ((case map_of (sv_pending s) email of None \<Rightarrow> [] | Some c \<Rightarrow> pc_ops c),
      s\<lparr>sv_pending := AList.delete email (sv_pending s)\<rparr>)"

definition enqueueGen :: "roster_record \<Rightarrow> push_op list \<Rightarrow> bool \<Rightarrow> service \<Rightarrow> service" where
  "enqueueGen rec ops purge s =
     s\<lparr>sv_nextGen := sv_nextGen s + 1,
       sv_pending := AList.update (rec_Email rec)
         \<lparr>pc_id = rec_ClientID rec, pc_ops = ops, pc_gen = sv_nextGen s + 1, pc_purge = purge\<rparr> (sv_pending s),
       sv_failed := AList.delete (rec_Email rec) (sv_failed s),
       sv_kick := True\<rparr>"

definition enqueue :: "roster_record \<Rightarrow> push_op list \<Rightarrow> service \<Rightarrow> service" where
  "enqueue rec ops = enqueueGen rec ops False"

definition enqueueDelete :: "roster_record \<Rightarrow> push_op list \<Rightarrow> service \<Rightarrow> service" where
  "enqueueDelete rec ops = enqueueGen rec ops True"

definition syncLocked :: "service \<Rightarrow> sync_state" where
  "syncLocked s = (if sv_failed s \<noteq> [] then SyncFailed else if sv_pending s \<noteq> [] then Pending else Synced)"

definition UserStates :: "service \<Rightarrow> apply_state gomap" where
  "UserStates s =
     fold (\<lambda>(email, _) m. AList.update email ApplyFailed m) (sv_failed s)
       (fold (\<lambda>(email, _) m. AList.update email ApplyPending m) (sv_pending s) [])"

definition hasPending :: "string \<Rightarrow> service \<Rightarrow> bool" where
  "hasPending email s \<longleftrightarrow> has_key (sv_pending s) email"

text \<open>One turn of the wait: the answer, or another turn. \<open>elapsed\<close>: the settle window is over.\<close>

definition waitSettled :: "service \<Rightarrow> string \<Rightarrow> bool \<Rightarrow> sync_state option" where
  "waitSettled s email elapsed =
     (if get_or False (sv_failed s) email then Some SyncFailed
      else if \<not> hasPending email s then Some (syncLocked s)
      else if elapsed then Some Pending else None)"

definition queueOps :: "roster_record \<Rightarrow> push_op list \<Rightarrow> service \<Rightarrow> (roster_record \<times> answer) \<times> service" where
  "queueOps rec ops s = ((rec, Wait (rec_Email rec)), enqueue rec ops s)"

section \<open>Planning an edit\<close>

definition tags_of :: "op_kind set \<Rightarrow> push_op list \<Rightarrow> string list" where
  "tags_of kinds ops = map po_tag (filter (\<lambda>op. po_kind op \<in> kinds) ops)"

definition diffOps :: "roster_record \<Rightarrow> roster_record \<Rightarrow> string gomap \<Rightarrow> push_op list \<Rightarrow> push_op list" where
  "diffOps before after flows prev =
     (let idChanged = (rec_ClientID before \<noteq> rec_ClientID after);
          attached = set (rec_Inbounds before);
          kept = set (rec_Inbounds after);
          prevAttached = set (tags_of {opAttach, opRotate} prev);
          leaves = map (\<lambda>tag. \<lparr>po_kind = opDetach, po_tag = tag, po_flow = ''''\<rparr>)
            (filter (\<lambda>tag. tag \<notin> kept) (rec_Inbounds before));
          owed = map (\<lambda>tag. \<lparr>po_kind = opDetach, po_tag = tag, po_flow = ''''\<rparr>)
            (filter (\<lambda>tag. tag \<notin> kept) (tags_of {opDetach} prev));
          merge = (prev \<noteq> []);
          stay = (\<lambda>tag. if (idChanged \<and> tag \<in> attached) \<or> tag \<in> prevAttached
                    then [\<lparr>po_kind = opRotate, po_tag = tag, po_flow = get_or '''' flows tag\<rparr>]
                    else if tag \<notin> attached \<and> tag \<notin> prevAttached
                    then [\<lparr>po_kind = opAttach, po_tag = tag, po_flow = get_or '''' flows tag\<rparr>]
                    else if merge
                    then [\<lparr>po_kind = opAttach, po_tag = tag, po_flow = get_or '''' flows tag\<rparr>]
                    else [])
      in leaves @ owed @ concat (map stay (rec_Inbounds after)))"

section \<open>Mutations\<close>

definition store_conflict :: "store_error \<Rightarrow> string \<Rightarrow> mutation_error" where
  "store_conflict err email =
     (case err of
        ErrEmailTaken _ \<Rightarrow> Conflict EmailTaken
      | ErrClientIDTaken _ \<Rightarrow> Conflict ClientIDTaken
      | ErrRosterNotFound \<Rightarrow> NotFound email)"

definition Service_Add ::
  "uuid_lib \<Rightarrow> view \<Rightarrow> (nat \<Rightarrow> string option) \<Rightarrow> int \<Rightarrow> string \<Rightarrow> string \<Rightarrow> string list \<Rightarrow> service \<Rightarrow>
     (mutation_error + roster_record \<times> answer) \<times> service" where
  "Service_Add U vw fail now email0 clientID0 inbounds s =
     (let email = trim_space email0; cid = trim_space clientID0 in
      if email = '''' then (Inl (Conflict EmailInvalid), s)
      else
        case (if cid = '''' then Some (uuid_new U) else uuid_parse U cid) of
          None \<Rightarrow> (Inl (Conflict ClientIDInvalid), s)
        | Some clientID \<Rightarrow>
            let tags = dedupeOrder inbounds;
                ops = attach_ops vw tags
            in if managed_tags vw tags \<noteq> tags then (Inl (Conflict UnknownInbound), s)
               else
                 case fail 0 of
                   Some err \<Rightarrow> (Inl (StoreFailed err), s)
                 | None \<Rightarrow>
                     (case AddRosterUser (sv_db s) \<lparr>nu_Email = email, nu_ClientID = clientID,
                         nu_Inbounds = tags, nu_Labels = seedLabels vw ops\<rparr> now of
                        Inl err \<Rightarrow> (Inl (store_conflict err email), s)
                      | Inr (rec, d) \<Rightarrow>
                          let s1 = s\<lparr>sv_db := d\<rparr>
                          in if ops = [] then (Inr (rec, Now (syncLocked s1)), s1)
                             else let (res, s2) = queueOps rec ops s1 in (Inr res, s2)))"

record edit_request =
  eq_ClientID :: string
  eq_Inbounds :: "string list option"

definition Service_Edit ::
  "uuid_lib \<Rightarrow> view \<Rightarrow> (nat \<Rightarrow> string option) \<Rightarrow> int \<Rightarrow> string \<Rightarrow> edit_request \<Rightarrow> service \<Rightarrow>
     (mutation_error + roster_record \<times> answer) \<times> service" where
  "Service_Edit U vw fail now email0 req s =
     (let email = trim_space email0; cid = trim_space (eq_ClientID req);
          parsed = (if cid = '''' then Some None else map_option Some (uuid_parse U cid))
      in if email = '''' then (Inl (NotFound email), s)
         else case parsed of
           None \<Rightarrow> (Inl (Conflict ClientIDInvalid), s)
         | Some idPtr \<Rightarrow>
         (case fail 0 of
            Some err \<Rightarrow> (Inl (StoreFailed err), s)
          | None \<Rightarrow>
         (case RosterRecord (sv_db s) email of
            None \<Rightarrow> (Inl (NotFound email), s)
          | Some stored \<Rightarrow>
              let selection = (case eq_Inbounds req of None \<Rightarrow> rec_Inbounds stored | Some ts \<Rightarrow> ts);
                  tags = managed_tags vw selection;
                  finalOps = attach_ops vw selection;
                  flows = fold (\<lambda>op m. AList.update (po_tag op) (po_flow op) m) finalOps [];
                  before = (if eq_Inbounds req = None then stored\<lparr>rec_Inbounds := tags\<rparr> else stored)
              in if eq_Inbounds req \<noteq> None \<and> tags \<noteq> selection then (Inl (Conflict UnknownInbound), s)
                 else
              (case fail 1 of
                 Some err \<Rightarrow> (Inl (StoreFailed err), s)
               | None \<Rightarrow>
              (case EditRosterUser (sv_db s) email
                      \<lparr>ed_ClientID = idPtr, ed_Inbounds = Some tags, ed_Labels = seedLabels vw finalOps\<rparr> now of
                 Inl err \<Rightarrow> (Inl (store_conflict err email), s)
               | Inr (after, d) \<Rightarrow>
                   let (prev, s1) = takePending email (s\<lparr>sv_db := d\<rparr>);
                       ops = diffOps before after flows prev
                   in if ops = [] then (Inr (after, Now (syncLocked s1)), s1)
                      else let (res, s2) = queueOps after ops s1 in (Inr res, s2))))))"

definition Service_Disable ::
  "(nat \<Rightarrow> string option) \<Rightarrow> int \<Rightarrow> string \<Rightarrow> service \<Rightarrow> (mutation_error + answer \<times> bool) \<times> service" where
  "Service_Disable fail now email0 s =
     (let email = trim_space email0 in
      if email = '''' then (Inr (Now (syncLocked s), False), s)
      else case fail 0 of
        Some err \<Rightarrow> (Inl (StoreFailed err), s)
      | None \<Rightarrow>
      (case RosterRecord (sv_db s) email of
         None \<Rightarrow> (Inr (Now (syncLocked s), False), s)
       | Some before \<Rightarrow>
           let (prev, s1) = takePending email s;
               tags = append_missing (rec_Inbounds before) (tags_of {opAttach, opRotate} prev)
           in case fail 1 of
                Some err \<Rightarrow> (Inl (StoreFailed err), s1)
              | None \<Rightarrow>
                  let s2 = s1\<lparr>sv_db := DisableRosterUser (sv_db s1) email now\<rparr>
                  in if tags = [] then (Inr (Now (syncLocked s2), True), s2)
                     else (Inr (Wait (rec_Email before), True), enqueue before (detachOps tags) s2)))"

definition Service_Delete ::
  "(nat \<Rightarrow> string option) \<Rightarrow> int \<Rightarrow> string \<Rightarrow> service \<Rightarrow> (mutation_error + answer \<times> bool) \<times> service" where
  "Service_Delete fail now email0 s =
     (let email = trim_space email0 in
      if email = '''' then (Inr (Now (syncLocked s), False), s)
      else case fail 0 of
        Some err \<Rightarrow> (Inl (StoreFailed err), s)
      | None \<Rightarrow>
      (case (case RosterRecord (sv_db s) email of
               Some rec \<Rightarrow> Some rec
             | None \<Rightarrow> DisabledRosterRecord (sv_db s) email) of
         None \<Rightarrow> (Inr (Now (syncLocked s), False), s)
       | Some rec \<Rightarrow>
           let (prev, s1) = takePending email s;
               tags = append_missing (rec_Inbounds rec) (map po_tag prev)
           in case fail 1 of
                Some err \<Rightarrow> (Inl (StoreFailed err), s1)
              | None \<Rightarrow>
                  (Inr (Wait (rec_Email rec), True),
                   enqueueDelete rec (detachOps tags)
                     (s1\<lparr>sv_db := MarkRosterDeleting (sv_db s1) (rec_Email rec) now\<rparr>))))"

definition Service_Enable ::
  "view \<Rightarrow> (nat \<Rightarrow> string option) \<Rightarrow> int \<Rightarrow> string \<Rightarrow> service \<Rightarrow>
     (mutation_error + roster_record \<times> answer) \<times> service" where
  "Service_Enable vw fail now email0 s =
     (let email = trim_space email0 in
      if email = '''' then (Inl (NotFound email), s)
      else case fail 0 of
        Some err \<Rightarrow> (Inl (StoreFailed err), s)
      | None \<Rightarrow>
      (case EnableRosterUser (sv_db s) email now of
         Inl err \<Rightarrow> (Inl (store_conflict err email), s)
       | Inr (rec, revived, d) \<Rightarrow>
           let s1 = s\<lparr>sv_db := d\<rparr> in
           if \<not> revived then (Inr (rec, Now (syncLocked s1)), s1)
           else
             let kept = managed_tags vw (rec_Inbounds rec);
                 finalOps = attach_ops vw (rec_Inbounds rec);
                 finish = (\<lambda>rec s2. if finalOps = [] then (Inr (rec, Now (syncLocked s2)), s2)
                             else let (res, s3) = queueOps rec finalOps s2 in (Inr res, s3))
             in if length kept < length (rec_Inbounds rec) then
                  (case fail 1 of
                     Some err \<Rightarrow> (Inl (StoreFailed err), s1)
                   | None \<Rightarrow>
                       (case EditRosterUser (sv_db s1) (rec_Email rec)
                              \<lparr>ed_ClientID = None, ed_Inbounds = Some kept, ed_Labels = seedLabels vw finalOps\<rparr> now of
                          Inl err \<Rightarrow> (Inl (StoreRefused err), s1)
                        | Inr (rec', d') \<Rightarrow> finish rec' (s1\<lparr>sv_db := d'\<rparr>)))
                else finish rec s1))"

section \<open>Applying\<close>

definition map_append :: "string \<Rightarrow> 'a \<Rightarrow> 'a list gomap \<Rightarrow> 'a list gomap" where
  "map_append tag x m = AList.update tag (get_or [] m tag @ [x]) m"

definition plan_op :: "string \<Rightarrow> string \<Rightarrow> push_op \<Rightarrow> render_plan \<Rightarrow> render_plan" where
  "plan_op email id0 op plan =
     (case po_kind op of
        opAttach \<Rightarrow> plan\<lparr>pl_Adds := map_append (po_tag op)
          \<lparr>op_Email = email, op_ID = id0, op_Flow = po_flow op\<rparr> (pl_Adds plan)\<rparr>
      | opDetach \<Rightarrow> plan\<lparr>pl_Removes := map_append (po_tag op) email (pl_Removes plan)\<rparr>
      | opRotate \<Rightarrow> plan\<lparr>pl_Sets := map_append (po_tag op)
          \<lparr>op_Email = email, op_ID = id0, op_Flow = po_flow op\<rparr> (pl_Sets plan)\<rparr>)"

definition plan_of :: "pending_change gomap \<Rightarrow> render_plan" where
  "plan_of pending =
     fold (\<lambda>(email, c) plan. fold (plan_op email (pc_id c)) (pc_ops c) plan) pending
       \<lparr>pl_Adds = [], pl_Removes = [], pl_Sets = []\<rparr>"

definition supersededLocked :: "string \<Rightarrow> nat \<Rightarrow> service \<Rightarrow> bool" where
  "supersededLocked email gen s =
     (case map_of (sv_pending s) email of None \<Rightarrow> True | Some c \<Rightarrow> pc_gen c \<noteq> gen)"

definition Service_logFailure :: "string \<Rightarrow> service \<Rightarrow> service" where
  "Service_logFailure err s = (if sv_lastApplyErr s = err then s else s\<lparr>sv_lastApplyErr := err\<rparr>)"

definition broadcast :: "service \<Rightarrow> service" where
  "broadcast s = s\<lparr>sv_broadcasts := sv_broadcasts s + 1\<rparr>"

definition mark_failed :: "string \<Rightarrow> service \<Rightarrow> service" where
  "mark_failed email s = s\<lparr>sv_failed := AList.update email True (sv_failed s)\<rparr>"

text \<open>One call to the pusher: recorded, and answered by \<open>push\<close>.\<close>

type_synonym pusher = "effect list \<Rightarrow> effect \<Rightarrow> string option"

definition call :: "pusher \<Rightarrow> effect \<Rightarrow> service \<Rightarrow> string option \<times> service" where
  "call push eff s = (push (sv_trace s) eff, s\<lparr>sv_trace := sv_trace s @ [eff]\<rparr>)"

definition pushOp :: "view \<Rightarrow> pusher \<Rightarrow> string \<Rightarrow> string \<Rightarrow> push_op \<Rightarrow> service \<Rightarrow> string option \<times> service" where
  "pushOp vw push email id0 op s =
     (if findManaged vw (po_tag op) = None then (None, s)
      else case po_kind op of
        opAttach \<Rightarrow> call push (AddUser (po_tag op) email id0 (po_flow op)) s
      | opDetach \<Rightarrow> call push (RemoveUser (po_tag op) email) s
      | opRotate \<Rightarrow>
          (case call push (RemoveUser (po_tag op) email) s of
             (Some err, s1) \<Rightarrow> (Some err, s1)
           | (None, s1) \<Rightarrow> call push (AddUser (po_tag op) email id0 (po_flow op)) s1))"

fun push_all :: "view \<Rightarrow> pusher \<Rightarrow> string \<Rightarrow> string \<Rightarrow> push_op list \<Rightarrow> service \<Rightarrow> string option \<times> service" where
  "push_all vw push email id0 [] s = (None, s)"
| "push_all vw push email id0 (op # ops) s =
     (case pushOp vw push email id0 op s of
        (Some err, s1) \<Rightarrow> (Some err, s1)
      | (None, s1) \<Rightarrow> push_all vw push email id0 ops s1)"

text \<open>Phase two of a delete: the collector forgets first, then the rows go, unless that fails.\<close>

definition finishDelete :: "(string \<Rightarrow> string option) \<Rightarrow> string \<Rightarrow> service \<Rightarrow> string option \<times> service" where
  "finishDelete purge_err email s =
     (let s1 = s\<lparr>sv_collector := Collector_Purge email (sv_collector s),
                 sv_trace := sv_trace s @ [PurgeNotified email]\<rparr>
      in case purge_err email of
           Some err \<Rightarrow> (Some err, s1)
         | None \<Rightarrow> (None, s1\<lparr>sv_db := PurgeRosterUser (sv_db s1) email\<rparr>))"

definition settle_change ::
  "(string \<Rightarrow> string option) \<Rightarrow> string \<Rightarrow> pending_change \<Rightarrow> string option \<Rightarrow> service \<Rightarrow> service" where
  "settle_change purge_err email c outcome s =
     (if supersededLocked email (pc_gen c) s then s
      else case outcome of
        Some err \<Rightarrow> mark_failed email s
      | None \<Rightarrow>
          let s1 = s\<lparr>sv_pending := AList.delete email (sv_pending s), sv_failed := AList.delete email (sv_failed s)\<rparr>
          in if \<not> pc_purge c then s1
             else case finishDelete purge_err email s1 of
               (None, s2) \<Rightarrow> s2
             | (Some err, s2) \<Rightarrow>
                 Service_logFailure err
                   ((mark_failed email s2)\<lparr>sv_pending := AList.update email
                     \<lparr>pc_id = pc_id c, pc_ops = [], pc_gen = pc_gen c, pc_purge = True\<rparr> (sv_pending s2)\<rparr>))"

definition apply_change ::
  "view \<Rightarrow> pusher \<Rightarrow> (string \<Rightarrow> string option) \<Rightarrow> string \<times> pending_change \<Rightarrow> service \<Rightarrow> service" where
  "apply_change vw push purge_err entry s =
     (case entry of (email, c) \<Rightarrow>
        if supersededLocked email (pc_gen c) s then s
        else case push_all vw push email (pc_id c) (pc_ops c) s of
          (None, s1) \<Rightarrow> settle_change purge_err email c None s1
        | (Some err, s1) \<Rightarrow> settle_change purge_err email c (Some err) (Service_logFailure err s1))"

definition fail_pass :: "string \<Rightarrow> pending_change gomap \<Rightarrow> service \<Rightarrow> service" where
  "fail_pass err pending s =
     fold (\<lambda>(email, c) s1. if supersededLocked email (pc_gen c) s1 then s1 else mark_failed email s1) pending
       (Service_logFailure err s)"

record apply_env =
  ae_view :: view
  ae_order :: "pending_change gomap \<Rightarrow> pending_change gomap"
  ae_render_err :: "string option"
  ae_push :: pusher
  ae_purge_err :: "string \<Rightarrow> string option"

definition Service_apply :: "apply_env \<Rightarrow> service \<Rightarrow> service" where
  "Service_apply E s =
     (let pending = ae_order E (sv_pending s) in
      if pending = [] then broadcast s
      else
        let s1 = s\<lparr>sv_trace := sv_trace s @ [Rendered (plan_of pending)]\<rparr> in
        case ae_render_err E of
          Some err \<Rightarrow> broadcast (fail_pass err pending s1)
        | None \<Rightarrow>
            let s2 = fold (apply_change (ae_view E) (ae_push E) (ae_purge_err E)) pending s1
            in broadcast (if sv_pending s2 = [] \<and> sv_failed s2 = [] then s2\<lparr>sv_lastApplyErr := ''''\<rparr> else s2))"

definition Service_retry :: "apply_env \<Rightarrow> service \<Rightarrow> service" where
  "Service_retry E s = (if sv_pending s = [] then s else Service_apply E s)"

section \<open>Recovery and convergence\<close>

definition recoverDeletes :: "service \<Rightarrow> service" where
  "recoverDeletes s =
     fold (\<lambda>rec. enqueueDelete rec (detachOps (rec_Inbounds rec))) (DeletingRosterRecords (sv_db s)) s"

definition enqueueIfLive :: "roster_record \<Rightarrow> push_op list \<Rightarrow> service \<Rightarrow> service" where
  "enqueueIfLive rec ops s =
     (if RosterRecord (sv_db s) (rec_Email rec) = None then s else enqueue rec ops s)"

definition converge_prune ::
  "view \<Rightarrow> (string \<Rightarrow> string option) \<Rightarrow> int \<Rightarrow> roster_record \<Rightarrow> service \<Rightarrow> roster_record option \<times> service" where
  "converge_prune vw fail now rec s =
     (let kept = managed_tags vw (rec_Inbounds rec) in
      if \<not> length kept < length (rec_Inbounds rec) then (Some rec, s)
      else case fail (rec_Email rec) of
        Some err \<Rightarrow> (None, Service_logFailure err s)
      | None \<Rightarrow>
          (case EditRosterUser (sv_db s) (rec_Email rec)
                  \<lparr>ed_ClientID = None, ed_Inbounds = Some kept, ed_Labels = seedLabels vw (attach_ops vw kept)\<rparr> now of
             Inl err \<Rightarrow> (None, s)
           | Inr (rec', d) \<Rightarrow> (Some rec', s\<lparr>sv_db := d\<rparr>)))"

definition missing_ops :: "view \<Rightarrow> roster_parse \<Rightarrow> roster_record \<Rightarrow> push_op list" where
  "missing_ops vw parse rec =
     (let fileTags = (case map_of (rp_Clients parse) (rec_Email rec) of None \<Rightarrow> [] | Some c \<Rightarrow> cl_Inbounds c)
      in attach_ops vw (filter (\<lambda>tag. tag \<notin> set fileTags) (rec_Inbounds rec)))"

definition converge_record ::
  "view \<Rightarrow> roster_parse \<Rightarrow> (string \<Rightarrow> string option) \<Rightarrow> int \<Rightarrow> roster_record \<Rightarrow> service \<Rightarrow> service" where
  "converge_record vw parse fail now rec s =
     (if hasPending (rec_Email rec) s then s
      else case converge_prune vw fail now rec s of
        (None, s1) \<Rightarrow> s1
      | (Some rec', s1) \<Rightarrow>
          let ops = missing_ops vw parse rec'
          in if ops = [] then s1 else enqueueIfLive rec' ops s1)"

definition Service_converge ::
  "view \<Rightarrow> roster_parse \<Rightarrow> nat \<Rightarrow> string option \<Rightarrow> (string \<Rightarrow> string option) \<Rightarrow> int \<Rightarrow> service \<Rightarrow> service" where
  "Service_converge vw parse version list_err fail now s =
     (if version = 0 then s
      else case list_err of
        Some err \<Rightarrow> Service_logFailure err s
      | None \<Rightarrow> fold (converge_record vw parse fail now) (RosterRecords (sv_db s)) s)"

definition NewService :: "db \<Rightarrow> collector \<Rightarrow> service" where
  "NewService d c = \<lparr>sv_db = d, sv_collector = c, sv_pending = [], sv_failed = [], sv_nextGen = 0,
     sv_kick = False, sv_lastApplyErr = '''', sv_trace = [], sv_broadcasts = 0\<rparr>"

section \<open>The loop\<close>

datatype loop_event =
    Kicked
  | ChangesFired
  | StatusTick "string option"  \<comment> \<open>the observed status, or a failed read\<close>

record loop_env =
  le_apply :: apply_env
  le_parse :: roster_parse
  le_version :: nat
  le_list_err :: "string option"
  le_edit_err :: "string \<Rightarrow> string option"
  le_now :: int

definition converge_in :: "loop_env \<Rightarrow> service \<Rightarrow> service" where
  "converge_in L = Service_converge (ae_view (le_apply L)) (le_parse L) (le_version L) (le_list_err L)
     (le_edit_err L) (le_now L)"

definition run_start :: "loop_env \<Rightarrow> service \<Rightarrow> service" where
  "run_start L s = converge_in L (recoverDeletes s)"

definition run_event :: "loop_env \<Rightarrow> loop_event \<Rightarrow> bool \<times> service \<Rightarrow> bool \<times> service" where
  "run_event L ev st =
     (case st of (lastRunning, s) \<Rightarrow>
      (case ev of
         Kicked \<Rightarrow> (lastRunning, Service_apply (le_apply L) (s\<lparr>sv_kick := False\<rparr>))
       | ChangesFired \<Rightarrow> (lastRunning, converge_in L (Service_retry (le_apply L) s))
       | StatusTick None \<Rightarrow> (lastRunning, s)
       | StatusTick (Some status) \<Rightarrow>
           (let running = (status = ''running'')
            in (running, if running \<and> \<not> lastRunning then Service_retry (le_apply L) s else s))))"

section \<open>What a planned edit does to the running xray\<close>

text \<open>
  The credential xray holds for one email, per inbound. An add of an email that is already there
  leaves the old credential in place and a remove of an absent one does nothing: the pusher reads
  both answers as success.
\<close>

definition exec_op :: "string \<Rightarrow> push_op \<Rightarrow> (string \<Rightarrow> string option) \<Rightarrow> string \<Rightarrow> string option" where
  "exec_op cid op live =
     (case po_kind op of
        opDetach \<Rightarrow> live(po_tag op := None)
      | opRotate \<Rightarrow> live(po_tag op \<mapsto> cid)
      | opAttach \<Rightarrow> if live (po_tag op) = None then live(po_tag op \<mapsto> cid) else live)"

definition exec_ops :: "string \<Rightarrow> push_op list \<Rightarrow> (string \<Rightarrow> string option) \<Rightarrow> string \<Rightarrow> string option" where
  "exec_ops cid ops live = fold (exec_op cid) ops live"

definition holds_record :: "roster_record \<Rightarrow> (string \<Rightarrow> string option) \<Rightarrow> string \<Rightarrow> bool" where
  "holds_record rec live tag \<longleftrightarrow> live tag = (if tag \<in> set (rec_Inbounds rec) then Some (rec_ClientID rec) else None)"

lemma exec_detaches:
  assumes "\<forall>op \<in> set ops. po_kind op = opDetach"
  shows "exec_ops cid ops live tag = (if tag \<in> po_tag ` set ops then None else live tag)"
  using assms by (induction ops arbitrary: live) (auto simp: exec_ops_def exec_op_def)

text \<open>Operations that only join or rotate, one per tag.\<close>

lemma exec_joins:
  assumes "\<And>tag. tag \<in> set tags \<Longrightarrow>
      f tag = [] \<and> live tag = Some cid \<or>
      (\<exists>op. f tag = [op] \<and> po_tag op = tag \<and>
        (po_kind op = opRotate \<or> po_kind op = opAttach \<and> live tag \<in> {None, Some cid}))"
  shows "exec_ops cid (concat (map f tags)) live tag = (if tag \<in> set tags then Some cid else live tag)"
  using assms
proof (induction tags arbitrary: live)
  case (Cons t tags)
  have one: "fold (exec_op cid) (f t) live = live(t \<mapsto> cid)"
  proof (cases "f t = []")
    case True
    with Cons.prems [of t] have "live t = Some cid" by auto
    with True show ?thesis by (simp add: fun_upd_idem)
  next
    case False
    with Cons.prems [of t] obtain op where op: "f t = [op]" "po_tag op = t"
      "po_kind op = opRotate \<or> po_kind op = opAttach \<and> live t \<in> {None, Some cid}" by auto
    from op(2,3) have "exec_op cid op live = live(t \<mapsto> cid)"
      by (elim disjE conjE) (auto simp: exec_op_def fun_upd_idem)
    with op(1) show ?thesis by simp
  qed
  have "exec_ops cid (concat (map f tags)) (live(t \<mapsto> cid)) tag =
      (if tag \<in> set tags then Some cid else (live(t \<mapsto> cid)) tag)"
  proof (rule Cons.IH)
    fix t' assume "t' \<in> set tags"
    with Cons.prems [of t'] show "f t' = [] \<and> (live(t \<mapsto> cid)) t' = Some cid \<or>
        (\<exists>op. f t' = [op] \<and> po_tag op = t' \<and>
          (po_kind op = opRotate \<or> po_kind op = opAttach \<and> (live(t \<mapsto> cid)) t' \<in> {None, Some cid}))"
      by (cases "t' = t") auto
  qed
  moreover have "exec_ops cid (concat (map f (t # tags))) live = exec_ops cid (concat (map f tags)) (live(t \<mapsto> cid))"
    unfolding exec_ops_def by (simp add: one)
  ultimately show ?case by simp
qed (simp add: exec_ops_def)

lemma exec_ops_append: "exec_ops cid (xs @ ys) live = exec_ops cid ys (exec_ops cid xs live)"
  by (simp add: exec_ops_def)

definition detach :: "string \<Rightarrow> push_op" where
  "detach tag = \<lparr>po_kind = opDetach, po_tag = tag, po_flow = ''''\<rparr>"

text \<open>The two halves of the plan: what leaves, and what stays or joins.\<close>

definition leaving :: "roster_record \<Rightarrow> roster_record \<Rightarrow> push_op list \<Rightarrow> string list" where
  "leaving before after prev =
     filter (\<lambda>tag. tag \<notin> set (rec_Inbounds after)) (rec_Inbounds before @ tags_of {opDetach} prev)"

definition stay_ops :: "roster_record \<Rightarrow> roster_record \<Rightarrow> string gomap \<Rightarrow> push_op list \<Rightarrow> string \<Rightarrow> push_op list" where
  "stay_ops before after flows prev tag =
     (let op = (\<lambda>kind. \<lparr>po_kind = kind, po_tag = tag, po_flow = get_or '''' flows tag\<rparr>);
          attached = tag \<in> set (rec_Inbounds before);
          touched = tag \<in> set (tags_of {opAttach, opRotate} prev)
      in if (rec_ClientID before \<noteq> rec_ClientID after \<and> attached) \<or> touched then [op opRotate]
         else if \<not> attached \<or> prev \<noteq> [] then [op opAttach] else [])"

lemma diffOps_halves:
  "diffOps before after flows prev =
     map detach (leaving before after prev) @ concat (map (stay_ops before after flows prev) (rec_Inbounds after))"
proof -
  have "(\<lambda>tag. if (rec_ClientID before \<noteq> rec_ClientID after \<and> tag \<in> set (rec_Inbounds before)) \<or>
          tag \<in> set (tags_of {opAttach, opRotate} prev)
        then [\<lparr>po_kind = opRotate, po_tag = tag, po_flow = get_or '''' flows tag\<rparr>]
        else if tag \<notin> set (rec_Inbounds before) \<and> tag \<notin> set (tags_of {opAttach, opRotate} prev)
        then [\<lparr>po_kind = opAttach, po_tag = tag, po_flow = get_or '''' flows tag\<rparr>]
        else if prev \<noteq> []
        then [\<lparr>po_kind = opAttach, po_tag = tag, po_flow = get_or '''' flows tag\<rparr>]
        else []) = stay_ops before after flows prev"
    by (auto simp: fun_eq_iff stay_ops_def Let_def)
  then show ?thesis by (simp add: diffOps_def leaving_def Let_def detach_def)
qed


definition recorded :: "string \<Rightarrow> string list \<Rightarrow> roster_record" where
  "recorded cid tags = \<lparr>rec_Email = ''u'', rec_ClientID = cid, rec_Inbounds = tags, rec_CreatedAt = 0, rec_UpdatedAt = 0\<rparr>"


text \<open>
  The condition on rejoined inbounds is needed: when an unfinished detach has not landed and the
  edit attaches that inbound again with a new Client ID, the plan is a bare add, and the old
  credential stays live.
\<close>

lemma rejoin_keeps_old_credential:
  "diffOps (recorded ''old'' []) (recorded ''new'' [''t'']) [] (detachOps [''t'']) =
     [\<lparr>po_kind = opAttach, po_tag = ''t'', po_flow = ''''\<rparr>] \<and>
   exec_ops ''new'' (diffOps (recorded ''old'' []) (recorded ''new'' [''t'']) [] (detachOps [''t'']))
     [''t'' \<mapsto> ''old''] ''t'' = Some ''old''"
proof -
  have "diffOps (recorded ''old'' []) (recorded ''new'' [''t'']) [] (detachOps [''t'']) =
      [\<lparr>po_kind = opAttach, po_tag = ''t'', po_flow = ''''\<rparr>]"
    by (simp add: diffOps_def recorded_def detachOps_def tags_of_def)
  then show ?thesis by (simp add: exec_ops_def exec_op_def)
qed

section \<open>A pass settles only what it applied\<close>

named_theorems service_simps \<open>what an operation of the service leaves alone\<close>

text \<open>Pushing changes nothing but the trace of calls.\<close>

definition only_trace :: "service \<Rightarrow> service \<Rightarrow> bool" where
  "only_trace s s' \<longleftrightarrow> (\<exists>more. s' = s\<lparr>sv_trace := sv_trace s @ more\<rparr>)"

lemma only_trace_refl: "only_trace s s"
  unfolding only_trace_def by (rule exI [of _ "[]"]) simp

lemma only_trace_trans: "only_trace a b \<Longrightarrow> only_trace b c \<Longrightarrow> only_trace a c"
  by (auto simp: only_trace_def)

lemma only_traceD [service_simps]:
  assumes "only_trace s s'"
  shows "sv_db s' = sv_db s" "sv_pending s' = sv_pending s" "sv_failed s' = sv_failed s"
    "sv_nextGen s' = sv_nextGen s" "sv_collector s' = sv_collector s"
  using assms by (auto simp: only_trace_def)

lemma only_trace_pushOp: "only_trace s (snd (pushOp vw push email cid op s))"
proof (cases "findManaged vw (po_tag op)")
  case None
  then show ?thesis by (simp add: pushOp_def only_trace_refl)
next
  case (Some i)
  then show ?thesis
    by (cases "po_kind op") (auto simp: pushOp_def only_trace_def call_def split: option.splits)
qed

lemma only_trace_push_all: "only_trace s (snd (push_all vw push email cid ops s))"
proof (induction ops arbitrary: s)
  case (Cons op ops)
  obtain r s1 where r: "pushOp vw push email cid op s = (r, s1)" by fastforce
  with only_trace_pushOp [of s vw push email cid op] have "only_trace s s1" by simp
  with Cons [of s1] r show ?case by (auto split: option.splits intro: only_trace_trans)
qed (simp add: only_trace_refl)

text \<open>What a mutation or the background enqueues may do to the queue: drop changes, and queue new
  ones under generations that were never used.\<close>

definition queued :: "service \<Rightarrow> service \<Rightarrow> bool" where
  "queued s s' \<longleftrightarrow> sv_nextGen s \<le> sv_nextGen s' \<and>
     (distinct (map fst (sv_pending s)) \<longrightarrow> distinct (map fst (sv_pending s'))) \<and>
     (\<forall>e c. map_of (sv_pending s') e = Some c \<longrightarrow>
        map_of (sv_pending s) e = Some c \<or> sv_nextGen s < pc_gen c \<and> pc_gen c \<le> sv_nextGen s')"

lemma queued_refl: "queued s s"
  by (simp add: queued_def)

lemma queued_trans: "queued a b \<Longrightarrow> queued b c \<Longrightarrow> queued a c"
  by (fastforce simp: queued_def)

lemma queued_same: "sv_pending s' = sv_pending s \<Longrightarrow> sv_nextGen s' = sv_nextGen s \<Longrightarrow> queued s s'"
  by (simp add: queued_def)

lemma queued_db: "queued (s\<lparr>sv_db := d\<rparr>) s' = queued s s'" "queued s (s'\<lparr>sv_db := d\<rparr>) = queued s s'"
  by (simp_all add: queued_def)

lemma queued_takePending: "queued s (snd (takePending email s))"
  by (auto simp: queued_def takePending_def)

lemma queued_enqueueGen: "queued s (enqueueGen rec ops purge s)"
  by (auto simp: queued_def enqueueGen_def)

lemmas queue_ops_defs = enqueue_def enqueueDelete_def queueOps_def

lemma queued_Add: "queued s (snd (Service_Add U vw fail now email cid tags s))"
  by (auto simp: Service_Add_def Let_def queue_ops_defs queued_refl queued_db
      intro: queued_trans [OF _ queued_enqueueGen] split: option.split sum.split)

lemma queued_Edit: "queued s (snd (Service_Edit U vw fail now email req s))"
proof -
  have "queued s (snd (takePending e (s\<lparr>sv_db := d\<rparr>)))" for e d
    using queued_takePending [of "s\<lparr>sv_db := d\<rparr>" e] by (simp add: queued_db)
  moreover have "queued s (enqueueGen rec ops False (snd (takePending e (s\<lparr>sv_db := d\<rparr>))))" for e d rec ops
    using calculation queued_enqueueGen by (rule queued_trans)
  ultimately show ?thesis
    by (auto simp: Service_Edit_def Let_def queue_ops_defs queued_refl case_prod_beta
        split: option.split sum.split)
qed

lemma queued_Disable: "queued s (snd (Service_Disable fail now email s))"
proof -
  have "queued s ((snd (takePending e s))\<lparr>sv_db := d\<rparr>)" for e d
    by (simp add: queued_db queued_takePending)
  moreover have "queued s (enqueueGen rec ops False ((snd (takePending e s))\<lparr>sv_db := d\<rparr>))" for e d rec ops
    using calculation queued_enqueueGen by (rule queued_trans)
  ultimately show ?thesis
    using queued_takePending
    by (auto simp: Service_Disable_def Let_def queue_ops_defs queued_refl case_prod_beta split: option.split)
qed

lemma queued_Delete: "queued s (snd (Service_Delete fail now email s))"
proof -
  have "queued s (enqueueGen rec ops True ((snd (takePending e s))\<lparr>sv_db := d\<rparr>))" for e d rec ops
    by (rule queued_trans [OF _ queued_enqueueGen]) (simp add: queued_db queued_takePending)
  then show ?thesis
    using queued_takePending
    by (auto simp: Service_Delete_def Let_def queue_ops_defs queued_refl case_prod_beta split: option.split)
qed

lemma queued_Enable: "queued s (snd (Service_Enable vw fail now email s))"
proof -
  have "queued s (enqueueGen rec ops False (s\<lparr>sv_db := d\<rparr>))" for d rec ops
    by (rule queued_trans [OF _ queued_enqueueGen]) (simp add: queued_db queued_refl)
  then show ?thesis
    by (auto simp: Service_Enable_def Let_def queue_ops_defs queued_refl queued_db split: option.split sum.split)
qed

lemma queued_fold: "(\<And>x s. queued s (f x s)) \<Longrightarrow> queued s (fold f xs s)"
  by (induction xs arbitrary: s) (auto simp: queued_refl intro: queued_trans)

lemma queued_recoverDeletes: "queued s (recoverDeletes s)"
  by (auto simp: recoverDeletes_def enqueueDelete_def intro!: queued_fold queued_enqueueGen)

lemma logFailure_same [simp]:
  "sv_pending (Service_logFailure err s) = sv_pending s" "sv_nextGen (Service_logFailure err s) = sv_nextGen s"
  "sv_db (Service_logFailure err s) = sv_db s" "sv_failed (Service_logFailure err s) = sv_failed s"
  "sv_trace (Service_logFailure err s) = sv_trace s"
  by (simp_all add: Service_logFailure_def)

lemma converge_prune_queue:
  "sv_pending (snd (converge_prune vw fail now rec s)) = sv_pending s \<and>
   sv_nextGen (snd (converge_prune vw fail now rec s)) = sv_nextGen s"
  by (simp add: converge_prune_def Let_def split: option.split sum.split)

lemma queued_converge_record: "queued s (converge_record vw parse fail now rec s)"
proof -
  obtain r s1 where prune: "converge_prune vw fail now rec s = (r, s1)" by fastforce
  with converge_prune_queue [of vw fail now rec s] have s1: "queued s s1" by (simp add: queued_same)
  have "queued s (enqueueGen rec' ops False s1)" for rec' ops
    using s1 queued_enqueueGen by (rule queued_trans)
  with prune s1 show ?thesis
    by (auto simp: converge_record_def queued_refl Let_def enqueueIfLive_def enqueue_def split: option.split)
qed

lemma queued_converge: "queued s (Service_converge vw parse version list_err fail now s)"
  by (auto simp: Service_converge_def queued_refl intro: queued_same queued_fold queued_converge_record
      split: option.split)

subsection \<open>Mutations between the steps of a pass\<close>

text \<open>
  The pass holds the service's mutex only while it takes the snapshot and while it settles, so a
  mutation can run between any two of its steps. \<open>pass\<close> is where the loop stands; \<open>passes\<close> relates
  the states before and after one step of the loop or one mutation.
\<close>

datatype pass =
    Idle
  | Rendering "pending_change gomap"
  | Pushing "pending_change gomap"
  | Settling string pending_change "string option" "pending_change gomap"

inductive mutates :: "service \<Rightarrow> service \<Rightarrow> bool" where
  add: "mutates s (snd (Service_Add U vw fail now email cid tags s))"
| edit: "mutates s (snd (Service_Edit U vw fail now email req s))"
| disable: "mutates s (snd (Service_Disable fail now email s))"
| delete: "mutates s (snd (Service_Delete fail now email s))"
| enable: "mutates s (snd (Service_Enable vw fail now email s))"

inductive passes :: "pass \<times> service \<Rightarrow> pass \<times> service \<Rightarrow> bool" where
  mutate: "mutates s s' \<Longrightarrow> passes (p, s) (p, s')"
| recover: "passes (Idle, s) (Idle, recoverDeletes s)"
| converge: "passes (Idle, s) (Idle, Service_converge vw parse version list_err fail now s)"
| snapshot: "is_range order \<Longrightarrow> passes (Idle, s) (Rendering (order (sv_pending s)), s)"
| render: "passes (Rendering todo, s) (Pushing todo, s\<lparr>sv_trace := sv_trace s @ [Rendered (plan_of todo)]\<rparr>)"
| render_failed: "passes (Rendering todo, s)
    (Idle, broadcast (fail_pass err todo (s\<lparr>sv_trace := sv_trace s @ [Rendered (plan_of todo)]\<rparr>)))"
| skip: "supersededLocked e (pc_gen c) s \<Longrightarrow> passes (Pushing ((e, c) # todo), s) (Pushing todo, s)"
| push: "\<not> supersededLocked e (pc_gen c) s \<Longrightarrow> push_all vw push e (pc_id c) (pc_ops c) s = (outcome, s') \<Longrightarrow>
    passes (Pushing ((e, c) # todo), s) (Settling e c outcome todo, s')"
| settle: "passes (Settling e c outcome todo, s) (Pushing todo, settle_change purge_err e c outcome s)"
| finish: "passes (Pushing [], s) (Idle, broadcast s)"

fun to_do :: "pass \<Rightarrow> pending_change gomap" where
  "to_do Idle = []"
| "to_do (Rendering todo) = todo"
| "to_do (Pushing todo) = todo"
| "to_do (Settling e c outcome todo) = (e, c) # todo"

definition snapshot_of :: "pending_change gomap \<Rightarrow> service \<Rightarrow> bool" where
  "snapshot_of todo s \<longleftrightarrow> distinct (map fst todo) \<and>
     (\<forall>(e, c) \<in> set todo. pc_gen c \<le> sv_nextGen s \<and>
        (\<forall>c'. map_of (sv_pending s) e = Some c' \<longrightarrow> pc_gen c' = pc_gen c \<longrightarrow> c' = c))"

definition pass_inv :: "pass \<times> service \<Rightarrow> bool" where
  "pass_inv st \<longleftrightarrow> (case st of (p, s) \<Rightarrow>
     distinct (map fst (sv_pending s)) \<and>
     (\<forall>e c. map_of (sv_pending s) e = Some c \<longrightarrow> pc_gen c \<le> sv_nextGen s) \<and> snapshot_of (to_do p) s)"

lemma queued_snapshot:
  assumes "queued s s'" and "snapshot_of todo s"
  shows "snapshot_of todo s'"
proof -
  have "pc_gen c \<le> sv_nextGen s' \<and>
      (\<forall>c'. map_of (sv_pending s') e = Some c' \<longrightarrow> pc_gen c' = pc_gen c \<longrightarrow> c' = c)"
    if "(e, c) \<in> set todo" for e c
  proof -
    from that assms(2) have "pc_gen c \<le> sv_nextGen s"
      "\<forall>c'. map_of (sv_pending s) e = Some c' \<longrightarrow> pc_gen c' = pc_gen c \<longrightarrow> c' = c"
      by (auto simp: snapshot_of_def)
    with assms(1) show ?thesis by (fastforce simp: queued_def)
  qed
  with assms(2) show ?thesis by (auto simp: snapshot_of_def)
qed

lemma queued_inv:
  assumes "queued s s'" and "pass_inv (p, s)"
  shows "pass_inv (p, s')"
proof -
  have "pc_gen c \<le> sv_nextGen s'" if "map_of (sv_pending s') e = Some c" for e c
    using assms(1,2) that by (fastforce simp: queued_def pass_inv_def)
  moreover have "distinct (map fst (sv_pending s'))" using assms by (simp add: pass_inv_def queued_def)
  ultimately show ?thesis
    using assms(2) queued_snapshot [OF assms(1), of "to_do p"] by (simp add: pass_inv_def)
qed

lemma queued_mutates: "mutates s s' \<Longrightarrow> queued s s'"
  by (induction rule: mutates.induct)
     (simp_all add: queued_Add queued_Edit queued_Disable queued_Delete queued_Enable)

lemma inv_same_queue:
  assumes "pass_inv (p, s)" and "sv_pending s' = sv_pending s" "sv_nextGen s' = sv_nextGen s"
    and "\<exists>done. to_do p = done @ to_do p'"
  shows "pass_inv (p', s')"
  using assms by (fastforce simp: pass_inv_def snapshot_of_def)

lemma fail_pass_queue:
  "sv_pending (fail_pass err todo s) = sv_pending s \<and> sv_nextGen (fail_pass err todo s) = sv_nextGen s"
proof -
  have "sv_pending (fold (\<lambda>(email, c) s1. if supersededLocked email (pc_gen c) s1 then s1 else mark_failed email s1) todo s) = sv_pending s \<and>
    sv_nextGen (fold (\<lambda>(email, c) s1. if supersededLocked email (pc_gen c) s1 then s1 else mark_failed email s1) todo s) = sv_nextGen s"
    for s
    by (induction todo arbitrary: s) (auto simp: mark_failed_def)
  then show ?thesis by (simp add: fail_pass_def)
qed

lemma settle_change_queue:
  "sv_nextGen (settle_change purge_err e c outcome s) = sv_nextGen s"
  "e' \<noteq> e \<Longrightarrow> map_of (sv_pending (settle_change purge_err e c outcome s)) e' = map_of (sv_pending s) e'"
  "distinct (map fst (sv_pending s)) \<Longrightarrow> distinct (map fst (sv_pending (settle_change purge_err e c outcome s)))"
  "map_of (sv_pending (settle_change purge_err e c outcome s)) e = Some c' \<Longrightarrow>
     map_of (sv_pending s) e = Some c' \<or> pc_gen c' = pc_gen c \<and> has_key (sv_pending s) e"
  by (auto simp: settle_change_def mark_failed_def finishDelete_def Let_def supersededLocked_def
      split: option.splits if_splits)

lemma is_range_entry:
  assumes "is_range order" and "distinct (map fst m)" and "(k, v) \<in> set (order m)"
  shows "map_of m k = Some v"
  unfolding is_rangeD(2) [OF assms(1,2), symmetric]
  using is_rangeD(1) [OF assms(1,2)] assms(3) by (rule map_of_is_SomeI)

lemma inv_snapshot:
  assumes order: "is_range order" and inv: "pass_inv (Idle, s)"
  shows "pass_inv (Rendering (order (sv_pending s)), s)"
proof -
  from inv have keys: "distinct (map fst (sv_pending s))"
    and gens: "\<And>e c. map_of (sv_pending s) e = Some c \<Longrightarrow> pc_gen c \<le> sv_nextGen s"
    by (simp_all add: pass_inv_def del: map_of_eq_Some_iff)
  have entry: "map_of (sv_pending s) e = Some c" if "(e, c) \<in> set (order (sv_pending s))" for e c
    using order keys that by (rule is_range_entry)
  have "pc_gen c \<le> sv_nextGen s \<and>
      (\<forall>c'. map_of (sv_pending s) e = Some c' \<longrightarrow> pc_gen c' = pc_gen c \<longrightarrow> c' = c)"
    if "(e, c) \<in> set (order (sv_pending s))" for e c
    using gens [OF entry [OF that]] entry [OF that] by simp
  with is_rangeD(1) [OF order keys] have "snapshot_of (order (sv_pending s)) s"
    by (auto simp: snapshot_of_def simp del: map_of_eq_Some_iff)
  with inv show ?thesis by (simp add: pass_inv_def)
qed

lemma inv_settle:
  assumes inv: "pass_inv (Settling e c outcome todo, s)"
  shows "pass_inv (Pushing todo, settle_change purge_err e c outcome s)"
proof -
  let ?s = "settle_change purge_err e c outcome s"
  from inv have keys: "distinct (map fst (sv_pending s))" and snap: "snapshot_of ((e, c) # todo) s"
    and gens: "\<And>e c. map_of (sv_pending s) e = Some c \<Longrightarrow> pc_gen c \<le> sv_nextGen s"
    by (simp_all add: pass_inv_def del: map_of_eq_Some_iff)
  have fresh: "e' \<noteq> e" if "(e', c') \<in> set todo" for e' c'
    using snap that by (force simp: snapshot_of_def)
  have "pc_gen c' \<le> sv_nextGen s" if "map_of (sv_pending ?s) e' = Some c'" for e' c'
  proof (cases "e' = e")
    case True
    with settle_change_queue(4) that have "map_of (sv_pending s) e = Some c' \<or> pc_gen c' = pc_gen c" by blast
    with gens snap show ?thesis by (auto simp: snapshot_of_def simp del: map_of_eq_Some_iff)
  next
    case False
    with settle_change_queue(2) that gens show ?thesis by simp
  qed
  moreover have "snapshot_of todo ?s"
  proof -
    have "snapshot_of todo s" using snap by (simp add: snapshot_of_def)
    moreover have "map_of (sv_pending ?s) e' = map_of (sv_pending s) e'" if "(e', c') \<in> set todo" for e' c'
      using fresh [OF that] by (rule settle_change_queue(2))
    ultimately show ?thesis unfolding snapshot_of_def settle_change_queue(1) by fastforce
  qed
  ultimately show ?thesis
    using settle_change_queue(3) [OF keys]
    by (simp add: pass_inv_def settle_change_queue(1) del: map_of_eq_Some_iff)
qed

lemma inv_push:
  assumes "push_all vw push e cid ops s = (outcome, s')" and "pass_inv (Pushing ((e, c) # todo), s)"
  shows "pass_inv (Settling e c outcome todo, s')"
proof -
  from assms(1) only_trace_push_all [of s vw push e cid ops] have "only_trace s s'" by simp
  then have "sv_pending s' = sv_pending s" "sv_nextGen s' = sv_nextGen s" by (simp_all add: only_traceD)
  with assms(2) show ?thesis by (rule inv_same_queue) simp
qed

lemma passes_inv: "passes st st' \<Longrightarrow> pass_inv st \<Longrightarrow> pass_inv st'"
proof (induction rule: passes.induct)
  case (mutate s s' p)
  then show ?case by (rule queued_inv [OF queued_mutates])
next
  case (recover s)
  then show ?case by (rule queued_inv [OF queued_recoverDeletes])
next
  case (converge s vw parse version list_err fail now)
  then show ?case by (rule queued_inv [OF queued_converge])
next
  case (snapshot order s)
  then show ?case by (rule inv_snapshot)
next
  case (render todo s)
  then show ?case by (rule inv_same_queue) simp_all
next
  case (render_failed todo s err)
  then show ?case
    by (rule inv_same_queue) (simp_all add: broadcast_def fail_pass_queue)
next
  case (skip e c s todo)
  from skip(2) show ?case by (rule inv_same_queue) simp_all
next
  case (push e c s vw push outcome s' todo)
  from push(2,3) show ?case by (rule inv_push)
next
  case (settle e c outcome todo s purge_err)
  then show ?case by (rule inv_settle)
next
  case (finish s)
  then show ?case by (rule inv_same_queue) (simp_all add: broadcast_def)
qed


definition no_fail :: "nat \<Rightarrow> string option" where
  "no_fail k = None"

definition ann_service :: service where
  "ann_service = NewService with_ann NewCollector"

definition ann_disabled :: service where
  "ann_disabled = snd (Service_Disable no_fail 2 ''Ann@x'' ann_service)"

definition ann_change :: pending_change where
  "ann_change = \<lparr>pc_id = ''id-1'', pc_ops = detachOps [''t''], pc_gen = 1, pc_purge = False\<rparr>"

lemma ann_queue: "sv_pending ann_disabled = [(''Ann@x'', ann_change)]"
  by code_simp


section \<open>What one pass leaves behind\<close>

lemma supersededLocked_cong: "sv_pending s' = sv_pending s \<Longrightarrow> supersededLocked e g s' = supersededLocked e g s"
  by (simp add: supersededLocked_def)

lemma fail_pass_marks:
  assumes "sv_pending s = m" and "\<forall>(e, c) \<in> set todo. map_of m e = Some c"
  shows "map_of (sv_failed (fold (\<lambda>(email, c) s1.
      if supersededLocked email (pc_gen c) s1 then s1 else mark_failed email s1) todo s)) e =
    (if e \<in> fst ` set todo then Some True else map_of (sv_failed s) e)"
  using assms
proof (induction todo arbitrary: s)
  case (Cons entry todo)
  obtain k c where entry: "entry = (k, c)" by fastforce
  from Cons.prems entry have "\<not> supersededLocked k (pc_gen c) s" by (simp add: supersededLocked_def)
  with Cons.IH [of "mark_failed k s"] Cons.prems entry show ?case
    by (simp add: mark_failed_def)
qed simp

lemma fail_pass_rest:
  "sv_db (fail_pass err todo s) = sv_db s \<and> sv_trace (fail_pass err todo s) = sv_trace s \<and>
   sv_collector (fail_pass err todo s) = sv_collector s"
proof -
  have "sv_db (fold (\<lambda>(email, c) s1. if supersededLocked email (pc_gen c) s1 then s1 else mark_failed email s1) todo s) = sv_db s \<and>
    sv_trace (fold (\<lambda>(email, c) s1. if supersededLocked email (pc_gen c) s1 then s1 else mark_failed email s1) todo s) = sv_trace s \<and>
    sv_collector (fold (\<lambda>(email, c) s1. if supersededLocked email (pc_gen c) s1 then s1 else mark_failed email s1) todo s) = sv_collector s"
    for s
    by (induction todo arbitrary: s) (auto simp: mark_failed_def)
  then show ?thesis by (simp add: fail_pass_def Service_logFailure_def)
qed

text \<open>
  C12. The file leads the live server: when rendering the config file fails, the pass pushes
  nothing to xray, purges nothing and writes nothing to the store; every change stays queued as
  it is, every queued email is marked failed and the Roster reads failed.
\<close>

theorem failed_render_pushes_nothing:
  assumes "ae_render_err E = Some err" and "is_range (ae_order E)"
    and "distinct (map fst (sv_pending s))" and "sv_pending s \<noteq> []"
  shows "sv_trace (Service_apply E s) = sv_trace s @ [Rendered (plan_of (ae_order E (sv_pending s)))] \<and>
    sv_db (Service_apply E s) = sv_db s \<and> sv_collector (Service_apply E s) = sv_collector s \<and>
    sv_pending (Service_apply E s) = sv_pending s \<and>
    (\<forall>e. has_key (sv_pending s) e \<longrightarrow> map_of (sv_failed (Service_apply E s)) e = Some True) \<and>
    syncLocked (Service_apply E s) = SyncFailed"
proof -
  let ?todo = "ae_order E (sv_pending s)"
  let ?s = "s\<lparr>sv_trace := sv_trace s @ [Rendered (plan_of ?todo)]\<rparr>"
  note order = is_rangeD [OF assms(2,3)]
  have "mset ?todo = mset (sv_pending s)" using assms(2) by (simp add: is_range_def)
  with assms(4) have ne: "?todo \<noteq> []" by (metis mset_zero_iff)
  have pass: "Service_apply E s = broadcast (fail_pass err ?todo ?s)"
    using assms(1) ne by (simp add: Service_apply_def Let_def)
  have entry: "\<forall>(e, c) \<in> set ?todo. map_of (sv_pending s) e = Some c"
    using is_range_entry [OF assms(2,3)] by auto
  have keys: "fst ` set ?todo = dom (map_of (sv_pending s))"
    by (simp add: order(2) [symmetric] dom_map_of_conv_image_fst)
  have marked: "map_of (sv_failed (Service_apply E s)) e = Some True" if "has_key (sv_pending s) e" for e
    using fail_pass_marks [of "Service_logFailure err ?s" "sv_pending s" ?todo e] entry that keys
    by (auto simp: pass broadcast_def fail_pass_def)
  have "\<exists>e. has_key (sv_pending s) e" using assms(4) by (cases "sv_pending s") auto
  with marked have "sv_failed (Service_apply E s) \<noteq> []" by force
  then have "syncLocked (Service_apply E s) = SyncFailed" by (simp add: syncLocked_def)
  with marked show ?thesis by (simp add: pass broadcast_def fail_pass_rest fail_pass_queue)
qed

definition all_well :: apply_env where
  "all_well = \<lparr>ae_view = [], ae_order = (\<lambda>m. m), ae_render_err = None, ae_push = (\<lambda>_ _. None),
     ae_purge_err = (\<lambda>_. None)\<rparr>"

theorem failed_render_pushes_nothing_witness:
  "syncLocked (Service_apply (all_well\<lparr>ae_render_err := Some ''disk full''\<rparr>) ann_disabled) = SyncFailed \<and>
   sv_db (Service_apply (all_well\<lparr>ae_render_err := Some ''disk full''\<rparr>) ann_disabled) = sv_db ann_disabled"
proof -
  have "is_range (ae_order (all_well\<lparr>ae_render_err := Some ''disk full''\<rparr>))"
    by (simp add: is_range_def all_well_def)
  with failed_render_pushes_nothing [of "all_well\<lparr>ae_render_err := Some ''disk full''\<rparr>" "''disk full''" ann_disabled]
  show ?thesis by (simp add: ann_queue)
qed

lemma settle_change_db:
  "sv_db (settle_change purge_err e c outcome s) = sv_db s \<or>
   pc_purge c \<and> outcome = None \<and> sv_db (settle_change purge_err e c outcome s) = PurgeRosterUser (sv_db s) e"
  by (auto simp: settle_change_def mark_failed_def finishDelete_def Let_def split: option.splits)

lemma apply_change_db:
  "sv_db (apply_change vw push purge_err (e, c) s) = sv_db s \<or>
   pc_purge c \<and> fst (push_all vw push e (pc_id c) (pc_ops c) s) = None \<and>
   sv_db (apply_change vw push purge_err (e, c) s) = PurgeRosterUser (sv_db s) e"
proof -
  obtain r s1 where push: "push_all vw push e (pc_id c) (pc_ops c) s = (r, s1)" by fastforce
  with only_trace_push_all [of s vw push e "pc_id c" "pc_ops c"] have "sv_db s1 = sv_db s"
    by (simp add: only_traceD)
  with push settle_change_db [of purge_err e c None s1]
    settle_change_db [of purge_err e c "Some (the r)" "Service_logFailure (the r) s1"]
  show ?thesis by (cases r) (auto simp: apply_change_def)
qed

text \<open>What is not being deleted cannot be purged.\<close>

definition spared :: "db \<Rightarrow> db \<Rightarrow> bool" where
  "spared d d' \<longleftrightarrow> (unique_roster d \<longrightarrow> unique_roster d' \<and>
     (\<forall>k. (\<forall>c ts. abs_roster d k \<noteq> Some (Leaving c ts)) \<longrightarrow> abs_roster d' k = abs_roster d k))"

lemma spared_purge: "spared d (PurgeRosterUser d e)"
proof -
  have "spec_purge m = m" if "\<forall>c ts. m \<noteq> Some (Leaving c ts)" for m
    using that by (cases m rule: spec_purge.cases) auto
  then show ?thesis
    by (auto simp: spared_def unique_PurgeRosterUser abs_PurgeRosterUser)
qed

lemma spared_refl: "spared d d"
  by (simp add: spared_def)

lemma spared_trans: "spared a b \<Longrightarrow> spared b c \<Longrightarrow> spared a c"
  by (simp add: spared_def)

lemma spared_pass: "spared (sv_db s) (sv_db (fold (apply_change vw push purge_err) todo s))"
proof (induction todo arbitrary: s)
  case (Cons entry todo)
  obtain e c where entry: "entry = (e, c)" by fastforce
  have "spared (sv_db s) (sv_db (apply_change vw push purge_err entry s))"
    using apply_change_db [of vw push purge_err e c s] spared_purge spared_refl by (auto simp: entry)
  with Cons show ?case by (auto intro: spared_trans)
qed (simp add: spared_refl)

text \<open>
  Applying never costs a member: whatever the renderer, the pusher and the store answer and
  whatever is queued, one pass of the apply loop leaves every live member and every disabled
  member of the Roster as they are, credential and attachments included; only rows already marked
  as being deleted can go, and the uniqueness rules still hold.
\<close>

lemma apply_spares_members:
  assumes "unique_roster (sv_db s)"
  shows "unique_roster (sv_db (Service_apply E s)) \<and>
    (\<forall>k m. abs_roster (sv_db s) k = Some m \<longrightarrow> (\<forall>c ts. m \<noteq> Leaving c ts) \<longrightarrow>
       abs_roster (sv_db (Service_apply E s)) k = Some m)"
proof -
  have "spared (sv_db s) (sv_db (Service_apply E s))"
    using spared_pass [of "s\<lparr>sv_trace := t\<rparr>" for t] spared_refl
    by (simp add: Service_apply_def Let_def broadcast_def fail_pass_rest split: option.split)
  with assms show ?thesis by (simp add: spared_def)
qed

lemma apply_spares_members_witness:
  "abs_roster (sv_db (Service_apply all_well ann_disabled)) ''ann@x'' = Some (Off ''id-1'' [''t''])"
proof -
  have db: "sv_db ann_disabled = DisableRosterUser with_ann ''Ann@x'' 2" by code_simp
  have "unique_roster (sv_db ann_disabled)" unfolding db by (rule unique_DisableRosterUser [OF with_ann_unique])
  moreover have "abs_roster (sv_db ann_disabled) ''ann@x'' = Some (Off ''id-1'' [''t''])" by code_simp
  ultimately show ?thesis using apply_spares_members by blast
qed

subsection \<open>A pass that succeeds\<close>

definition succeeds :: "apply_env \<Rightarrow> bool" where
  "succeeds E \<longleftrightarrow> is_range (ae_order E) \<and> ae_render_err E = None \<and> (\<forall>t eff. ae_push E t eff = None) \<and>
     (\<forall>e. ae_purge_err E e = None)"

lemma push_all_ok: "\<forall>t eff. push t eff = None \<Longrightarrow> fst (push_all vw push e cid ops s) = None"
proof (induction ops arbitrary: s)
  case (Cons op ops)
  have "fst (pushOp vw push e cid op s) = None"
    using Cons.prems by (cases "po_kind op") (auto simp: pushOp_def call_def)
  then obtain s1 where "pushOp vw push e cid op s = (None, s1)" by (metis prod.collapse)
  with Cons.IH [OF Cons.prems, of s1] show ?case by simp
qed simp

definition purge_change :: "string \<times> pending_change \<Rightarrow> db \<Rightarrow> db" where
  "purge_change entry d = (if pc_purge (snd entry) then PurgeRosterUser d (fst entry) else d)"

lemma apply_change_ok:
  fixes vw :: view
  assumes "\<forall>t eff. push t eff = None" and "\<forall>e. purge_err e = None" and "map_of (sv_pending s) e = Some c"
  defines "s' \<equiv> apply_change vw push purge_err (e, c) s"
  shows "sv_pending s' = AList.delete e (sv_pending s)" "sv_failed s' = AList.delete e (sv_failed s)"
    "sv_db s' = purge_change (e, c) (sv_db s)"
proof -
  obtain s1 where push: "push_all vw push e (pc_id c) (pc_ops c) s = (None, s1)"
    using push_all_ok [OF assms(1), of vw e "pc_id c" "pc_ops c" s] by (metis prod.collapse)
  with only_trace_push_all [of s vw push e "pc_id c" "pc_ops c"] have "only_trace s s1" by simp
  note s1 = only_traceD [OF this]
  have s': "s' = settle_change purge_err e c None s1"
    using assms(3) push by (simp add: s'_def apply_change_def supersededLocked_def)
  show "sv_pending s' = AList.delete e (sv_pending s)" "sv_failed s' = AList.delete e (sv_failed s)"
    "sv_db s' = purge_change (e, c) (sv_db s)"
    using assms(2,3) s1
    by (simp_all add: s' settle_change_def supersededLocked_def finishDelete_def purge_change_def Let_def)
qed

lemma apply_pass_ok:
  fixes vw :: view
  assumes "\<forall>t eff. push t eff = None" and "\<forall>e. purge_err e = None"
    and "distinct (map fst todo)" and "\<forall>(e, c) \<in> set todo. map_of (sv_pending s) e = Some c"
  defines "s' \<equiv> fold (apply_change vw push purge_err) todo s"
  shows "map_of (sv_pending s') k = (if k \<in> fst ` set todo then None else map_of (sv_pending s) k) \<and>
    map_of (sv_failed s') k = (if k \<in> fst ` set todo then None else map_of (sv_failed s) k) \<and>
    sv_db s' = fold purge_change todo (sv_db s)"
  using assms(3,4) unfolding s'_def
proof (induction todo arbitrary: s)
  case (Cons entry todo)
  obtain e c where entry: "entry = (e, c)" by fastforce
  from Cons.prems have "map_of (sv_pending s) e = Some c" by (simp add: entry)
  note one = apply_change_ok [OF assms(1,2) this, where vw = vw]
  have "\<forall>(k, v) \<in> set todo. map_of (sv_pending (apply_change vw push purge_err (e, c) s)) k = Some v"
    using Cons.prems by (auto simp: one entry rev_image_eqI)
  with Cons.IH [of "apply_change vw push purge_err (e, c) s"] Cons.prems(1)
  show ?case by (auto simp: entry one)
qed simp

lemma pass_settles_all:
  assumes "succeeds E" and "distinct (map fst (sv_pending s))" and "sv_pending s \<noteq> []"
  shows "sv_pending (Service_apply E s) = [] \<and>
    (\<forall>e. map_of (sv_failed (Service_apply E s)) e = (if has_key (sv_pending s) e then None else map_of (sv_failed s) e)) \<and>
    sv_db (Service_apply E s) = fold purge_change (ae_order E (sv_pending s)) (sv_db s) \<and>
    (fst ` set (sv_failed s) \<subseteq> fst ` set (sv_pending s) \<longrightarrow>
      syncLocked (Service_apply E s) = Synced \<and> sv_lastApplyErr (Service_apply E s) = '''')"
proof -
  let ?todo = "ae_order E (sv_pending s)"
  let ?s = "s\<lparr>sv_trace := sv_trace s @ [Rendered (plan_of ?todo)]\<rparr>"
  let ?s2 = "fold (apply_change (ae_view E) (ae_push E) (ae_purge_err E)) ?todo ?s"
  from assms(1) have order: "is_range (ae_order E)" and ok: "ae_render_err E = None"
    "\<forall>t eff. ae_push E t eff = None" "\<forall>e. ae_purge_err E e = None" by (auto simp: succeeds_def)
  note range_facts = is_rangeD [OF order assms(2)]
  have "mset ?todo = mset (sv_pending s)" using order by (simp add: is_range_def)
  with assms(3) have ne: "?todo \<noteq> []" by (metis mset_zero_iff)
  have entry: "\<forall>(e, c) \<in> set ?todo. map_of (sv_pending ?s) e = Some c"
    using is_range_entry [OF order assms(2)] by auto
  have keys: "e \<in> fst ` set ?todo \<longleftrightarrow> has_key (sv_pending s) e" for e
    using range_facts(2) by (metis map_of_eq_None_iff)
  note pass = apply_pass_ok [OF ok(2,3) range_facts(1) entry, where vw = "ae_view E"]
  have pending: "sv_pending ?s2 = []"
  proof -
    have "map_of (sv_pending ?s2) = Map.empty" using pass keys by (fastforce simp: fun_eq_iff)
    then show ?thesis by (metis map_of_eq_empty_iff)
  qed
  have failed: "sv_failed ?s2 = []" if "fst ` set (sv_failed s) \<subseteq> fst ` set (sv_pending s)"
  proof -
    have "map_of (sv_failed ?s2) e = None" for e
      using pass [of e] keys [of e] that
      by (simp split: if_splits) (metis map_of_eq_None_iff subsetD)
    then show ?thesis by (metis ext map_of_eq_empty_iff)
  qed
  have shape: "Service_apply E s = broadcast (if sv_pending ?s2 = [] \<and> sv_failed ?s2 = []
      then ?s2\<lparr>sv_lastApplyErr := ''''\<rparr> else ?s2)"
    using ok(1) ne by (simp add: Service_apply_def Let_def)
  have marks: "map_of (sv_failed ?s2) e = (if has_key (sv_pending s) e then None else map_of (sv_failed s) e)" for e
    using pass [of e] keys [of e] by simp
  have store: "sv_db ?s2 = fold purge_change ?todo (sv_db s)" using pass by simp
  have kept: "sv_pending (Service_apply E s) = sv_pending ?s2" "sv_failed (Service_apply E s) = sv_failed ?s2"
    "sv_db (Service_apply E s) = sv_db ?s2"
    unfolding shape by (simp_all add: broadcast_def)
  have "sv_lastApplyErr (Service_apply E s) = ''''" if "sv_failed ?s2 = []"
    unfolding shape using pending that by (simp add: broadcast_def)
  with failed show ?thesis
    unfolding syncLocked_def kept pending store by (simp add: marks)
qed

text \<open>
  A pass in which nothing fails settles everything it finds: the queue is empty after it, no
  email of the queue is marked failed any more, the purges of the queued deletes are done, and if
  only queued emails were marked failed the Roster reads synced and the recorded failure is
  cleared.
\<close>

lemma successful_pass_settles_all:
  assumes "succeeds E" and "distinct (map fst (sv_pending s))" and "sv_pending s \<noteq> []"
  shows "sv_pending (Service_apply E s) = [] \<and>
    (\<forall>e. map_of (sv_failed (Service_apply E s)) e = (if has_key (sv_pending s) e then None else map_of (sv_failed s) e)) \<and>
    sv_db (Service_apply E s) = fold purge_change (ae_order E (sv_pending s)) (sv_db s) \<and>
    (fst ` set (sv_failed s) \<subseteq> fst ` set (sv_pending s) \<longrightarrow>
      syncLocked (Service_apply E s) = Synced \<and> sv_lastApplyErr (Service_apply E s) = '''')"
  using assms by (rule pass_settles_all)

lemma successful_pass_settles_all_witness: "syncLocked (Service_apply all_well ann_disabled) = Synced"
proof -
  have ok: "succeeds all_well" by (simp add: succeeds_def all_well_def is_range_def)
  have "sv_failed ann_disabled = []" by code_simp
  with successful_pass_settles_all [OF ok, of ann_disabled] show ?thesis by (simp add: ann_queue)
qed

subsection \<open>Deletes survive a restart\<close>

lemma abs_purges:
  assumes "unique_roster d" and "\<forall>entry \<in> set todo. pc_purge (snd entry)"
  shows "unique_roster (fold purge_change todo d) \<and>
    (\<forall>k. abs_roster (fold purge_change todo d) k =
      (if k \<in> (\<lambda>entry. sql_lower (fst entry)) ` set todo then spec_purge (abs_roster d k) else abs_roster d k))"
  using assms
proof (induction todo arbitrary: d)
  case (Cons entry todo)
  have idem: "spec_purge (spec_purge m) = spec_purge m" for m by (cases m rule: spec_purge.cases) auto
  from Cons.IH [of "PurgeRosterUser d (fst entry)"] Cons.prems show ?case
    by (auto simp: purge_change_def abs_PurgeRosterUser unique_PurgeRosterUser idem)
qed simp

abbreviation requeue :: "roster_record \<Rightarrow> service \<Rightarrow> service" where
  "requeue rec \<equiv> enqueueDelete rec (detachOps (rec_Inbounds rec))"

lemma requeue_simps:
  "sv_db (requeue rec s) = sv_db s"
  "map_of (sv_pending (requeue rec s)) = (map_of (sv_pending s))(rec_Email rec \<mapsto>
     \<lparr>pc_id = rec_ClientID rec, pc_ops = detachOps (rec_Inbounds rec), pc_gen = sv_nextGen s + 1, pc_purge = True\<rparr>)"
  "distinct (map fst (sv_pending s)) \<Longrightarrow> distinct (map fst (sv_pending (requeue rec s)))"
  by (auto simp: enqueueDelete_def enqueueGen_def)

lemma recover_db: "sv_db (fold requeue recs s) = sv_db s"
  by (induction recs arbitrary: s) (simp_all add: requeue_simps(1))

lemma recover_keys:
  "distinct (map fst (sv_pending s)) \<Longrightarrow> distinct (map fst (sv_pending (fold requeue recs s)))"
  by (induction recs arbitrary: s) (simp_all add: requeue_simps(3))

lemma recover_purges:
  "\<forall>e c. map_of (sv_pending s) e = Some c \<longrightarrow> pc_purge c \<Longrightarrow>
   map_of (sv_pending (fold requeue recs s)) e = Some c \<Longrightarrow> pc_purge c"
proof (induction recs arbitrary: s)
  case (Cons r recs)
  have "\<forall>e c. map_of (sv_pending (requeue r s)) e = Some c \<longrightarrow> pc_purge c"
    using Cons.prems(1) by (auto simp: requeue_simps(2))
  from Cons.IH [OF this] Cons.prems(2) show ?case by simp
qed simp

lemma recover_has_key:
  "has_key (sv_pending (fold requeue recs s)) e \<longleftrightarrow> has_key (sv_pending s) e \<or> e \<in> rec_Email ` set recs"
  by (induction recs arbitrary: s) (auto simp: requeue_simps(2))

lemma Leaving_iff_deleting:
  assumes "unique_roster d"
  shows "(\<exists>c ts. abs_roster d k = Some (Leaving c ts)) \<longleftrightarrow>
    k \<in> (\<lambda>rec. sql_lower (rec_Email rec)) ` set (DeletingRosterRecords d)"
proof -
  have mem: "(\<exists>c ts. member_of r = Leaving c ts) \<longleftrightarrow> rr_deleting r" for r by (simp add: member_of_def)
  have "(\<lambda>rec. sql_lower (rec_Email rec)) ` set (DeletingRosterRecords d) =
      (\<lambda>r. sql_lower (rr_email r)) ` {r \<in> set (db_roster d). rr_deleting r}"
    by (auto simp: DeletingRosterRecords_def short_record_def image_image)
  moreover have "(\<exists>c ts. abs_roster d k = Some (Leaving c ts)) \<longleftrightarrow>
      (\<exists>r \<in> set (db_roster d). sql_lower (rr_email r) = k \<and> rr_deleting r)"
    using abs_roster_row [OF assms] mem by (metis abs_rosterD option.inject)
  ultimately show ?thesis by auto
qed

text \<open>
  C8. A delete interrupted by a restart completes: a fresh service over tables with rows still
  marked as being deleted re-queues their removal at startup, and one pass in which nothing fails
  then erases exactly those members and leaves every other member of the Roster as it was.
\<close>

theorem restart_completes_deletes:
  assumes "unique_roster d" and "succeeds E" and "DeletingRosterRecords d \<noteq> []"
  shows "abs_roster (sv_db (Service_apply E (recoverDeletes (NewService d col)))) =
      (\<lambda>k. case abs_roster d k of Some (Leaving c ts) \<Rightarrow> None | m \<Rightarrow> m) \<and>
    DeletingRosterRecords (sv_db (Service_apply E (recoverDeletes (NewService d col)))) = []"
proof -
  let ?recs = "DeletingRosterRecords d" and ?s = "NewService d col"
  let ?r = "recoverDeletes ?s"
  have r: "?r = fold requeue ?recs ?s" by (simp add: recoverDeletes_def NewService_def)
  have keys: "distinct (map fst (sv_pending ?r))" unfolding r by (rule recover_keys) (simp add: NewService_def)
  have has: "has_key (sv_pending ?r) e \<longleftrightarrow> e \<in> rec_Email ` set ?recs" for e
    unfolding r recover_has_key by (simp add: NewService_def)
  have ne: "sv_pending ?r \<noteq> []"
  proof -
    from assms(3) have "hd ?recs \<in> set ?recs" by (rule hd_in_set)
    then have "has_key (sv_pending ?r) (rec_Email (hd ?recs))" unfolding has by (rule imageI)
    then show ?thesis by (cases "sv_pending ?r") simp_all
  qed
  let ?todo = "ae_order E (sv_pending ?r)"
  have order: "is_range (ae_order E)" using assms(2) by (simp add: succeeds_def)
  have "pc_purge c" if "(e, c) \<in> set ?todo" for e c
  proof (rule recover_purges)
    show "map_of (sv_pending (fold requeue ?recs ?s)) e = Some c"
      using is_range_entry [OF order keys that] unfolding r .
  qed (simp add: NewService_def)
  then have purge: "\<forall>entry \<in> set ?todo. pc_purge (snd entry)" by auto
  have keys_todo: "fst ` set ?todo = rec_Email ` set ?recs"
  proof -
    have "e \<in> fst ` set ?todo \<longleftrightarrow> e \<in> rec_Email ` set ?recs" for e
      using has [of e] is_rangeD(2) [OF order keys] by (metis map_of_eq_None_iff)
    then show ?thesis by blast
  qed
  let ?d = "fold purge_change ?todo d"
  have db: "sv_db (Service_apply E ?r) = ?d"
  proof -
    have "sv_db ?r = d" unfolding r recover_db by (simp add: NewService_def)
    with pass_settles_all [OF assms(2) keys ne] show ?thesis by metis
  qed
  note facts = abs_purges [OF assms(1) purge]
  have key_image: "(\<lambda>entry. sql_lower (fst entry)) ` set ?todo = (\<lambda>rec. sql_lower (rec_Email rec)) ` set ?recs"
    using keys_todo by (metis image_image)
  have abs: "abs_roster ?d k = (case abs_roster d k of Some (Leaving c ts) \<Rightarrow> None | m \<Rightarrow> m)" for k
  proof -
    have "abs_roster ?d k = (if \<exists>c ts. abs_roster d k = Some (Leaving c ts) then spec_purge (abs_roster d k)
        else abs_roster d k)"
      using facts Leaving_iff_deleting [OF assms(1), of k] by (simp add: key_image)
    then show ?thesis by (cases "abs_roster d k" rule: spec_purge.cases) simp_all
  qed
  moreover have "DeletingRosterRecords ?d = []"
  proof -
    have "\<not> (\<exists>c ts. abs_roster ?d k = Some (Leaving c ts))" for k
      unfolding abs by (cases "abs_roster d k" rule: spec_purge.cases) simp_all
    with Leaving_iff_deleting [of ?d] facts
    have none: "sql_lower (rec_Email (hd (DeletingRosterRecords ?d))) \<notin>
        (\<lambda>rec. sql_lower (rec_Email rec)) ` set (DeletingRosterRecords ?d)" by metis
    show ?thesis
    proof (rule ccontr)
      assume "DeletingRosterRecords ?d \<noteq> []"
      then have "hd (DeletingRosterRecords ?d) \<in> set (DeletingRosterRecords ?d)" by (rule hd_in_set)
      then show False using none by (metis imageI)
    qed
  qed
  ultimately show ?thesis unfolding db by (simp add: fun_eq_iff)
qed

definition ann_leaving :: db where
  "ann_leaving = MarkRosterDeleting with_ann ''ann@x'' 2"

theorem restart_completes_deletes_witness:
  "abs_roster (sv_db (Service_apply all_well (recoverDeletes (NewService ann_leaving NewCollector)))) ''ann@x'' = None"
proof -
  have ok: "succeeds all_well" by (simp add: succeeds_def all_well_def is_range_def)
  have u: "unique_roster ann_leaving"
    unfolding ann_leaving_def by (rule unique_MarkRosterDeleting [OF with_ann_unique])
  have leaving: "abs_roster ann_leaving ''ann@x'' = Some (Leaving ''id-1'' [''t''])" by code_simp
  have "DeletingRosterRecords ann_leaving \<noteq> []"
    by (simp add: DeletingRosterRecords_def ann_leaving_def with_ann_def ann_row_def MarkRosterDeleting_def
        update_where_def same_email_def) code_simp
  from restart_completes_deletes [OF u ok this, of NewCollector] leaving show ?thesis by simp
qed

section \<open>Convergence\<close>

text \<open>The record and the member of a live row.\<close>

lemma RosterRecord_row:
  assumes "unique_roster d" and "row \<in> set (db_roster d)" and "\<not> rr_disabled row" "\<not> rr_deleting row"
    and "same_email (rr_email row) e"
  shows "RosterRecord d e = Some (record_of row)"
proof -
  have "find (\<lambda>r. sql_lower (rr_email r) = sql_lower e) (db_roster d) = Some row"
    by (rule find_keyed [where k = "\<lambda>r. sql_lower (rr_email r)"])
       (use assms in \<open>auto simp: unique_roster_def same_email_def\<close>)
  with assms show ?thesis by (simp add: RosterRecord_def rosterRecord_row)
qed

lemma EditRosterUser_keep_id:
  fixes kept :: "string list" and labels :: "label list"
  assumes u: "unique_roster d" and row: "row \<in> set (db_roster d)" "\<not> rr_disabled row" "\<not> rr_deleting row"
  defines "edit \<equiv> \<lparr>ed_ClientID = None, ed_Inbounds = Some kept, ed_Labels = labels\<rparr>"
  shows "\<exists>rec d'. EditRosterUser d (rr_email row) edit now = Inr (rec, d') \<and>
    rec_Email rec = rr_email row \<and> rec_ClientID rec = rr_client_id row \<and> rec_Inbounds rec = kept \<and>
    unique_roster d' \<and> abs_roster d' = (abs_roster d)(sql_lower (rr_email row) \<mapsto> Live (rr_client_id row) kept) \<and>
    (\<forall>r \<in> set (db_roster d). rr_email r \<noteq> rr_email row \<longrightarrow> r \<in> set (db_roster d')) \<and>
    (\<exists>r \<in> set (db_roster d'). rr_email r = rr_email row \<and> \<not> rr_disabled r \<and> \<not> rr_deleting r)"
proof -
  let ?e = "rr_email row" and ?before = "record_of row"
  have before: "RosterRecord d ?e = Some ?before" using RosterRecord_row [OF u row] by simp
  have live: "abs_roster d (sql_lower ?e) = Some (Live (rr_client_id row) (rr_inbounds row))"
    using abs_roster_row [OF u row(1)] row(2,3) by (simp add: member_of_def)
  have "\<exists>answer. EditRosterUser d ?e edit now = Inr answer"
    using before by (simp add: EditRosterUser_def edit_def Let_def)
  then obtain rec d' where ed: "EditRosterUser d ?e edit now = Inr (rec, d')" by auto
  have shape: "rec_Email rec = ?e \<and> rec_ClientID rec = rr_client_id row \<and> rec_Inbounds rec = kept \<and>
      (d' = d \<and> kept = rr_inbounds row \<or>
       db_roster d' = update_where (\<lambda>r. rr_email r = ?e)
         (\<lambda>r. r\<lparr>rr_client_id := rr_client_id row, rr_inbounds := kept, rr_updated_at := now\<rparr>) (db_roster d))"
    using ed before by (auto simp: EditRosterUser_def edit_def Let_def record_of_def split: option.splits if_splits)
  have "abs_roster d' = (abs_roster d)(sql_lower ?e \<mapsto> Live (rr_client_id row) kept)"
  proof (cases "d' = d \<and> kept = rr_inbounds row")
    case True
    with live show ?thesis by (simp add: fun_upd_idem)
  next
    case False
    with shape have d': "db_roster d' = update_where (\<lambda>r. rr_email r = ?e)
        (\<lambda>r. r\<lparr>rr_client_id := rr_client_id row, rr_inbounds := kept, rr_updated_at := now\<rparr>) (db_roster d)"
      by blast
    have one: "r = row" if "r \<in> set (db_roster d)" "sql_lower (rr_email r) = sql_lower ?e" for r
      using unique_rosterD [OF u that(1) row(1)] that(2) by (simp add: same_email_def)
    have "abs_roster d' = (abs_roster d)(sql_lower ?e :=
        map_option (\<lambda>m. Live (rr_client_id row) kept) (abs_roster d (sql_lower ?e)))"
      by (rule abs_update_where [OF d']) (use one row in \<open>auto simp: member_of_def\<close>)
    with live show ?thesis by simp
  qed
  moreover have "(\<forall>r \<in> set (db_roster d). rr_email r \<noteq> ?e \<longrightarrow> r \<in> set (db_roster d')) \<and>
      (\<exists>r \<in> set (db_roster d'). rr_email r = ?e \<and> \<not> rr_disabled r \<and> \<not> rr_deleting r)"
  proof (cases "d' = d")
    case False
    with shape have d': "set (db_roster d') = (\<lambda>r. if rr_email r = ?e
        then r\<lparr>rr_client_id := rr_client_id row, rr_inbounds := kept, rr_updated_at := now\<rparr> else r) ` set (db_roster d)"
      by (simp add: set_update_where)
    then have "row\<lparr>rr_client_id := rr_client_id row, rr_inbounds := kept, rr_updated_at := now\<rparr> \<in> set (db_roster d')"
      using row(1) by (simp add: rev_image_eqI)
    moreover have "r \<in> set (db_roster d')" if "r \<in> set (db_roster d)" "rr_email r \<noteq> ?e" for r
      unfolding d' by (rule rev_image_eqI [OF that(1)]) (simp add: that(2))
    ultimately show ?thesis
      using row(2,3) by (intro conjI bexI
        [of _ "row\<lparr>rr_client_id := rr_client_id row, rr_inbounds := kept, rr_updated_at := now\<rparr>"]) simp_all
  qed (use row in auto)
  ultimately show ?thesis using ed shape unique_EditRosterUser [OF u ed] by blast
qed

definition live_record :: "db \<Rightarrow> roster_record \<Rightarrow> bool" where
  "live_record d rec \<longleftrightarrow> (\<exists>row \<in> set (db_roster d). \<not> rr_disabled row \<and> \<not> rr_deleting row \<and>
     rr_email row = rec_Email rec \<and> rr_client_id row = rec_ClientID rec \<and> rr_inbounds row = rec_Inbounds rec)"

definition file_tags :: "roster_parse \<Rightarrow> string \<Rightarrow> string list" where
  "file_tags parse e = (case map_of (rp_Clients parse) e of None \<Rightarrow> [] | Some c \<Rightarrow> cl_Inbounds c)"

definition missing_tags :: "view \<Rightarrow> roster_parse \<Rightarrow> roster_record \<Rightarrow> string list" where
  "missing_tags vw parse rec =
     filter (\<lambda>tag. tag \<notin> set (file_tags parse (rec_Email rec))) (managed_tags vw (rec_Inbounds rec))"

lemma managed_tags_idem: "managed_tags vw (managed_tags vw ts) = managed_tags vw ts"
  by (simp add: managed_tags_def)

lemma managed_tags_full: "\<not> length (managed_tags vw ts) < length ts \<Longrightarrow> managed_tags vw ts = ts"
proof -
  assume full: "\<not> length (managed_tags vw ts) < length ts"
  have "findManaged vw x \<noteq> None" if "x \<in> set ts" for x
  proof (rule ccontr)
    assume "\<not> findManaged vw x \<noteq> None"
    with length_filter_less [OF that, of "\<lambda>tag. findManaged vw tag \<noteq> None"] full
    show False by (simp add: managed_tags_def)
  qed
  then show ?thesis by (simp add: managed_tags_def filter_id_conv)
qed

lemma attach_ops_managed: "attach_ops vw (managed_tags vw ts) = attach_ops vw ts"
  by (induction ts) (auto simp: attach_ops_def managed_tags_def)

lemma attach_ops_filter_managed:
  "attach_ops vw (filter P (managed_tags vw ts)) = [] \<longleftrightarrow> filter P (managed_tags vw ts) = []"
  by (induction ts) (auto simp: attach_ops_def managed_tags_def)

lemma missing_ops_managed:
  "rec_Email rec' = rec_Email rec \<Longrightarrow> rec_Inbounds rec' = managed_tags vw (rec_Inbounds rec) \<Longrightarrow>
   missing_ops vw parse rec' = attach_ops vw (missing_tags vw parse rec)"
  by (simp add: missing_ops_def missing_tags_def file_tags_def Let_def split: option.split)

text \<open>What convergence makes of one live record without a change of its own.\<close>

definition healed :: "view \<Rightarrow> roster_parse \<Rightarrow> roster_record \<Rightarrow> service \<Rightarrow> bool" where
  "healed vw parse rec s \<longleftrightarrow>
     abs_roster (sv_db s) (sql_lower (rec_Email rec)) =
       Some (Live (rec_ClientID rec) (managed_tags vw (rec_Inbounds rec))) \<and>
     (if missing_tags vw parse rec = [] then \<not> hasPending (rec_Email rec) s
      else \<exists>gen. map_of (sv_pending s) (rec_Email rec) =
        Some \<lparr>pc_id = rec_ClientID rec, pc_ops = attach_ops vw (missing_tags vw parse rec),
              pc_gen = gen, pc_purge = False\<rparr>)"

lemma converge_prune_effect:
  assumes u: "unique_roster (sv_db s)" and live: "live_record (sv_db s) rec" and ok: "fail (rec_Email rec) = None"
  obtains rec' d' where "converge_prune vw fail now rec s = (Some rec', s\<lparr>sv_db := d'\<rparr>)"
    "rec_Email rec' = rec_Email rec" "rec_ClientID rec' = rec_ClientID rec"
    "rec_Inbounds rec' = managed_tags vw (rec_Inbounds rec)" "unique_roster d'"
    "abs_roster d' = (abs_roster (sv_db s))(sql_lower (rec_Email rec) \<mapsto>
       Live (rec_ClientID rec) (managed_tags vw (rec_Inbounds rec)))"
    "\<forall>r \<in> set (db_roster (sv_db s)). rr_email r \<noteq> rec_Email rec \<longrightarrow> r \<in> set (db_roster d')"
    "RosterRecord d' (rec_Email rec) \<noteq> None"
proof -
  from live obtain row where row: "row \<in> set (db_roster (sv_db s))" "\<not> rr_disabled row" "\<not> rr_deleting row"
    and eq: "rec_Email rec = rr_email row" "rec_ClientID rec = rr_client_id row" "rec_Inbounds rec = rr_inbounds row"
    by (auto simp: live_record_def)
  show thesis
  proof (cases "length (managed_tags vw (rec_Inbounds rec)) < length (rec_Inbounds rec)")
    case False
    have "abs_roster (sv_db s) (sql_lower (rec_Email rec)) = Some (Live (rec_ClientID rec) (rec_Inbounds rec))"
      using abs_roster_row [OF u row(1)] row by (simp add: eq member_of_def)
    with False u RosterRecord_row [OF u row] show ?thesis
      by (intro that [of rec "sv_db s"])
         (simp_all add: converge_prune_def managed_tags_full fun_upd_idem eq(1))
  next
    case True
    let ?kept = "managed_tags vw (rec_Inbounds rec)"
    from EditRosterUser_keep_id [OF u row, of ?kept "seedLabels vw (attach_ops vw ?kept)" now]
    obtain rec' d' where ed: "EditRosterUser (sv_db s) (rr_email row)
        \<lparr>ed_ClientID = None, ed_Inbounds = Some ?kept, ed_Labels = seedLabels vw (attach_ops vw ?kept)\<rparr> now = Inr (rec', d')"
      and rec': "rec_Email rec' = rr_email row" "rec_ClientID rec' = rr_client_id row" "rec_Inbounds rec' = ?kept"
      and d': "unique_roster d'"
        "abs_roster d' = (abs_roster (sv_db s))(sql_lower (rr_email row) \<mapsto> Live (rr_client_id row) ?kept)"
        "\<forall>r \<in> set (db_roster (sv_db s)). rr_email r \<noteq> rr_email row \<longrightarrow> r \<in> set (db_roster d')"
        "\<exists>r \<in> set (db_roster d'). rr_email r = rr_email row \<and> \<not> rr_disabled r \<and> \<not> rr_deleting r"
      by auto
    have "RosterRecord d' (rr_email row) \<noteq> None"
      using d'(4) RosterRecord_row [OF d'(1)] by (metis option.distinct(1) same_email_refl)
    with True ok ed rec' d' show ?thesis
      by (intro that [of rec' d']) (simp_all add: converge_prune_def Let_def eq(1,2))
  qed
qed

lemma converge_record_effect:
  fixes vw :: view and parse :: roster_parse and now :: int
  assumes u: "unique_roster (sv_db s)" and live: "live_record (sv_db s) rec" and ok: "fail (rec_Email rec) = None"
  defines "s' \<equiv> converge_record vw parse fail now rec s"
  shows "unique_roster (sv_db s')" "\<not> hasPending (rec_Email rec) s \<Longrightarrow> healed vw parse rec s'"
    "k \<noteq> sql_lower (rec_Email rec) \<Longrightarrow> abs_roster (sv_db s') k = abs_roster (sv_db s) k"
    "e \<noteq> rec_Email rec \<Longrightarrow> map_of (sv_pending s') e = map_of (sv_pending s) e"
    "\<forall>r \<in> set (db_roster (sv_db s)). rr_email r \<noteq> rec_Email rec \<longrightarrow> r \<in> set (db_roster (sv_db s'))"
    "hasPending (rec_Email rec) s \<Longrightarrow> s' = s"
proof -
  obtain rec' d' where prune: "converge_prune vw fail now rec s = (Some rec', s\<lparr>sv_db := d'\<rparr>)"
    and rec': "rec_Email rec' = rec_Email rec" "rec_ClientID rec' = rec_ClientID rec"
      "rec_Inbounds rec' = managed_tags vw (rec_Inbounds rec)"
    and d': "unique_roster d'" "abs_roster d' = (abs_roster (sv_db s))(sql_lower (rec_Email rec) \<mapsto>
       Live (rec_ClientID rec) (managed_tags vw (rec_Inbounds rec)))"
      "\<forall>r \<in> set (db_roster (sv_db s)). rr_email r \<noteq> rec_Email rec \<longrightarrow> r \<in> set (db_roster d')"
      "RosterRecord d' (rec_Email rec) \<noteq> None"
    by (rule converge_prune_effect [where fail = fail and rec = rec and s = s]) (use u live ok in simp_all)
  have ops: "missing_ops vw parse rec' = attach_ops vw (missing_tags vw parse rec)"
    using rec' by (intro missing_ops_managed) simp_all
  have none: "attach_ops vw (missing_tags vw parse rec) = [] \<longleftrightarrow> missing_tags vw parse rec = []"
    unfolding missing_tags_def by (rule attach_ops_filter_managed)
  have s': "s' = (if hasPending (rec_Email rec) s then s
      else if missing_tags vw parse rec = [] then s\<lparr>sv_db := d'\<rparr>
      else enqueue rec' (attach_ops vw (missing_tags vw parse rec)) (s\<lparr>sv_db := d'\<rparr>))"
    using prune d'(4) rec'(1) by (auto simp: s'_def converge_record_def Let_def ops none enqueueIfLive_def)
  show "unique_roster (sv_db s')" "k \<noteq> sql_lower (rec_Email rec) \<Longrightarrow> abs_roster (sv_db s') k = abs_roster (sv_db s) k"
    "e \<noteq> rec_Email rec \<Longrightarrow> map_of (sv_pending s') e = map_of (sv_pending s) e"
    "hasPending (rec_Email rec) s \<Longrightarrow> s' = s"
    "\<not> hasPending (rec_Email rec) s \<Longrightarrow> healed vw parse rec s'"
    "\<forall>r \<in> set (db_roster (sv_db s)). rr_email r \<noteq> rec_Email rec \<longrightarrow> r \<in> set (db_roster (sv_db s'))"
    using u d' rec' by (simp_all add: s' enqueue_def enqueueGen_def healed_def hasPending_def)
qed

lemma healed_frame:
  assumes "healed vw parse rec s" and "abs_roster (sv_db s') (sql_lower (rec_Email rec)) = abs_roster (sv_db s) (sql_lower (rec_Email rec))"
    and "map_of (sv_pending s') (rec_Email rec) = map_of (sv_pending s) (rec_Email rec)"
  shows "healed vw parse rec s'"
  using assms by (cases "missing_tags vw parse rec = []") (simp_all add: healed_def hasPending_def)

definition keyed :: "roster_record list \<Rightarrow> bool" where
  "keyed recs \<longleftrightarrow> distinct (map (\<lambda>rec. sql_lower (rec_Email rec)) recs)"

lemma converge_fold:
  fixes vw :: view and parse :: roster_parse and now :: int
  assumes "unique_roster (sv_db s)" and "keyed recs" and "\<forall>rec \<in> set recs. live_record (sv_db s) rec"
    and ok: "\<forall>e. fail e = None"
  defines "s' \<equiv> fold (converge_record vw parse fail now) recs s"
  shows "unique_roster (sv_db s') \<and>
    (\<forall>k. k \<notin> (\<lambda>rec. sql_lower (rec_Email rec)) ` set recs \<longrightarrow> abs_roster (sv_db s') k = abs_roster (sv_db s) k) \<and>
    (\<forall>e. e \<notin> rec_Email ` set recs \<or> has_key (sv_pending s) e \<longrightarrow> map_of (sv_pending s') e = map_of (sv_pending s) e) \<and>
    (\<forall>rec \<in> set recs. \<not> hasPending (rec_Email rec) s \<longrightarrow> healed vw parse rec s')"
  using assms(1-3) unfolding s'_def
proof (induction recs arbitrary: s)
  case (Cons rec recs)
  let ?s = "converge_record vw parse fail now rec s"
  have live: "live_record (sv_db s) rec" using Cons.prems by simp
  note step = converge_record_effect [where fail = fail and vw = vw and parse = parse and now = now,
      OF Cons.prems(1) live ok [rule_format]]
  have other: "rec_Email r \<noteq> rec_Email rec \<and> sql_lower (rec_Email r) \<noteq> sql_lower (rec_Email rec)" if "r \<in> set recs" for r
  proof -
    have "sql_lower (rec_Email r) \<in> (\<lambda>rec. sql_lower (rec_Email rec)) ` set recs" using that by (rule imageI)
    moreover have "sql_lower (rec_Email rec) \<notin> (\<lambda>rec. sql_lower (rec_Email rec)) ` set recs"
      using Cons.prems(2) by (simp add: keyed_def)
    ultimately show ?thesis by metis
  qed
  have live': "\<forall>r \<in> set recs. live_record (sv_db ?s) r"
  proof
    fix r assume r: "r \<in> set recs"
    with Cons.prems(3) obtain row where "row \<in> set (db_roster (sv_db s))" "\<not> rr_disabled row" "\<not> rr_deleting row"
      "rr_email row = rec_Email r" "rr_client_id row = rec_ClientID r" "rr_inbounds row = rec_Inbounds r"
      by (auto simp: live_record_def)
    with step(5) other [OF r] show "live_record (sv_db ?s) r" unfolding live_record_def by metis
  qed
  have "keyed recs" using Cons.prems(2) by (simp add: keyed_def)
  note IH = Cons.IH [OF step(1) this live']
  have fresh: "rec_Email rec \<notin> rec_Email ` set recs"
      "sql_lower (rec_Email rec) \<notin> (\<lambda>r. sql_lower (rec_Email r)) ` set recs"
    using other by (metis imageE)+
  have head: "healed vw parse rec (fold (converge_record vw parse fail now) recs ?s)" if "\<not> hasPending (rec_Email rec) s"
    by (rule healed_frame [OF step(2) [OF that]]) (use IH fresh in blast)+
  have tail: "hasPending (rec_Email r) ?s = hasPending (rec_Email r) s" if "r \<in> set recs" for r
    using step(4) [of "rec_Email r"] other [OF that] by (simp add: hasPending_def)
  have queue: "map_of (sv_pending ?s) e = map_of (sv_pending s) e"
    if "e \<noteq> rec_Email rec \<or> has_key (sv_pending s) e" for e
    using step(4,6) that by (cases "e = rec_Email rec") (auto simp: hasPending_def)
  show ?case
  proof (intro conjI allI ballI impI)
    show "unique_roster (sv_db (fold (converge_record vw parse fail now) (rec # recs) s))" using IH by simp
  next
    fix k assume k: "k \<notin> (\<lambda>rec. sql_lower (rec_Email rec)) ` set (rec # recs)"
    then have "abs_roster (sv_db ?s) k = abs_roster (sv_db s) k" by (intro step(3)) auto
    with IH k show "abs_roster (sv_db (fold (converge_record vw parse fail now) (rec # recs) s)) k = abs_roster (sv_db s) k"
      by simp
  next
    fix e assume e: "e \<notin> rec_Email ` set (rec # recs) \<or> has_key (sv_pending s) e"
    then have q: "map_of (sv_pending ?s) e = map_of (sv_pending s) e" by (intro queue) auto
    with IH e show "map_of (sv_pending (fold (converge_record vw parse fail now) (rec # recs) s)) e = map_of (sv_pending s) e"
      by auto
  next
    fix r assume "r \<in> set (rec # recs)" "\<not> hasPending (rec_Email r) s"
    with head tail IH show "healed vw parse r (fold (converge_record vw parse fail now) (rec # recs) s)" by auto
  qed
qed (simp add: keyed_def)

lemma RosterRecords_live:
  assumes "unique_roster d"
  shows "keyed (RosterRecords d)" "\<forall>rec \<in> set (RosterRecords d). live_record d rec"
proof -
  have "distinct (map (\<lambda>r. sql_lower (rr_email r)) (filter (\<lambda>r. \<not> rr_disabled r \<and> \<not> rr_deleting r) (db_roster d)))"
    using assms by (auto simp: unique_roster_def distinct_map inj_on_def)
  then have "distinct (map (\<lambda>r. sql_lower (rr_email r))
      (sort_key rr_email (filter (\<lambda>r. \<not> rr_disabled r \<and> \<not> rr_deleting r) (db_roster d))))"
    by (simp add: distinct_map)
  then show "keyed (RosterRecords d)" by (simp add: keyed_def RosterRecords_def short_record_def comp_def)
  show "\<forall>rec \<in> set (RosterRecords d). live_record d rec"
    by (auto simp: RosterRecords_def live_record_def short_record_def)
qed

text \<open>
  C4. Convergence heals drift and the store wins. After a parse of the config, every live member
  without an unapplied change of their own keeps their Client ID, keeps in the store exactly the
  attachments whose inbounds the config still carries, and has queued exactly the attaches of
  those the file has lost, in record order, with nothing queued when the file has them all.
  Changes already queued are left as they are, and no change is ever queued for an email that is
  not a live member: a disabled or deleted user does not come back.
\<close>

theorem convergence_heals_drift:
  assumes "unique_roster (sv_db s)" and "0 < version" and "\<forall>e. fail e = None"
  shows "(\<forall>rec \<in> set (RosterRecords (sv_db s)). \<not> hasPending (rec_Email rec) s \<longrightarrow>
      healed vw parse rec (Service_converge vw parse version None fail now s)) \<and>
    (\<forall>e. e \<notin> rec_Email ` set (RosterRecords (sv_db s)) \<or> has_key (sv_pending s) e \<longrightarrow>
      map_of (sv_pending (Service_converge vw parse version None fail now s)) e = map_of (sv_pending s) e)"
proof -
  have "Service_converge vw parse version None fail now s =
      fold (converge_record vw parse fail now) (RosterRecords (sv_db s)) s"
    using assms(2) by (simp add: Service_converge_def)
  with converge_fold [OF assms(1) RosterRecords_live [OF assms(1)] assms(3), of vw parse now]
  show ?thesis by simp
qed

definition vless_t :: inbound where
  "vless_t = \<lparr>ib_Tag = ''t'', ib_Protocol = ''vless'', ib_Port = ''443'', ib_Flow = '''', ib_Decryption = '''',
     ib_TransportType = ''tcp'', ib_RawHeaderConfigured = False, ib_RawHeaderType = '''',
     ib_FinalMaskConfigured = False, ib_WebSocket = \<lparr>hs_Path = '''', hs_Host = ''''\<rparr>,
     ib_HTTPUpgrade = \<lparr>hs_Path = '''', hs_Host = ''''\<rparr>,
     ib_GRPC = \<lparr>gc_ServiceName = '''', gc_Authority = '''', gc_MultiMode = False\<rparr>,
     ib_XHTTP = \<lparr>xs_Path = '''', xs_Host = '''', xs_Mode = '''', xs_ExtraConfigured = False\<rparr>,
     ib_SecurityType = ''none'', ib_TLS_ServerName = '''', ib_TLS_RejectUnknownSNI = False, ib_TLS_ALPN = [],
     ib_Reality_ServerNames = [], ib_Reality_ShortIDs = [], ib_users = []\<rparr>"

lemma managed_t: "managed_tags [vless_t] [''t''] = [''t'']"
  by code_simp

lemma ann_records: "RosterRecords with_ann = [short_record (ann_row 1)]"
  by (simp add: RosterRecords_def with_ann_def ann_row_def)

theorem convergence_heals_drift_witness:
  "healed [vless_t] \<lparr>rp_Labels = [], rp_Clients = []\<rparr> (short_record (ann_row 1))
     (Service_converge [vless_t] \<lparr>rp_Labels = [], rp_Clients = []\<rparr> 1 None (\<lambda>_. None) 5 ann_service) \<and>
   missing_tags [vless_t] \<lparr>rp_Labels = [], rp_Clients = []\<rparr> (short_record (ann_row 1)) = [''t'']"
proof
  have "unique_roster (sv_db ann_service)" by (simp add: ann_service_def NewService_def with_ann_unique)
  from convergence_heals_drift [OF this, of 1 "\<lambda>_. None" "[vless_t]" "\<lparr>rp_Labels = [], rp_Clients = []\<rparr>" 5]
  show "healed [vless_t] \<lparr>rp_Labels = [], rp_Clients = []\<rparr> (short_record (ann_row 1))
      (Service_converge [vless_t] \<lparr>rp_Labels = [], rp_Clients = []\<rparr> 1 None (\<lambda>_. None) 5 ann_service)"
    by (simp add: ann_service_def NewService_def ann_records hasPending_def)
qed (simp add: missing_tags_def short_record_def ann_row_def managed_t file_tags_def)

section \<open>Disabling\<close>

lemma Service_Disable_known:
  assumes "trim_space email \<noteq> ''''" and "RosterRecord (sv_db s) (trim_space email) = Some before"
  shows "snd (Service_Disable no_fail now email s) =
    (let prev = (case map_of (sv_pending s) (trim_space email) of None \<Rightarrow> [] | Some c \<Rightarrow> pc_ops c);
         tags = append_missing (rec_Inbounds before) (tags_of {opAttach, opRotate} prev);
         s2 = s\<lparr>sv_pending := AList.delete (trim_space email) (sv_pending s),
                sv_db := DisableRosterUser (sv_db s) (trim_space email) now\<rparr>
     in if tags = [] then s2 else enqueue before (detachOps tags) s2)"
  using assms by (simp add: Service_Disable_def no_fail_def takePending_def Let_def)



section \<open>Where the write path loses a change\<close>

definition detaching_u :: pending_change where
  "detaching_u = \<lparr>pc_id = ''id-1'', pc_ops = detachOps [''u''], pc_gen = 7, pc_purge = False\<rparr>"

text \<open>
  An unfinished detach is not carried into a disable: the queued change forgets the inbound, and a
  credential the failed detach left there stays. A delete carries it.
\<close>

lemma disable_drops_unfinished_detach:
  "map (map po_tag) (map (\<lambda>c. pc_ops (snd c)) (sv_pending (snd (Service_Disable no_fail 2 ''Ann@x''
     (ann_service\<lparr>sv_pending := [(''Ann@x'', detaching_u)]\<rparr>))))) = [[''t'']]"
  "map (map po_tag) (map (\<lambda>c. pc_ops (snd c)) (sv_pending (snd (Service_Delete no_fail 2 ''Ann@x''
     (ann_service\<lparr>sv_pending := [(''Ann@x'', detaching_u)]\<rparr>))))) = [[''t'', ''u'']]"
  by code_simp+

text \<open>
  The unfinished change is looked up under the spelling of the request and not of the record: a
  disable under another case does not see it.
\<close>

definition attaching_u :: pending_change where
  "attaching_u = \<lparr>pc_id = ''id-1'', pc_ops = [\<lparr>po_kind = opAttach, po_tag = ''u'', po_flow = ''''\<rparr>],
     pc_gen = 7, pc_purge = False\<rparr>"

lemma disable_misses_other_spelling:
  "map (map po_tag) (map (\<lambda>c. pc_ops (snd c)) (sv_pending (snd (Service_Disable no_fail 2 ''Ann@x''
     (ann_service\<lparr>sv_pending := [(''Ann@x'', attaching_u)]\<rparr>))))) = [[''t'', ''u'']]"
  "map (map po_tag) (map (\<lambda>c. pc_ops (snd c)) (sv_pending (snd (Service_Disable no_fail 2 ''ann@x''
     (ann_service\<lparr>sv_pending := [(''Ann@x'', attaching_u)]\<rparr>))))) = [[''t'']]"
  by code_simp+

text \<open>A disable whose store write fails has already dropped the queued change.\<close>

lemma failed_disable_drops_change:
  "sv_pending (snd (Service_Disable (\<lambda>k. if k = 1 then Some ''locked'' else None) 2 ''Ann@x''
     (ann_service\<lparr>sv_pending := [(''Ann@x'', attaching_u)]\<rparr>))) = []"
  by code_simp

text \<open>
  An edit that keeps the attachments, after a failed apply and once the config has dropped them,
  empties the queue but leaves the failure mark: the Roster reads failed and no retry runs.
\<close>

definition no_uuid :: uuid_lib where
  "no_uuid = \<lparr>uuid_parse = (\<lambda>_. None), uuid_new = ''''\<rparr>"

lemma edit_leaves_failed_mark:
  "let s = snd (Service_Edit no_uuid [] no_fail 3 ''Ann@x'' \<lparr>eq_ClientID = '''', eq_Inbounds = None\<rparr>
       (ann_service\<lparr>sv_pending := [(''Ann@x'', attaching_t)], sv_failed := [(''Ann@x'', True)]\<rparr>))
   in sv_pending s = [] \<and> syncLocked s = SyncFailed \<and> Service_retry E s = s"
  if "attaching_t = ann_change\<lparr>pc_ops := [\<lparr>po_kind = opAttach, po_tag = ''t'', po_flow = ''''\<rparr>]\<rparr>"
proof -
  have q: "sv_pending (snd (Service_Edit no_uuid [] no_fail 3 ''Ann@x'' \<lparr>eq_ClientID = '''', eq_Inbounds = None\<rparr>
       (ann_service\<lparr>sv_pending := [(''Ann@x'', ann_change\<lparr>pc_ops := [\<lparr>po_kind = opAttach, po_tag = ''t'', po_flow = ''''\<rparr>]\<rparr>)],
          sv_failed := [(''Ann@x'', True)]\<rparr>))) = []" by code_simp
  moreover have "syncLocked (snd (Service_Edit no_uuid [] no_fail 3 ''Ann@x'' \<lparr>eq_ClientID = '''', eq_Inbounds = None\<rparr>
       (ann_service\<lparr>sv_pending := [(''Ann@x'', ann_change\<lparr>pc_ops := [\<lparr>po_kind = opAttach, po_tag = ''t'', po_flow = ''''\<rparr>]\<rparr>)],
          sv_failed := [(''Ann@x'', True)]\<rparr>))) = SyncFailed" by code_simp
  ultimately show ?thesis by (simp add: that Let_def Service_retry_def)
qed

text \<open>
  The liveness check of convergence and its enqueue are two critical sections. A disable between
  them is overwritten: the queue then attaches a member the store has off.
\<close>

lemma disable_between_check_and_enqueue:
  "let s = enqueue (record_of (ann_row 1)) [\<lparr>po_kind = opAttach, po_tag = ''t'', po_flow = ''''\<rparr>] ann_disabled
   in RosterRecord (sv_db ann_service) ''Ann@x'' \<noteq> None \<and>
      abs_roster (sv_db s) ''ann@x'' = Some (Off ''id-1'' [''t'']) \<and>
      map (map po_kind) (map (\<lambda>c. pc_ops (snd c)) (sv_pending s)) = [[opAttach]]"
  by code_simp

end
