(* ===== verification/Auth.thy ===== *)
theory Auth
  imports Prelude
begin

text \<open>
  Admission to the panel, \<^verbatim>\<open>src/internal/auth/auth.go\<close>: the session store behind its private
  interface, the two admission modes of the gateway, and the handler that wraps the application.

  SHA-256, the entropy of a token, the parsing of a cookie header and the decoding of a login body
  are arguments.  Time is nanoseconds as an integer; \<^verbatim>\<open>Validate\<close> reads the clock twice, so it
  takes two readings.  A response lists what the handler did: the status it wrote itself, the
  cookie it set, and the request it passed on.
\<close>

section \<open>Sessions\<close>

definition SessionTTL :: int where
  "SessionTTL = 24 * 3600 * 1000000000"

definition sessionCookieName :: string where
  "sessionCookieName = ''xform_session''"

record 'h sessions =
  ss_passwordHash :: 'h
  ss_sessions :: "int gomap"

definition newSessionStore :: "(string \<Rightarrow> 'h) \<Rightarrow> string \<Rightarrow> 'h sessions" where
  "newSessionStore sha256 password = \<lparr>ss_passwordHash = sha256 password, ss_sessions = []\<rparr>"

definition hex_digit :: "nat \<Rightarrow> char" where
  "hex_digit n = (if n < 10 then char_of (48 + n) else char_of (87 + n))"

text \<open>\<^verbatim>\<open>hex.EncodeToString\<close>.\<close>

definition hex_encode :: "string \<Rightarrow> string" where
  "hex_encode bytes = concat (map (\<lambda>c. [hex_digit (of_char c div 16), hex_digit (of_char c mod 16)]) bytes)"

datatype login_result = LoginError | LoginRefused | LoginToken string

definition sessions_Login ::
  "(string \<Rightarrow> 'h) \<Rightarrow> string option \<Rightarrow> int \<Rightarrow> string \<Rightarrow> 'h sessions \<Rightarrow> 'h sessions \<times> login_result" where
  "sessions_Login sha256 entropy now candidate m =
     (if sha256 candidate \<noteq> ss_passwordHash m then (m, LoginRefused)
      else case entropy of
        None \<Rightarrow> (m, LoginError)
      | Some tokenBytes \<Rightarrow>
          let token = hex_encode tokenBytes in
          (m\<lparr>ss_sessions := AList.update token (now + SessionTTL) (ss_sessions m)\<rparr>, LoginToken token))"

definition sessions_Validate :: "int \<Rightarrow> int \<Rightarrow> string \<Rightarrow> 'h sessions \<Rightarrow> 'h sessions \<times> bool" where
  "sessions_Validate now now' token m =
     (case map_of (ss_sessions m) token of
        None \<Rightarrow> (m, False)
      | Some expiry \<Rightarrow>
          if \<not> now < expiry then (m\<lparr>ss_sessions := AList.delete token (ss_sessions m)\<rparr>, False)
          else (m\<lparr>ss_sessions := AList.update token (now' + SessionTTL) (ss_sessions m)\<rparr>, True))"

definition sessions_Logout :: "string \<Rightarrow> 'h sessions \<Rightarrow> 'h sessions" where
  "sessions_Logout token m = m\<lparr>ss_sessions := AList.delete token (ss_sessions m)\<rparr>"

section \<open>Requests and responses\<close>

record request =
  rq_method :: string
  rq_path :: string
  rq_headers :: "string list gomap"
  rq_body :: string

record response =
  rs_status :: "nat option"
  rs_error :: string
  rs_mode :: "string option"
  rs_no_store :: bool
  rs_cookie :: "(string \<times> int) option"
  rs_next :: "request option"

definition silent :: response where
  "silent = \<lparr>rs_status = None, rs_error = [], rs_mode = None, rs_no_store = False, rs_cookie = None, rs_next = None\<rparr>"

text \<open>What \<^verbatim>\<open>net/http\<close> and \<^verbatim>\<open>encoding/json\<close> read from a request, the digest and the entropy.\<close>

record 'h auth_lib =
  al_sha256 :: "string \<Rightarrow> 'h"
  al_cookie :: "string list gomap \<Rightarrow> string \<Rightarrow> string option"
  al_password :: "string \<Rightarrow> string option"

section \<open>The gateway\<close>

datatype auth_mode = ModePassword | ModeTrustedProxy

fun mode_name :: "auth_mode \<Rightarrow> string" where
  "mode_name ModePassword = ''password''"
| "mode_name ModeTrustedProxy = ''trusted_proxy''"

record 'h gateway =
  gw_mode :: auth_mode
  gw_sessions :: "'h sessions option"
  gw_trustedHash :: "'h option"

definition lower_hex :: "char \<Rightarrow> bool" where
  "lower_hex c \<longleftrightarrow> c \<in> set ''0123456789abcdef''"

definition ValidateTrustedProxySecret :: "string \<Rightarrow> bool" where
  "ValidateTrustedProxySecret secret \<longleftrightarrow> length secret = 64 \<and> list_all lower_hex secret"

definition NewPassword :: "(string \<Rightarrow> 'h) \<Rightarrow> string \<Rightarrow> 'h gateway" where
  "NewPassword sha256 password =
     \<lparr>gw_mode = ModePassword, gw_sessions = Some (newSessionStore sha256 password), gw_trustedHash = None\<rparr>"

definition NewTrustedProxy :: "(string \<Rightarrow> 'h) \<Rightarrow> string \<Rightarrow> 'h gateway option" where
  "NewTrustedProxy sha256 secret =
     (if ValidateTrustedProxySecret secret
      then Some \<lparr>gw_mode = ModeTrustedProxy, gw_sessions = None, gw_trustedHash = Some (sha256 secret)\<rparr> else None)"

definition New_gateway :: "(string \<Rightarrow> 'h) \<Rightarrow> string \<Rightarrow> string \<Rightarrow> 'h gateway option" where
  "New_gateway sha256 mode credential =
     (let m = (if mode = [] then mode_name ModePassword else mode) in
      if m = mode_name ModePassword then Some (NewPassword sha256 credential)
      else if m = mode_name ModeTrustedProxy then NewTrustedProxy sha256 credential
      else None)"

text \<open>The session store of a gateway, when it has one.\<close>

definition with_sessions :: "'h gateway \<Rightarrow> ('h sessions \<Rightarrow> 'h sessions \<times> 'a) \<Rightarrow> 'a \<Rightarrow> 'h gateway \<times> 'a" where
  "with_sessions g f d =
     (case gw_sessions g of None \<Rightarrow> (g, d) | Some m \<Rightarrow> (let (m', r) = f m in (g\<lparr>gw_sessions := Some m'\<rparr>, r)))"

definition Gateway_Login ::
  "(string \<Rightarrow> 'h) \<Rightarrow> string option \<Rightarrow> int \<Rightarrow> string \<Rightarrow> 'h gateway \<Rightarrow> 'h gateway \<times> login_result" where
  "Gateway_Login sha256 entropy now password g =
     with_sessions g (sessions_Login sha256 entropy now password) LoginError"

definition Gateway_Validate :: "int \<Rightarrow> int \<Rightarrow> string \<Rightarrow> 'h gateway \<Rightarrow> 'h gateway \<times> bool" where
  "Gateway_Validate now now' token g = with_sessions g (sessions_Validate now now' token) False"

definition Gateway_Logout :: "string \<Rightarrow> 'h gateway \<Rightarrow> 'h gateway" where
  "Gateway_Logout token g = fst (with_sessions g (\<lambda>m. (sessions_Logout token m, ())) ())"

definition trustedHeaders :: "string list" where
  "trustedHeaders =
    [''X-Xform-Authenticated'', ''Authorization'', ''Proxy-Authorization'', ''Forwarded'', ''Cookie'',
     ''X-Forwarded-For'', ''X-Forwarded-Host'', ''X-Forwarded-Port'', ''X-Forwarded-Proto'',
     ''X-Forwarded-User'', ''X-Forwarded-Email'', ''X-Forwarded-Groups'', ''X-Forwarded-Preferred-Username'',
     ''X-Forwarded-Access-Token'', ''X-Forwarded-Authorization'', ''X-Forwarded-Client-Cert'', ''X-Forwarded-Server'',
     ''X-Auth-Request-User'', ''X-Auth-Request-Email'', ''X-Auth-Request-Groups'',
     ''X-Auth-Request-Preferred-Username'', ''X-Auth-Request-Token'', ''X-Auth-Request-Access-Token'', ''X-Auth-Request-Redirect'',
     ''X-Auth-Request-Id-Token'', ''X-Auth-Request-IdToken'', ''X-Access-Token'', ''X-ID-Token'', ''X-Id-Token'',
     ''Remote-User'', ''Remote-Email'', ''Remote-Groups'', ''X-Remote-User'', ''X-Remote-Email'', ''X-Remote-Groups'',
     ''X-Authenticated-User'', ''X-Authenticated-Email'', ''X-User'', ''X-Email'', ''X-Groups'', ''X-Group'',
     ''X-Real-IP'', ''X-Original-URL'', ''X-Original-URI'', ''X-Original-Method'', ''X-Forwarded-Uri'', ''X-SSL-Client-Cert'', ''X-Client-Cert'']"

definition headerValues :: "string list gomap \<Rightarrow> string \<Rightarrow> string list" where
  "headerValues headers name = concat (map snd (filter (\<lambda>(key, _). equal_fold key name) headers))"

definition stripTrustedHeaders :: "string list gomap \<Rightarrow> string list gomap" where
  "stripTrustedHeaders headers = filter (\<lambda>(key, _). \<not> list_ex (equal_fold key) trustedHeaders) headers"

definition isHealthRequest :: "request \<Rightarrow> bool" where
  "isHealthRequest r \<longleftrightarrow> (rq_method r = ''GET'' \<or> rq_method r = ''HEAD'') \<and> rq_path r = ''/api/v1/healthz''"

definition unauthorized :: "'h gateway \<Rightarrow> response" where
  "unauthorized g = silent\<lparr>rs_status := Some 401, rs_error := ''unauthenticated'',
     rs_mode := Some (mode_name (gw_mode g)), rs_no_store := True\<rparr>"

definition requireTrustedAssertion :: "'h auth_lib \<Rightarrow> 'h gateway \<Rightarrow> request \<Rightarrow> response" where
  "requireTrustedAssertion L g r =
     (case headerValues (rq_headers r) ''X-Xform-Authenticated'' of
        [value] \<Rightarrow>
          if gw_trustedHash g \<noteq> Some (al_sha256 L value) then unauthorized g
          else silent\<lparr>rs_no_store := True, rs_next := Some (r\<lparr>rq_headers := stripTrustedHeaders (rq_headers r)\<rparr>)\<rparr>
      | _ \<Rightarrow> unauthorized g)"

definition session_cookie :: "string \<Rightarrow> string \<times> int" where
  "session_cookie token = (token, SessionTTL div 1000000000)"

definition gateway_login ::
  "'h auth_lib \<Rightarrow> string option \<Rightarrow> int \<Rightarrow> 'h gateway \<Rightarrow> request \<Rightarrow> 'h gateway \<times> response" where
  "gateway_login L entropy now g r =
     (let out = silent\<lparr>rs_no_store := True\<rparr> in
      case al_password L (rq_body r) of
        None \<Rightarrow> (g, out\<lparr>rs_status := Some 400, rs_error := ''invalid request''\<rparr>)
      | Some password \<Rightarrow>
          if password = [] then (g, out\<lparr>rs_status := Some 400, rs_error := ''invalid request''\<rparr>)
          else
            let (g', res) = Gateway_Login (al_sha256 L) entropy now password g in
            case res of
              LoginError \<Rightarrow> (g', out\<lparr>rs_status := Some 500, rs_error := ''login unavailable''\<rparr>)
            | LoginRefused \<Rightarrow> (g', out\<lparr>rs_status := Some 401, rs_error := ''invalid password'',
                rs_mode := Some (mode_name (gw_mode g))\<rparr>)
            | LoginToken token \<Rightarrow> (g', out\<lparr>rs_status := Some 204, rs_cookie := Some (session_cookie token)\<rparr>))"

definition gateway_logout :: "'h auth_lib \<Rightarrow> int \<Rightarrow> int \<Rightarrow> 'h gateway \<Rightarrow> request \<Rightarrow> 'h gateway \<times> response" where
  "gateway_logout L now now' g r =
     (case al_cookie L (rq_headers r) sessionCookieName of
        None \<Rightarrow> (g, unauthorized g)
      | Some value \<Rightarrow>
          let (g', valid) = Gateway_Validate now now' value g in
          if \<not> valid then (g', unauthorized g)
          else (Gateway_Logout value g',
            silent\<lparr>rs_status := Some 204, rs_no_store := True, rs_cookie := Some ([], -1)\<rparr>))"

definition requireSession :: "'h auth_lib \<Rightarrow> int \<Rightarrow> int \<Rightarrow> 'h gateway \<Rightarrow> request \<Rightarrow> 'h gateway \<times> response" where
  "requireSession L now now' g r =
     (case al_cookie L (rq_headers r) sessionCookieName of
        None \<Rightarrow> (g, unauthorized g)
      | Some value \<Rightarrow>
          let (g', valid) = Gateway_Validate now now' value g in
          if \<not> valid then (g', unauthorized g)
          else (g', silent\<lparr>rs_no_store := True, rs_cookie := Some (session_cookie value), rs_next := Some r\<rparr>))"

definition Gateway_Handler ::
  "'h auth_lib \<Rightarrow> string option \<Rightarrow> int \<Rightarrow> int \<Rightarrow> 'h gateway \<Rightarrow> request \<Rightarrow> 'h gateway \<times> response" where
  "Gateway_Handler L entropy now now' g r =
     (if isHealthRequest r then
        (g, silent\<lparr>rs_next := Some (if gw_mode g = ModeTrustedProxy
          then r\<lparr>rq_headers := stripTrustedHeaders (rq_headers r)\<rparr> else r)\<rparr>)
      else if gw_mode g = ModeTrustedProxy then (g, requireTrustedAssertion L g r)
      else if rq_method r = ''POST'' \<and> rq_path r = ''/api/v1/login'' then gateway_login L entropy now g r
      else if rq_method r = ''POST'' \<and> rq_path r = ''/api/v1/logout'' then gateway_logout L now now' g r
      else if has_prefix (rq_path r) ''/api/'' then requireSession L now now' g r
      else (g, silent\<lparr>rs_next := Some r\<rparr>))"

section \<open>The session interface\<close>

text \<open>
  What the gateway needs of the private \<^verbatim>\<open>sessionStore\<close>: an expiry per token, set by a login, slid
  by a successful validation, dropped by a failed one and by a logout.
\<close>

datatype session_event = Issue int string | Use int int string | Revoke string

text \<open>
  Whether a token is good at a time, from the history alone (latest event first): it was issued,
  not revoked since, and no two activities lie a lifetime apart.
\<close>

fun live_token :: "session_event list \<Rightarrow> string \<Rightarrow> int \<Rightarrow> bool" where
  "live_token [] t n \<longleftrightarrow> False"
| "live_token (Issue now t' # es) t n \<longleftrightarrow> (if t' = t then n < now + SessionTTL else live_token es t n)"
| "live_token (Use a b t' # es) t n \<longleftrightarrow>
     (if t' = t then live_token es t a \<and> n < b + SessionTTL else live_token es t n)"
| "live_token (Revoke t' # es) t n \<longleftrightarrow> t' \<noteq> t \<and> live_token es t n"

locale session_store =
  fixes expiry :: "'s \<Rightarrow> string \<Rightarrow> int option"
    and issue :: "int \<Rightarrow> string \<Rightarrow> 's \<Rightarrow> 's"
    and validate :: "int \<Rightarrow> int \<Rightarrow> string \<Rightarrow> 's \<Rightarrow> 's \<times> bool"
    and logout :: "string \<Rightarrow> 's \<Rightarrow> 's"
  assumes expiry_issue: "expiry (issue now t s) = (expiry s)(t \<mapsto> now + SessionTTL)"
    and validate_result: "snd (validate now now' t s) \<longleftrightarrow> (\<exists>e. expiry s t = Some e \<and> now < e)"
    and expiry_validate: "expiry (fst (validate now now' t s)) =
      (if snd (validate now now' t s) then (expiry s)(t \<mapsto> now' + SessionTTL) else (expiry s)(t := None))"
    and expiry_logout: "expiry (logout t s) = (expiry s)(t := None)"
begin

primrec apply_event :: "session_event \<Rightarrow> 's \<Rightarrow> 's" where
  "apply_event (Issue now t) s = issue now t s"
| "apply_event (Use now now' t) s = fst (validate now now' t s)"
| "apply_event (Revoke t) s = logout t s"

lemma expiry_history:
  assumes "expiry s0 = Map.empty"
  shows "(\<exists>e. expiry (fold apply_event (rev es) s0) t = Some e \<and> n < e) \<longleftrightarrow> live_token es t n"
proof (induction es t n rule: live_token.induct)
  case (1 t n)
  then show ?case using assms by simp
qed (auto simp: expiry_issue expiry_validate validate_result expiry_logout)

lemma validate_history:
  assumes "expiry s0 = Map.empty"
  shows "snd (validate n n' t (fold apply_event (rev es) s0)) \<longleftrightarrow> live_token es t n"
  using expiry_history [OF assms] by (simp add: validate_result)

end

abbreviation expiry_of :: "'h sessions \<Rightarrow> string \<Rightarrow> int option" where
  "expiry_of m \<equiv> map_of (ss_sessions m)"

definition issue_token :: "int \<Rightarrow> string \<Rightarrow> 'h sessions \<Rightarrow> 'h sessions" where
  "issue_token now token m = m\<lparr>ss_sessions := AList.update token (now + SessionTTL) (ss_sessions m)\<rparr>"

interpretation memory: session_store expiry_of issue_token sessions_Validate sessions_Logout
  by unfold_locales
    (auto simp: issue_token_def sessions_Validate_def sessions_Logout_def fun_eq_iff split: option.splits if_splits)

lemma Login_token:
  "snd (sessions_Login sha entropy now candidate m) = LoginToken t \<longleftrightarrow>
   sha candidate = ss_passwordHash m \<and> (\<exists>bytes. entropy = Some bytes \<and> t = hex_encode bytes)"
  by (auto simp: sessions_Login_def Let_def split: option.splits)

lemma Login_state:
  "fst (sessions_Login sha entropy now candidate m) =
   (case snd (sessions_Login sha entropy now candidate m) of LoginToken t \<Rightarrow> issue_token now t m | _ \<Rightarrow> m)"
  by (simp add: sessions_Login_def issue_token_def Let_def split: option.splits)

section \<open>The gateway over a sequence of requests\<close>

text \<open>One request as the gateway sees it: the entropy and the clock readings it meets.\<close>

record visit =
  vi_request :: request
  vi_entropy :: "string option"
  vi_now :: int
  vi_now' :: int

definition visit_handler :: "'h auth_lib \<Rightarrow> 'h gateway \<Rightarrow> visit \<Rightarrow> 'h gateway \<times> response" where
  "visit_handler L g v = Gateway_Handler L (vi_entropy v) (vi_now v) (vi_now' v) g (vi_request v)"

text \<open>The session events a request causes, latest first, read off the request and the response.\<close>

definition is_login :: "request \<Rightarrow> bool" where
  "is_login r \<longleftrightarrow> rq_method r = ''POST'' \<and> rq_path r = ''/api/v1/login''"

definition is_logout :: "request \<Rightarrow> bool" where
  "is_logout r \<longleftrightarrow> rq_method r = ''POST'' \<and> rq_path r = ''/api/v1/logout''"

definition visit_events :: "'h auth_lib \<Rightarrow> 'h gateway \<Rightarrow> visit \<Rightarrow> session_event list" where
  "visit_events L g v =
     (let r = vi_request v; out = snd (visit_handler L g v); cookie = al_cookie L (rq_headers r) sessionCookieName in
      if isHealthRequest r then []
      else if is_login r then
        (case rs_cookie out of Some (token, _) \<Rightarrow> [Issue (vi_now v) token] | None \<Rightarrow> [])
      else if is_logout r then
        (case cookie of None \<Rightarrow> []
         | Some t \<Rightarrow> (if rs_status out = Some 204 then [Revoke t] else []) @ [Use (vi_now v) (vi_now' v) t])
      else if has_prefix (rq_path r) ''/api/'' then
        (case cookie of None \<Rightarrow> [] | Some t \<Rightarrow> [Use (vi_now v) (vi_now' v) t])
      else [])"

fun run_visits :: "'h auth_lib \<Rightarrow> 'h gateway \<Rightarrow> visit list \<Rightarrow> 'h gateway \<times> session_event list" where
  "run_visits L g [] = (g, [])"
| "run_visits L g (v # vs) =
     (let (g', es) = run_visits L (fst (visit_handler L g v)) vs in (g', es @ visit_events L g v))"

lemma with_sessions_Some [simp]:
  "gw_sessions g = Some m \<Longrightarrow> with_sessions g f d = (g\<lparr>gw_sessions := Some (fst (f m))\<rparr>, snd (f m))"
  by (simp add: with_sessions_def case_prod_beta)

abbreviation session_run :: "session_event list \<Rightarrow> 'h sessions \<Rightarrow> 'h sessions" where
  "session_run es m \<equiv> fold memory.apply_event (rev es) m"

lemma login_visit:
  assumes "gw_sessions g = Some m"
  shows "fst (gateway_login L entropy now g r) = g\<lparr>gw_sessions := Some (session_run
    (case rs_cookie (snd (gateway_login L entropy now g r)) of Some (token, _) \<Rightarrow> [Issue now token] | None \<Rightarrow> []) m)\<rparr>"
proof (cases "\<exists>password. al_password L (rq_body r) = Some password \<and> password \<noteq> []")
  case True
  then obtain password where p: "al_password L (rq_body r) = Some password" "password \<noteq> []" by blast
  show ?thesis
  proof (cases "snd (sessions_Login (al_sha256 L) entropy now password m)")
    case (LoginToken t)
    then have "fst (sessions_Login (al_sha256 L) entropy now password m) = issue_token now t m"
      using Login_state by (metis login_result.simps(10))
    with LoginToken p assms show ?thesis
      by (simp add: gateway_login_def Gateway_Login_def silent_def session_cookie_def)
  qed (use p assms Login_state [of "al_sha256 L" entropy now password m] in
      \<open>simp_all add: gateway_login_def Gateway_Login_def silent_def\<close>)
next
  case False
  have id: "g\<lparr>gw_sessions := Some m\<rparr> = g" using assms by simp
  from False id show ?thesis
    by (cases "al_password L (rq_body r)") (simp_all add: gateway_login_def silent_def)
qed

lemma logout_visit:
  assumes "gw_sessions g = Some m"
  shows "fst (gateway_logout L now now' g r) = g\<lparr>gw_sessions := Some (session_run
    (case al_cookie L (rq_headers r) sessionCookieName of None \<Rightarrow> []
     | Some t \<Rightarrow> (if rs_status (snd (gateway_logout L now now' g r)) = Some 204 then [Revoke t] else []) @ [Use now now' t]) m)\<rparr>"
  using assms
  by (cases "al_cookie L (rq_headers r) sessionCookieName")
    (simp_all add: gateway_logout_def Gateway_Validate_def Gateway_Logout_def silent_def unauthorized_def)

lemma session_visit:
  assumes "gw_sessions g = Some m"
  shows "fst (requireSession L now now' g r) = g\<lparr>gw_sessions := Some (session_run
    (case al_cookie L (rq_headers r) sessionCookieName of None \<Rightarrow> [] | Some t \<Rightarrow> [Use now now' t]) m)\<rparr>"
  using assms
  by (cases "al_cookie L (rq_headers r) sessionCookieName") (simp_all add: requireSession_def Gateway_Validate_def)

lemma visit_sessions:
  assumes "gw_mode g = ModePassword" and "gw_sessions g = Some m"
  shows "fst (visit_handler L g v) = g\<lparr>gw_sessions := Some (session_run (visit_events L g v) m)\<rparr>"
proof -
  have id: "g\<lparr>gw_sessions := Some m\<rparr> = g" using assms(2) by simp
  show ?thesis
    using assms(1) id login_visit [OF assms(2), of L "vi_entropy v" "vi_now v" "vi_request v"]
      logout_visit [OF assms(2), of L "vi_now v" "vi_now' v" "vi_request v"]
      session_visit [OF assms(2), of L "vi_now v" "vi_now' v" "vi_request v"]
    by (simp add: visit_handler_def visit_events_def Gateway_Handler_def is_login_def is_logout_def Let_def)
qed

lemma run_visits_sessions:
  assumes "gw_mode g = ModePassword" and "gw_sessions g = Some m"
  shows "fst (run_visits L g vs) = g\<lparr>gw_sessions := Some (session_run (snd (run_visits L g vs)) m)\<rparr>"
  using assms
proof (induction vs arbitrary: g m)
  case Nil
  then show ?case by simp
next
  case (Cons v vs)
  let ?g = "fst (visit_handler L g v)" and ?m = "session_run (visit_events L g v) m"
  have g: "?g = g\<lparr>gw_sessions := Some ?m\<rparr>" by (rule visit_sessions [OF Cons.prems])
  then have "gw_mode ?g = ModePassword" "gw_sessions ?g = Some ?m" using Cons.prems(1) by simp_all
  from Cons.IH [OF this, of ] show ?case using g by (simp add: case_prod_beta)
qed


lemma NewPassword_sessions: "gw_mode (NewPassword sha p) = ModePassword"
    "gw_sessions (NewPassword sha p) = Some (newSessionStore sha p)"
    "expiry_of (newSessionStore sha p) = Map.empty"
  by (simp_all add: NewPassword_def newSessionStore_def)

section \<open>Properties\<close>

text \<open>
  C27. Under the password mode, after any sequence of requests from a fresh panel, a request for the
  API reaches the application, unchanged, exactly when its cookie names a token the history makes
  good: issued by a login, not logged out since, and never idle for a lifetime; its cookie is
  renewed then.  Any other is answered 401, not stored, and passed on to nobody.
\<close>

theorem api_admits_exactly_live_sessions:
  fixes L :: "'h auth_lib" and vs :: "visit list"
  assumes "\<not> isHealthRequest r" and "\<not> is_login r" and "\<not> is_logout r" and "has_prefix (rq_path r) ''/api/''"
  shows "let (g, history) = run_visits L (NewPassword (al_sha256 L) password) vs;
      out = snd (Gateway_Handler L entropy now now' g r);
      cookie = al_cookie L (rq_headers r) sessionCookieName in
    (case cookie of
       Some token \<Rightarrow> if live_token history token now
         then out = silent\<lparr>rs_no_store := True, rs_cookie := Some (session_cookie token), rs_next := Some r\<rparr>
         else out = unauthorized g
     | None \<Rightarrow> out = unauthorized g) \<and>
    (rs_next out \<noteq> None \<longleftrightarrow> (\<exists>token. cookie = Some token \<and> live_token history token now))"
proof -
  let ?g0 = "NewPassword (al_sha256 L) password"
  obtain g history where run: "run_visits L ?g0 vs = (g, history)" by (cases "run_visits L ?g0 vs")
  then have g: "g = ?g0\<lparr>gw_sessions := Some (session_run history (newSessionStore (al_sha256 L) password))\<rparr>"
    using run_visits_sessions [OF NewPassword_sessions(1,2), of L "al_sha256 L" password vs] by simp
  have h: "Gateway_Handler L entropy now now' g r = requireSession L now now' g r"
    using assms g by (auto simp: Gateway_Handler_def is_login_def is_logout_def NewPassword_sessions(1))
  have v: "snd (Gateway_Validate now now' t g) \<longleftrightarrow> live_token history t now" for t
    using memory.validate_history [OF NewPassword_sessions(3), of now now' t history "al_sha256 L" password] g
    by (simp add: Gateway_Validate_def)
  show ?thesis using run h v
    by (auto simp: requireSession_def Let_def case_prod_beta silent_def unauthorized_def split: option.splits)
qed

text \<open>
  A login is answered with a token exactly when the body decodes to a non-empty password whose
  digest is the panel's and entropy is at hand; every refusal leaves all sessions as they were, and
  a token issued is good at once and ends no other session.
\<close>

lemma login_needs_the_password:
  fixes L :: "'h auth_lib"
  assumes "gw_sessions g = Some m" and "gw_mode g = ModePassword" and "is_login r"
  shows "let (g', out) = Gateway_Handler L entropy now now' g r in
    (case rs_cookie out of
       None \<Rightarrow> g' = g \<and> rs_status out \<in> {Some 400, Some 401, Some 500}
     | Some (token, age) \<Rightarrow> rs_status out = Some 204 \<and> age = 86400 \<and> length token = 2 * length (the entropy) \<and>
         gw_sessions g' = Some (issue_token now token m) \<and> snd (Gateway_Validate now now' token g')) \<and>
    (rs_cookie out \<noteq> None \<longleftrightarrow> (\<exists>password. al_password L (rq_body r) = Some password \<and> password \<noteq> [] \<and>
      al_sha256 L password = ss_passwordHash m \<and> entropy \<noteq> None)) \<and> rs_next out = None"
proof -
  have len: "length (hex_encode bytes) = 2 * length bytes" for bytes
    by (induction bytes) (simp_all add: hex_encode_def)
  have id: "g\<lparr>gw_sessions := Some m\<rparr> = g" using assms(1) by simp
  have h: "Gateway_Handler L entropy now now' g r = gateway_login L entropy now g r"
    using assms(2,3) by (simp add: Gateway_Handler_def is_login_def isHealthRequest_def)
  show ?thesis
  proof (cases "\<exists>password. al_password L (rq_body r) = Some password \<and> password \<noteq> []")
    case True
    then obtain password where p: "al_password L (rq_body r) = Some password" "password \<noteq> []" by blast
    show ?thesis
    proof (cases "al_sha256 L password = ss_passwordHash m \<and> entropy \<noteq> None")
      case True
      then obtain bytes where b: "entropy = Some bytes" by blast
      with True p assms(1) h len [of bytes] show ?thesis
        by (simp add: gateway_login_def Gateway_Login_def sessions_Login_def issue_token_def silent_def
            session_cookie_def SessionTTL_def Gateway_Validate_def sessions_Validate_def Let_def)
    next
      case False
      with p assms(1) h id show ?thesis
        by (cases entropy) (auto simp: gateway_login_def Gateway_Login_def sessions_Login_def silent_def)
    qed
  next
    case False
    with h show ?thesis
      by (cases "al_password L (rq_body r)") (simp_all add: gateway_login_def silent_def)
  qed
qed

text \<open>
  C28. Behind a trusted proxy a request reaches the application exactly when it is the health check
  or carries one assertion, under any spelling of the header, whose digest is the secret's; and
  whatever reaches the application carries no header of the trusted list, under any spelling.
\<close>

theorem proxy_admits_exactly_the_assertion:
  fixes L :: "'h auth_lib"
  assumes "NewTrustedProxy (al_sha256 L) secret = Some g"
  shows "let (g', out) = Gateway_Handler L entropy now now' g r in
    g' = g \<and> rs_cookie out = None \<and>
    (rs_next out \<noteq> None \<longleftrightarrow> isHealthRequest r \<or>
      (\<exists>value. headerValues (rq_headers r) ''X-Xform-Authenticated'' = [value] \<and> al_sha256 L value = al_sha256 L secret)) \<and>
    (rs_next out = None \<longrightarrow> rs_status out = Some 401) \<and>
    (\<forall>r'. rs_next out = Some r' \<longrightarrow> rq_path r' = rq_path r \<and> rq_body r' = rq_body r \<and>
      (\<forall>(key, vals) \<in> set (rq_headers r'). (key, vals) \<in> set (rq_headers r) \<and>
        (\<forall>name \<in> set trustedHeaders. \<not> equal_fold key name)))"
proof -
  have g: "gw_mode g = ModeTrustedProxy" "gw_trustedHash g = Some (al_sha256 L secret)"
    using assms by (auto simp: NewTrustedProxy_def split: if_splits)
  have strip: "(\<forall>(key, vals) \<in> set (stripTrustedHeaders hs). (key, vals) \<in> set hs \<and>
      (\<forall>name \<in> set trustedHeaders. \<not> equal_fold key name))" for hs
    by (auto simp: stripTrustedHeaders_def list_ex_iff simp del: set_simps)
  show ?thesis
  proof (cases "isHealthRequest r")
    case True
    then show ?thesis using g strip [of "rq_headers r"] by (simp add: Gateway_Handler_def silent_def)
  next
    case False
    then have h: "Gateway_Handler L entropy now now' g r = (g, requireTrustedAssertion L g r)"
      using g(1) by (simp add: Gateway_Handler_def)
    show ?thesis
    proof (cases "\<exists>value. headerValues (rq_headers r) ''X-Xform-Authenticated'' = [value] \<and> al_sha256 L value = al_sha256 L secret")
      case True
      then obtain v where "headerValues (rq_headers r) ''X-Xform-Authenticated'' = [v]" "al_sha256 L v = al_sha256 L secret"
        by blast
      then show ?thesis using h g(2) strip [of "rq_headers r"]
        by (simp add: requireTrustedAssertion_def silent_def)
    next
      case no: False
      then have "requireTrustedAssertion L g r = unauthorized g"
        using g(2) by (auto simp: requireTrustedAssertion_def split: list.split)
      then show ?thesis using h no False by (simp add: unauthorized_def silent_def)
    qed
  qed
qed


section \<open>Examples\<close>

definition plain_lib :: "string auth_lib" where
  "plain_lib = \<lparr>al_sha256 = (\<lambda>s. s),
     al_cookie = (\<lambda>hs name. case map_of hs ''Cookie'' of Some [v] \<Rightarrow> Some v | _ \<Rightarrow> None),
     al_password = Some\<rparr>"

definition login_request :: request where
  "login_request = \<lparr>rq_method = ''POST'', rq_path = ''/api/v1/login'', rq_headers = [], rq_body = ''pw''\<rparr>"

definition stats_request :: "string \<Rightarrow> request" where
  "stats_request token = \<lparr>rq_method = ''GET'', rq_path = ''/api/v1/stats'', rq_headers = [(''Cookie'', [token])], rq_body = []\<rparr>"

definition login_visit_at :: "int \<Rightarrow> visit" where
  "login_visit_at t = \<lparr>vi_request = login_request, vi_entropy = Some ''k'', vi_now = t, vi_now' = t\<rparr>"

lemma stats_request_api:
  "\<not> isHealthRequest (stats_request t)" "\<not> is_login (stats_request t)" "\<not> is_logout (stats_request t)"
  "has_prefix (rq_path (stats_request t)) ''/api/''"
  by (simp_all add: stats_request_def isHealthRequest_def is_login_def is_logout_def has_prefix_def)

lemma hex_digits: "hex_digit 6 = CHR ''6''" "hex_digit 11 = CHR ''b''"
  by code_simp+

lemma login_history:
  "run_visits plain_lib (NewPassword (al_sha256 plain_lib) ''pw'') [login_visit_at 0] =
   ((NewPassword (al_sha256 plain_lib) ''pw'')\<lparr>gw_sessions := Some (issue_token 0 ''6b'' (newSessionStore (\<lambda>s. s) ''pw''))\<rparr>, [Issue 0 ''6b''])"
  by (simp add: login_visit_at_def visit_handler_def visit_events_def Gateway_Handler_def isHealthRequest_def is_login_def
      login_request_def gateway_login_def plain_lib_def Gateway_Login_def NewPassword_def newSessionStore_def sessions_Login_def
      issue_token_def hex_encode_def hex_digits silent_def session_cookie_def Let_def)

theorem api_admits_exactly_live_sessions_witness:
  "rs_next (snd (Gateway_Handler plain_lib None 5 5
      (fst (run_visits plain_lib (NewPassword (al_sha256 plain_lib) ''pw'') [login_visit_at 0])) (stats_request ''6b''))) \<noteq> None \<and>
   rs_next (snd (Gateway_Handler plain_lib None 5 5
      (fst (run_visits plain_lib (NewPassword (al_sha256 plain_lib) ''pw'') [login_visit_at 0])) (stats_request ''zz''))) = None"
proof -
  have c: "al_cookie plain_lib (rq_headers (stats_request t)) n = Some t" for t n
    by (simp add: plain_lib_def stats_request_def)
  show ?thesis
    using api_admits_exactly_live_sessions [OF stats_request_api, of plain_lib "''pw''" "[login_visit_at 0]" None 5 5 "''6b''"]
      api_admits_exactly_live_sessions [OF stats_request_api, of plain_lib "''pw''" "[login_visit_at 0]" None 5 5 "''zz''"]
    by (simp add: login_history c SessionTTL_def Let_def unauthorized_def silent_def del: run_visits.simps)
qed

lemma login_needs_the_password_witness:
  "rs_cookie (snd (Gateway_Handler plain_lib (Some ''k'') 0 0 (NewPassword (al_sha256 plain_lib) ''pw'') login_request)) \<noteq> None \<and>
   rs_cookie (snd (Gateway_Handler plain_lib (Some ''k'') 0 0 (NewPassword (al_sha256 plain_lib) ''other'') login_request)) = None"
proof -
  have l: "is_login login_request" by (simp add: is_login_def login_request_def)
  have s: "(\<exists>p. al_password plain_lib (rq_body login_request) = Some p \<and> p \<noteq> [] \<and>
      al_sha256 plain_lib p = ss_passwordHash (newSessionStore (al_sha256 plain_lib) q)) \<longleftrightarrow> q = ''pw''" for q
    by (auto simp: plain_lib_def login_request_def newSessionStore_def)
  show ?thesis
    using login_needs_the_password [OF NewPassword_sessions(2,1) l, of plain_lib "Some ''k''" 0 0 "al_sha256 plain_lib" "''pw''"]
      login_needs_the_password [OF NewPassword_sessions(2,1) l, of plain_lib "Some ''k''" 0 0 "al_sha256 plain_lib" "''other''"]
    by (simp add: case_prod_beta s del: not_None_eq)
qed

theorem proxy_admits_exactly_the_assertion_witness:
  "\<exists>g. NewTrustedProxy (al_sha256 plain_lib) (replicate 64 (CHR ''a'')) = Some g \<and>
     rs_next (snd (Gateway_Handler plain_lib None 0 0 g (stats_request ''t''))) = None"
proof -
  obtain g where g: "NewTrustedProxy (al_sha256 plain_lib) (replicate 64 (CHR ''a'')) = Some g"
    by (simp add: NewTrustedProxy_def ValidateTrustedProxySecret_def list_all_iff lower_hex_def)
  have "headerValues (rq_headers (stats_request ''t'')) ''X-Xform-Authenticated'' = []"
    by (simp add: headerValues_def stats_request_def equal_fold_def)
  with proxy_admits_exactly_the_assertion [OF g, of None 0 0 "stats_request ''t''"] stats_request_api(1)
  show ?thesis using g by (simp add: case_prod_beta)
qed

end
