(* ===== verification/Status.thy ===== *)
theory Status
  imports Store Reconcile
begin

text \<open>
  The xray service status, \<^verbatim>\<open>src/internal/xraystatus/xraystatus.go\<close>: the collector that reads the
  systemd unit, the binary's version and xray's stats, keeps two reconciling trackers and the
  durable totals behind them.

  The answers of the unit, the binary, the stats API and the store's failures are the inputs of a
  poll, and so are its readings of the clock; the store itself is the tables of the users store,
  behind the interface \<^verbatim>\<open>TotalsStore\<close>.  The conversion of a duration to seconds and the speed
  quotient, both through floating point, are function arguments.
\<close>

section \<open>Status and collector\<close>

datatype service_state = StatusRunning | StatusStopped | StatusUnreachable

record xray_status =
  xs_CollectedAt :: int
  xs_Status :: service_state
  xs_Version :: "string option"
  xs_UptimeSeconds :: u64
  xs_MemBytes :: "u64 option"
  xs_Goroutines :: "nat option"
  xs_SpeedUpBps :: u64
  xs_SpeedDownBps :: u64
  xs_TotalUpBytes :: u64
  xs_TotalDownBytes :: u64
  xs_UsersOnline :: "int option"
  xs_UniqueIPsOnline :: "int option"

record unit_info =
  ui_ActiveState :: string
  ui_SubState :: string
  ui_ActiveSince :: "int option"
  ui_ExecPath :: string

record runtime_stats =
  rt_UpBytes :: u64
  rt_DownBytes :: u64
  rt_MemBytes :: u64
  rt_Goroutines :: nat
  rt_OnlineUsers :: "int option"
  rt_OnlineIPs :: "int option"

record status_collector =
  sc_queryErr :: string
  sc_binaryErr :: string
  sc_statsErr :: string
  sc_totalsErr :: string
  sc_up :: tracker
  sc_down :: tracker
  sc_lastPoll :: int
  sc_hasStore :: bool
  sc_totalsLoaded :: bool
  sc_durableUp :: u64
  sc_durableDown :: u64

definition New_status_collector :: status_collector where
  "New_status_collector = \<lparr>sc_queryErr = [], sc_binaryErr = [], sc_statsErr = [], sc_totalsErr = [],
     sc_up = NewTracker True, sc_down = NewTracker True, sc_lastPoll = 0, sc_hasStore = False,
     sc_totalsLoaded = False, sc_durableUp = 0, sc_durableDown = 0\<rparr>"

definition WithTotalsStore :: "status_collector \<Rightarrow> status_collector" where
  "WithTotalsStore c = c\<lparr>sc_hasStore := True, sc_up := NewTracker False, sc_down := NewTracker False\<rparr>"

text \<open>One poll: what each source answers (a failure as its message) and the clock.\<close>

record status_poll =
  sp_unit :: "string + unit_info"
  sp_version :: "string \<Rightarrow> string + string"
  sp_stats :: "string + runtime_stats"
  sp_load_err :: "string option"
  sp_save_err :: "string option"
  sp_now :: int
  sp_now_uptime :: int
  sp_now_poll :: int

record status_lib =
  sl_unix :: "int \<Rightarrow> int"
  sl_seconds :: "int \<Rightarrow> u64"
  sl_rate :: "u64 \<Rightarrow> int \<Rightarrow> u64"

section \<open>The totals interface\<close>

text \<open>
  \<^verbatim>\<open>TotalsStore\<close>: what was saved is loaded, and nothing else changes it.  The users store keeps the
  row.
\<close>

locale totals_store =
  fixes load :: "'d \<Rightarrow> u64 \<times> u64 \<times> bool"
    and save :: "'d \<Rightarrow> u64 \<Rightarrow> u64 \<Rightarrow> 'd"
  assumes load_save: "load (save d up down) = (up, down, True)"
begin

lemma save_save: "load (save (save d a b) up down) = (up, down, True)"
  by (rule load_save)

end

definition load_totals_row :: "db \<Rightarrow> u64 \<times> u64 \<times> bool" where
  "load_totals_row d = (case LoadTrafficTotals d of (up, down, found) \<Rightarrow> (of_nat up, of_nat down, found))"

definition save_totals_row :: "db \<Rightarrow> u64 \<Rightarrow> u64 \<Rightarrow> db" where
  "save_totals_row d up down = SaveTrafficTotals d (unat up) (unat down)"

interpretation totals_row: totals_store load_totals_row save_totals_row
  by unfold_locales (simp add: load_totals_row_def save_totals_row_def LoadTrafficTotals_def SaveTrafficTotals_def)

section \<open>Collect\<close>

definition loadTotals :: "status_poll \<Rightarrow> runtime_stats \<Rightarrow> db \<Rightarrow> status_collector \<Rightarrow> status_collector" where
  "loadTotals P rt d c =
     (case sp_load_err P of
        Some err \<Rightarrow> c\<lparr>sc_totalsErr := err\<rparr>
      | None \<Rightarrow>
          (case load_totals_row d of (up, down, found) \<Rightarrow>
             c\<lparr>sc_durableUp := (if found then up else rt_UpBytes rt),
               sc_durableDown := (if found then down else rt_DownBytes rt),
               sc_totalsLoaded := True\<rparr>))"

definition zero_status :: xray_status where
  "zero_status = \<lparr>xs_CollectedAt = 0, xs_Status = StatusUnreachable, xs_Version = None, xs_UptimeSeconds = 0,
     xs_MemBytes = None, xs_Goroutines = None, xs_SpeedUpBps = 0, xs_SpeedDownBps = 0, xs_TotalUpBytes = 0,
     xs_TotalDownBytes = 0, xs_UsersOnline = None, xs_UniqueIPsOnline = None\<rparr>"

text \<open>The part of \<^verbatim>\<open>Collect\<close> behind a successful stats query.\<close>

definition collect_runtime ::
  "status_lib \<Rightarrow> status_poll \<Rightarrow> runtime_stats \<Rightarrow> db \<Rightarrow> status_collector \<Rightarrow> xray_status \<Rightarrow> status_collector \<times> db \<times> xray_status" where
  "collect_runtime L P rt d c status =
     (let elapsed = sp_now_poll P - sc_lastPoll c;
          c1 = c\<lparr>sc_up := Tracker_Add (sc_up c) (rt_UpBytes rt) elapsed,
                 sc_down := Tracker_Add (sc_down c) (rt_DownBytes rt) elapsed,
                 sc_lastPoll := sp_now_poll P\<rparr>;
          upDelta = Tracker_LastDelta (sc_up c1); downDelta = Tracker_LastDelta (sc_down c1);
          c2 = (if sc_hasStore c1 \<and> \<not> sc_totalsLoaded c1 then loadTotals P rt d c1 else c1);
          c3 = (if sc_totalsLoaded c2
                then c2\<lparr>sc_durableUp := sc_durableUp c2 + upDelta, sc_durableDown := sc_durableDown c2 + downDelta\<rparr> else c2);
          status' = status\<lparr>xs_MemBytes := Some (rt_MemBytes rt), xs_Goroutines := Some (rt_Goroutines rt),
            xs_UsersOnline := rt_OnlineUsers rt, xs_UniqueIPsOnline := rt_OnlineIPs rt,
            xs_SpeedUpBps := Tracker_Speed (sl_rate L) (sc_up c1), xs_SpeedDownBps := Tracker_Speed (sl_rate L) (sc_down c1),
            xs_TotalUpBytes := (if sc_totalsLoaded c2 then sc_durableUp c3 else Tracker_Total (sc_up c1)),
            xs_TotalDownBytes := (if sc_totalsLoaded c2 then sc_durableDown c3 else Tracker_Total (sc_down c1))\<rparr>
      in if \<not> sc_totalsLoaded c3 then (c3, d, status')
         else case sp_save_err P of
           Some err \<Rightarrow> (c3\<lparr>sc_totalsErr := err\<rparr>, d, status')
         | None \<Rightarrow> (c3\<lparr>sc_totalsErr := []\<rparr>,
             save_totals_row d (xs_TotalUpBytes status') (xs_TotalDownBytes status'), status'))"

definition Status_Collect ::
  "status_lib \<Rightarrow> status_poll \<Rightarrow> db \<Rightarrow> status_collector \<Rightarrow> status_collector \<times> db \<times> xray_status" where
  "Status_Collect L P d c =
     (let status = zero_status\<lparr>xs_CollectedAt := sl_unix L (sp_now P)\<rparr> in
      case sp_unit P of
        Inl err \<Rightarrow> (c\<lparr>sc_queryErr := err\<rparr>, d, status\<lparr>xs_Status := StatusUnreachable\<rparr>)
      | Inr info \<Rightarrow>
          let c0 = c\<lparr>sc_queryErr := []\<rparr> in
          if ui_ActiveState info \<noteq> ''active'' then (c0, d, status\<lparr>xs_Status := StatusStopped\<rparr>)
          else
            let s1 = status\<lparr>xs_Status := StatusRunning,
                  xs_UptimeSeconds := (case ui_ActiveSince info of None \<Rightarrow> 0 | Some t \<Rightarrow> sl_seconds L (sp_now_uptime P - t))\<rparr>;
                (c1, s2) = (case sp_version P (ui_ExecPath info) of
                    Inr version \<Rightarrow> (c0\<lparr>sc_binaryErr := []\<rparr>, s1\<lparr>xs_Version := Some version\<rparr>)
                  | Inl err \<Rightarrow> (c0\<lparr>sc_binaryErr := err\<rparr>, s1))
            in case sp_stats P of
              Inl err \<Rightarrow>
                (c1\<lparr>sc_statsErr := err\<rparr>, d,
                 s2\<lparr>xs_Status := StatusUnreachable,
                   xs_TotalUpBytes := (if sc_totalsLoaded c1 then sc_durableUp c1 else Tracker_Total (sc_up c1)),
                   xs_TotalDownBytes := (if sc_totalsLoaded c1 then sc_durableDown c1 else Tracker_Total (sc_down c1))\<rparr>)
            | Inr rt \<Rightarrow> collect_runtime L P rt d (c1\<lparr>sc_statsErr := []\<rparr>) s2)"

section \<open>Polls in sequence\<close>

definition reading :: "status_poll \<Rightarrow> runtime_stats option" where
  "reading P = (case (sp_unit P, sp_stats P) of
     (Inr info, Inr rt) \<Rightarrow> if ui_ActiveState info = ''active'' then Some rt else None | _ \<Rightarrow> None)"

fun status_run :: "status_lib \<Rightarrow> status_poll list \<Rightarrow> status_collector \<times> db \<times> xray_status \<Rightarrow> status_collector \<times> db \<times> xray_status" where
  "status_run L [] s = s"
| "status_run L (P # Ps) (c, d, _) = status_run L Ps (Status_Collect L P d c)"

text \<open>The state a poll leaves, apart from the failure messages already logged.\<close>

definition same_totals :: "status_collector \<Rightarrow> status_collector \<Rightarrow> bool" where
  "same_totals a b \<longleftrightarrow> sc_up a = sc_up b \<and> sc_down a = sc_down b \<and> sc_hasStore a = sc_hasStore b \<and>
     sc_totalsLoaded a = sc_totalsLoaded b \<and> sc_durableUp a = sc_durableUp b \<and> sc_durableDown a = sc_durableDown b"

lemma Collect_idle:
  assumes "reading P = None"
  shows "same_totals (fst (Status_Collect L P d c)) c \<and> fst (snd (Status_Collect L P d c)) = d"
  using assms by (auto simp: reading_def Status_Collect_def same_totals_def Let_def split: sum.splits)

lemma Collect_reading:
  assumes "reading P = Some rt"
  obtains c' s' where "Status_Collect L P d c = collect_runtime L P rt d c' s'" "same_totals c' c"
    "xs_Status s' = StatusRunning"
proof -
  obtain info where i: "sp_unit P = Inr info" "ui_ActiveState info = ''active''" "sp_stats P = Inr rt"
    using assms by (auto simp: reading_def split: sum.splits if_splits)
  let ?s = "zero_status\<lparr>xs_CollectedAt := sl_unix L (sp_now P), xs_Status := StatusRunning,
    xs_UptimeSeconds := (case ui_ActiveSince info of None \<Rightarrow> 0 | Some t \<Rightarrow> sl_seconds L (sp_now_uptime P - t))\<rparr>"
  show thesis
  proof (cases "sp_version P (ui_ExecPath info)")
    case (Inl err)
    show thesis
      by (rule that [of "c\<lparr>sc_queryErr := [], sc_binaryErr := err, sc_statsErr := []\<rparr>" ?s])
        (simp_all add: Status_Collect_def i Inl same_totals_def)
  next
    case (Inr version)
    show thesis
      by (rule that [of "c\<lparr>sc_queryErr := [], sc_binaryErr := [], sc_statsErr := []\<rparr>" "?s\<lparr>xs_Version := Some version\<rparr>"])
        (simp_all add: Status_Collect_def i Inr same_totals_def)
  qed
qed

text \<open>A poll with a reading, once the totals are loaded.\<close>

lemma collect_loaded:
  assumes "sc_totalsLoaded c" and "tr_seen (sc_up c)" and "tr_seen (sc_down c)"
    and r: "collect_runtime L P rt d c s = (c', d', s')"
  shows "sc_totalsLoaded c' \<and> tr_seen (sc_up c') \<and> tr_seen (sc_down c') \<and>
    (\<exists>el. sc_up c' = Tracker_Add (sc_up c) (rt_UpBytes rt) el \<and> sc_down c' = Tracker_Add (sc_down c) (rt_DownBytes rt) el) \<and>
    sc_durableUp c' = sc_durableUp c + (tr_total (sc_up c') - tr_total (sc_up c)) \<and>
    sc_durableDown c' = sc_durableDown c + (tr_total (sc_down c') - tr_total (sc_down c)) \<and>
    xs_TotalUpBytes s' = sc_durableUp c' \<and> xs_TotalDownBytes s' = sc_durableDown c' \<and> xs_Status s' = xs_Status s \<and>
    (sp_save_err P = None \<longrightarrow> load_totals_row d' = (sc_durableUp c', sc_durableDown c', True))"
proof -
  have a: "tr_total (Tracker_Add t raw el) - tr_total t = Tracker_LastDelta (Tracker_Add t raw el)"
    "tr_seen (Tracker_Add t raw el)" if "tr_seen t" for t raw el
    using that by (simp_all add: Tracker_Add_def Tracker_LastDelta_def Let_def)
  show ?thesis
  proof (cases "sp_save_err P")
    case None
    with r assms(1-3) a show ?thesis by (auto simp: collect_runtime_def Let_def totals_row.load_save)
  next
    case (Some err)
    with r assms(1-3) a show ?thesis by (auto simp: collect_runtime_def Let_def)
  qed
qed

text \<open>The first poll with a reading of a fresh collector whose load succeeds.\<close>

lemma collect_first:
  assumes "sc_hasStore c" and "\<not> sc_totalsLoaded c" and "sc_up c = NewTracker False" and "sc_down c = NewTracker False"
    and "sp_load_err P = None" and l: "load_totals_row d = (up, down, found)"
    and r: "collect_runtime L P rt d c s = (c', d', s')"
  shows "sc_totalsLoaded c' \<and> tr_seen (sc_up c') \<and> tr_seen (sc_down c') \<and>
    tr_total (sc_up c') = 0 \<and> tr_total (sc_down c') = 0 \<and>
    lastRaw (sc_up c') = rt_UpBytes rt \<and> lastRaw (sc_down c') = rt_DownBytes rt \<and>
    sc_durableUp c' = (if found then up else rt_UpBytes rt) \<and>
    sc_durableDown c' = (if found then down else rt_DownBytes rt) \<and>
    xs_TotalUpBytes s' = sc_durableUp c' \<and> xs_TotalDownBytes s' = sc_durableDown c' \<and>
    (sp_save_err P = None \<longrightarrow> load_totals_row d' = (sc_durableUp c', sc_durableDown c', True))"
proof (cases "sp_save_err P")
  case None
  with r assms(1-6) show ?thesis
    by (auto simp: collect_runtime_def loadTotals_def Let_def totals_row.load_save Tracker_Add_def NewTracker_def Tracker_LastDelta_def)
next
  case (Some err)
  with r assms(1-6) show ?thesis
    by (auto simp: collect_runtime_def loadTotals_def Let_def Tracker_Add_def NewTracker_def Tracker_LastDelta_def)
qed

definition ups :: "status_poll list \<Rightarrow> u64 list" where
  "ups Ps = map rt_UpBytes (List.map_filter reading Ps)"

definition downs :: "status_poll list \<Rightarrow> u64 list" where
  "downs Ps = map rt_DownBytes (List.map_filter reading Ps)"

lemma shift: "(a' :: u64) = a1 + e - r \<Longrightarrow> a1 = a + x \<Longrightarrow> a' = a + (x + e - r)"
  by (simp add: algebra_simps)

lemma run_loaded:
  assumes "sc_totalsLoaded c" and "tr_seen (sc_up c)" and "tr_seen (sc_down c)"
    and "status_run L Ps (c, d, s) = (c', d', s')"
  shows "sc_totalsLoaded c' \<and> tr_seen (sc_up c') \<and> tr_seen (sc_down c') \<and>
    sc_durableUp c' = sc_durableUp c + epochs_sum (lastRaw (sc_up c) # ups Ps) - lastRaw (sc_up c) \<and>
    sc_durableDown c' = sc_durableDown c + epochs_sum (lastRaw (sc_down c) # downs Ps) - lastRaw (sc_down c)"
  using assms
proof (induction Ps arbitrary: c d s)
  case Nil
  then show ?case by (simp add: ups_def downs_def List.map_filter_simps epochs_sum_def)
next
  case (Cons P Ps)
  obtain c1 d1 s1 where P: "Status_Collect L P d c = (c1, d1, s1)" by (cases "Status_Collect L P d c")
  then have run: "status_run L Ps (c1, d1, s1) = (c', d', s')" using Cons.prems(4) by simp
  show ?case
  proof (cases "reading P")
    case None
    then have "same_totals c1 c" using Collect_idle [OF None, of L d c] P by simp
    then show ?thesis using Cons.IH [OF _ _ _ run] Cons.prems(1-3) None
      by (simp add: same_totals_def ups_def downs_def List.map_filter_simps)
  next
    case (Some rt)
    obtain c0 s0 where "Status_Collect L P d c = collect_runtime L P rt d c0 s0" and st: "same_totals c0 c"
      by (rule Collect_reading [OF Some])
    then have cr: "collect_runtime L P rt d c0 s0 = (c1, d1, s1)" using P by simp
    have c0: "sc_totalsLoaded c0" "tr_seen (sc_up c0)" "tr_seen (sc_down c0)"
      using st Cons.prems(1-3) by (simp_all add: same_totals_def)
    note cl = collect_loaded [OF c0 cr]
    then obtain el where t: "sc_up c1 = Tracker_Add (sc_up c) (rt_UpBytes rt) el" "sc_down c1 = Tracker_Add (sc_down c) (rt_DownBytes rt) el"
      using st by (auto simp: same_totals_def)
    have add1: "tr_total (Tracker_Add t raw el) - tr_total t + epochs_sum (raw # xs) - raw = epochs_sum (lastRaw t # raw # xs) - lastRaw t"
      if "tr_seen t" for t raw xs
      using that by (auto simp: Tracker_Add_def Let_def epochs_sum_step not_le)
    have add2: "lastRaw (Tracker_Add t raw el) = raw" for t raw
      by (simp add: Tracker_Add_def Let_def)
    have "sc_durableUp c1 = sc_durableUp c + (tr_total (sc_up c1) - tr_total (sc_up c))"
      "sc_durableDown c1 = sc_durableDown c + (tr_total (sc_down c1) - tr_total (sc_down c))"
      using cl st by (simp_all add: same_totals_def)
    moreover have ls: "sc_totalsLoaded c'" "tr_seen (sc_up c')" "tr_seen (sc_down c')"
      "sc_durableUp c' = sc_durableUp c1 + epochs_sum (rt_UpBytes rt # ups Ps) - rt_UpBytes rt"
      "sc_durableDown c' = sc_durableDown c1 + epochs_sum (rt_DownBytes rt # downs Ps) - rt_DownBytes rt"
      using Cons.IH [OF _ _ _ run] cl add2 by (simp_all add: t)
    ultimately have "sc_totalsLoaded c'"
      "sc_durableUp c' = sc_durableUp c + (tr_total (sc_up c1) - tr_total (sc_up c) + epochs_sum (rt_UpBytes rt # ups Ps) - rt_UpBytes rt)"
      "sc_durableDown c' = sc_durableDown c + (tr_total (sc_down c1) - tr_total (sc_down c) + epochs_sum (rt_DownBytes rt # downs Ps) - rt_DownBytes rt)"
      by (auto intro: shift)
    then show ?thesis unfolding t add1 [OF Cons.prems(2)] add1 [OF Cons.prems(3)]
      using Some ls(2,3) by (simp add: ups_def downs_def List.map_filter_simps add_diff_eq)
  qed
qed


lemma run_idle:
  assumes "\<forall>P \<in> set Ps. reading P = None" and "status_run L Ps (c, d, s) = (c', d', s')"
  shows "same_totals c' c \<and> d' = d"
  using assms
proof (induction Ps arbitrary: c d s)
  case Nil
  then show ?case by (simp add: same_totals_def)
next
  case (Cons P Ps)
  obtain c1 d1 s1 where P: "Status_Collect L P d c = (c1, d1, s1)" by (cases "Status_Collect L P d c")
  have "same_totals c1 c" "d1 = d" using Collect_idle [of P L d c] Cons.prems(1) P by auto
  moreover have "same_totals c' c1 \<and> d' = d1" using Cons P by simp
  ultimately show ?case by (simp add: same_totals_def)
qed

lemma status_run_append: "status_run L (Ps @ Qs) s = status_run L Qs (status_run L Ps s)"
  by (induction L Ps s rule: status_run.induct) auto

lemma collect_degraded:
  assumes "sp_unit P = Inr info" and "ui_ActiveState info = ''active''" and "sp_stats P = Inl err" and "sc_totalsLoaded c"
  shows "xs_TotalUpBytes (snd (snd (Status_Collect L P d c))) = sc_durableUp c \<and>
    xs_TotalDownBytes (snd (snd (Status_Collect L P d c))) = sc_durableDown c \<and>
    xs_Status (snd (snd (Status_Collect L P d c))) = StatusUnreachable"
  using assms by (simp add: Status_Collect_def Let_def split: sum.split)

lemma next_poll:
  assumes "sc_totalsLoaded c" and "tr_seen (sc_up c)" and "tr_seen (sc_down c)"
    and Q: "Status_Collect L Q d c = (c2, d2, s2)"
  shows "(reading Q \<noteq> None \<longrightarrow> xs_Status s2 = StatusRunning \<and> (sp_save_err Q = None \<longrightarrow>
      load_totals_row d2 = (xs_TotalUpBytes s2, xs_TotalDownBytes s2, True))) \<and>
    (\<forall>info. sp_unit Q = Inr info \<and> ui_ActiveState info = ''active'' \<longrightarrow>
      xs_TotalUpBytes s2 = sc_durableUp c2 \<and> xs_TotalDownBytes s2 = sc_durableDown c2)"
proof (cases "reading Q")
  case None
  then have st: "same_totals c2 c" using Collect_idle [OF None, of L d c] Q by simp
  have "xs_TotalUpBytes s2 = sc_durableUp c2 \<and> xs_TotalDownBytes s2 = sc_durableDown c2"
    if i: "sp_unit Q = Inr info" "ui_ActiveState info = ''active''" for info
  proof -
    obtain err where "sp_stats Q = Inl err" using None i by (cases "sp_stats Q") (auto simp: reading_def)
    from collect_degraded [OF i this assms(1), of L d] show ?thesis using Q st by (simp add: same_totals_def)
  qed
  then show ?thesis using None by simp
next
  case (Some rt)
  obtain cp sp where cp: "Status_Collect L Q d c = collect_runtime L Q rt d cp sp" "same_totals cp c" "xs_Status sp = StatusRunning"
    by (rule Collect_reading [OF Some])
  have f: "sc_totalsLoaded cp" "tr_seen (sc_up cp)" "tr_seen (sc_down cp)"
    using cp(2) assms(1-3) by (simp_all add: same_totals_def)
  show ?thesis using collect_loaded [OF f trans [OF cp(1) [symmetric] Q]] cp(3) by auto
qed

section \<open>Properties\<close>

text \<open>
  C30. With a totals store that answers on first contact, after any sequence of polls (xray down,
  stopped, restarted, saves failing) the durable totals are the stored row plus the traffic since
  that contact, or all of xray's traffic since it started when no row existed: each counter epoch
  counts its last reading.  Every later status of an active unit reports them, degraded or not,
  and a save that succeeds persists exactly them.
\<close>

theorem durable_totals_follow_xray:
  assumes run: "status_run L (idle @ P # Ps) (WithTotalsStore New_status_collector, d, s) = (c', d', s')"
    and idle: "\<forall>Q \<in> set idle. reading Q = None" and P: "reading P = Some rt" "sp_load_err P = None"
    and row: "load_totals_row d = (up, down, found)"
  shows "sc_totalsLoaded c' \<and>
    sc_durableUp c' = (if found then up else rt_UpBytes rt) + epochs_sum (ups (P # Ps)) - rt_UpBytes rt \<and>
    sc_durableDown c' = (if found then down else rt_DownBytes rt) + epochs_sum (downs (P # Ps)) - rt_DownBytes rt \<and>
    (case Status_Collect L Q d' c' of (c2, d2, s2) \<Rightarrow>
       (reading Q \<noteq> None \<longrightarrow> xs_Status s2 = StatusRunning \<and> (sp_save_err Q = None \<longrightarrow>
          load_totals_row d2 = (xs_TotalUpBytes s2, xs_TotalDownBytes s2, True))) \<and>
       (\<forall>info. sp_unit Q = Inr info \<and> ui_ActiveState info = ''active'' \<longrightarrow>
          xs_TotalUpBytes s2 = sc_durableUp c2 \<and> xs_TotalDownBytes s2 = sc_durableDown c2))"
proof -
  let ?c0 = "WithTotalsStore New_status_collector"
  obtain ci di si where i: "status_run L idle (?c0, d, s) = (ci, di, si)" by (cases "status_run L idle (?c0, d, s)") auto
  have ci: "same_totals ci ?c0" "di = d" using run_idle [OF idle i] by auto
  obtain c1 d1 s1 where c1: "Status_Collect L P di ci = (c1, d1, s1)" by (cases "Status_Collect L P di ci") auto
  obtain cp sp where cp: "Status_Collect L P di ci = collect_runtime L P rt di cp sp" "same_totals cp ci"
    by (rule Collect_reading [OF P(1)])
  have f: "sc_hasStore cp" "\<not> sc_totalsLoaded cp" "sc_up cp = NewTracker False" "sc_down cp = NewTracker False"
    using cp(2) ci(1) by (simp_all add: same_totals_def WithTotalsStore_def New_status_collector_def)
  note first = collect_first [OF f P(2) row [folded ci(2)]]
  have c: "sc_totalsLoaded c1" "tr_seen (sc_up c1)" "tr_seen (sc_down c1)" "lastRaw (sc_up c1) = rt_UpBytes rt"
    "lastRaw (sc_down c1) = rt_DownBytes rt" "sc_durableUp c1 = (if found then up else rt_UpBytes rt)"
    "sc_durableDown c1 = (if found then down else rt_DownBytes rt)"
    using first [OF trans [OF cp(1) [symmetric] c1]] by auto
  have r: "status_run L Ps (c1, d1, s1) = (c', d', s')" using run i c1 by (simp add: status_run_append)
  have ud: "ups (P # Ps) = rt_UpBytes rt # ups Ps" "downs (P # Ps) = rt_DownBytes rt # downs Ps"
    using P(1) by (simp_all add: ups_def downs_def List.map_filter_simps)
  have tot: "sc_totalsLoaded c'" "sc_durableUp c' = (if found then up else rt_UpBytes rt) + epochs_sum (ups (P # Ps)) - rt_UpBytes rt"
    "sc_durableDown c' = (if found then down else rt_DownBytes rt) + epochs_sum (downs (P # Ps)) - rt_DownBytes rt"
    using run_loaded [OF c(1-3) r] c(4-7) by (simp_all add: ud)
  have seen': "tr_seen (sc_up c')" "tr_seen (sc_down c')" using run_loaded [OF c(1-3) r] by auto
  show ?thesis using tot next_poll [OF tot(1) seen'] by (auto split: prod.split)
qed


section \<open>Examples\<close>

definition some_lib :: status_lib where
  "some_lib = \<lparr>sl_unix = (\<lambda>t. t), sl_seconds = (\<lambda>t. 0), sl_rate = (\<lambda>b e. 0)\<rparr>"

definition traffic_poll :: "u64 \<Rightarrow> string option \<Rightarrow> status_poll" where
  "traffic_poll n load_err = \<lparr>
     sp_unit = Inr \<lparr>ui_ActiveState = ''active'', ui_SubState = ''running'', ui_ActiveSince = None, ui_ExecPath = []\<rparr>,
     sp_version = (\<lambda>_. Inr ''1''),
     sp_stats = Inr \<lparr>rt_UpBytes = n, rt_DownBytes = n, rt_MemBytes = 0, rt_Goroutines = 0, rt_OnlineUsers = None, rt_OnlineIPs = None\<rparr>,
     sp_load_err = load_err, sp_save_err = None, sp_now = 0, sp_now_uptime = 0, sp_now_poll = 0\<rparr>"

lemmas status_eval = traffic_poll_def Status_Collect_def collect_runtime_def loadTotals_def WithTotalsStore_def
  New_status_collector_def Tracker_Add_def NewTracker_def Tracker_LastDelta_def load_totals_row_def save_totals_row_def
  LoadTrafficTotals_def SaveTrafficTotals_def some_lib_def

theorem durable_totals_follow_xray_witness:
  "\<exists>c' d' s'. status_run some_lib [traffic_poll 100 None, traffic_poll 150 None, traffic_poll 20 None]
      (WithTotalsStore New_status_collector, no_tables, zero_status) = (c', d', s') \<and>
    sc_durableUp c' = 170"
proof -
  let ?Ps = "[traffic_poll 150 None, traffic_poll 20 None]"
  obtain c' d' s' where r: "status_run some_lib ([] @ traffic_poll 100 None # ?Ps)
      (WithTotalsStore New_status_collector, no_tables, zero_status) = (c', d', s')"
    by (cases "status_run some_lib ([] @ traffic_poll 100 None # ?Ps) (WithTotalsStore New_status_collector, no_tables, zero_status)") auto
  have p: "reading (traffic_poll 100 None) = Some \<lparr>rt_UpBytes = 100, rt_DownBytes = 100, rt_MemBytes = 0,
      rt_Goroutines = 0, rt_OnlineUsers = None, rt_OnlineIPs = None\<rparr>" "sp_load_err (traffic_poll 100 None) = None"
    by (simp_all add: reading_def traffic_poll_def)
  have l: "load_totals_row no_tables = (0, 0, False)"
    by (simp add: load_totals_row_def LoadTrafficTotals_def no_tables_def)
  have u: "ups (traffic_poll 100 None # ?Ps) = [100, 150, 20]"
    by (simp add: ups_def reading_def traffic_poll_def List.map_filter_simps)
  have "sc_durableUp c' = 170"
    using durable_totals_follow_xray [OF r _ p l] by (simp add: u epochs_sum_def)
  then show ?thesis using r by auto
qed

text \<open>
  The totals store failing on first contact and answering later: with no row yet the delta of
  that poll is counted on top of counters that already include it, and with a row the traffic of
  the polls before it is left out.
\<close>

lemma late_first_load_counts_twice:
  "sc_durableUp (fst (status_run some_lib [traffic_poll 100 (Some ''locked''), traffic_poll 150 None]
     (WithTotalsStore New_status_collector, no_tables, zero_status))) = 200"
  by (simp add: status_eval no_tables_def)

lemma late_load_loses_traffic:
  "sc_durableUp (fst (status_run some_lib [traffic_poll 100 (Some ''locked''), traffic_poll 150 (Some ''locked''), traffic_poll 200 None]
     (WithTotalsStore New_status_collector, no_tables\<lparr>db_totals := Some (1000, 1000)\<rparr>, zero_status))) = 1050"
  by (simp add: status_eval no_tables_def)

end
