(* ===== verification/FileSource.thy ===== *)
theory FileSource
  imports XrayConfig
begin

text \<open>
  The two caches that keep the last good value: the watched file of
  \<^verbatim>\<open>src/internal/filesource\<close> (change-driven) and \<^verbatim>\<open>src/internal/snapshot\<close> (timer-driven), with the
  contract they share as a locale, and the watched xray config built on the first.

  What a read of the file, a parse, a collect and the clock answer are arguments.  A watcher's
  goroutine is a step function over the events it selects on; a subscriber is the fill of its
  one-place channel.
\<close>

section \<open>The shared contract\<close>

text \<open>A refresh that succeeds replaces the value; one that fails keeps it.\<close>

locale last_good =
  fixes refresh :: "'i \<Rightarrow> 's \<Rightarrow> 's"
    and outcome :: "'i \<Rightarrow> 's \<Rightarrow> 'v option"
    and held :: "'s \<Rightarrow> 'v"
    and primed :: "'s \<Rightarrow> bool"
  assumes refresh_success: "outcome i s = Some v \<Longrightarrow> held (refresh i s) = v \<and> primed (refresh i s)"
    and refresh_failure: "outcome i s = None \<Longrightarrow> held (refresh i s) = held s \<and> primed (refresh i s) = primed s"
begin

fun successes :: "'i list \<Rightarrow> 's \<Rightarrow> 'v list" where
  "successes [] s = []"
| "successes (i # is) s =
     (case outcome i s of None \<Rightarrow> [] | Some v \<Rightarrow> [v]) @ successes is (refresh i s)"

lemma held_is_last_success:
  "held (fold refresh is s) = last (held s # successes is s) \<and>
   (primed (fold refresh is s) \<longleftrightarrow> primed s \<or> successes is s \<noteq> [])"
proof (induction "is" arbitrary: s)
  case (Cons i "is")
  then show ?case
    using refresh_success [of i s] refresh_failure [of i s] by (cases "outcome i s") auto
qed simp

lemma primed_stays: "primed s \<Longrightarrow> primed (fold refresh is s)"
  using held_is_last_success by simp

end

section \<open>The snapshot cache\<close>

record 'v cache =
  ca_latest :: 'v
  ca_ok :: bool

definition New_cache :: "'v \<Rightarrow> 'v cache" where
  "New_cache zero = \<lparr>ca_latest = zero, ca_ok = False\<rparr>"

text \<open>\<^verbatim>\<open>collect\<close>: the answer of the source in, the answer of the cache out.\<close>

definition cache_collect :: "string + 'v \<Rightarrow> 'v cache \<Rightarrow> 'v cache \<times> (string + 'v)" where
  "cache_collect answer c =
     (case answer of
        Inl err \<Rightarrow> (c, if ca_ok c then Inr (ca_latest c) else Inl err)
      | Inr snap \<Rightarrow> (c\<lparr>ca_latest := snap, ca_ok := True\<rparr>, Inr snap))"

text \<open>
  \<^verbatim>\<open>Latest\<close>: the first check without the refresh lock, then again under it; \<open>c'\<close> is the cache as it
  is once the lock is held, a refresh by another goroutine included.
\<close>

definition cache_Latest :: "string + 'v \<Rightarrow> 'v cache \<Rightarrow> 'v cache \<Rightarrow> 'v cache \<times> (string + 'v)" where
  "cache_Latest answer c c' =
     (if ca_ok c then (c', Inr (ca_latest c))
      else if ca_ok c' then (c', Inr (ca_latest c'))
      else cache_collect answer c')"

interpretation timer: last_good "\<lambda>answer c. fst (cache_collect answer c)"
    "\<lambda>answer c. case answer of Inl e \<Rightarrow> None | Inr v \<Rightarrow> Some v" ca_latest ca_ok
  by unfold_locales (auto simp: cache_collect_def split: sum.splits)

section \<open>The watched file\<close>

record source_error =
  se_Reason :: string
  se_Message :: string

type_synonym messages = "(string \<times> string \<times> string) list"

definition ReadFailed :: string where
  "ReadFailed = ''read_failed''"

definition message_of :: "messages \<Rightarrow> string \<Rightarrow> bool \<Rightarrow> string" where
  "message_of m reason stale =
     (case map_of m reason of None \<Rightarrow> [] | Some (fresh, stale_text) \<Rightarrow> if stale then stale_text else fresh)"

datatype source_log = LogRecovered | LogFailure string

record 'v watcher =
  wa_path :: string
  wa_value :: 'v
  wa_loadedAt :: int
  wa_loaded :: bool
  wa_stale :: bool
  wa_sourceErr :: "source_error option"
  wa_lastErr :: string
  wa_subscribers :: "bool list"
  wa_logs :: "source_log list"

definition New_watcher :: "string \<Rightarrow> 'v \<Rightarrow> 'v watcher" where
  "New_watcher path zero = \<lparr>wa_path = path, wa_value = zero, wa_loadedAt = 0, wa_loaded = False, wa_stale = False,
     wa_sourceErr = None, wa_lastErr = [], wa_subscribers = [], wa_logs = []\<rparr>"

definition Watcher_Changes :: "'v watcher \<Rightarrow> 'v watcher" where
  "Watcher_Changes w = w\<lparr>wa_subscribers := wa_subscribers w @ [False]\<rparr>"

definition recordFailure :: "messages \<Rightarrow> string \<Rightarrow> string \<Rightarrow> 'v watcher \<Rightarrow> 'v watcher" where
  "recordFailure m reason diagnostic w =
     (let failure = reason @ '': '' @ diagnostic in
      w\<lparr>wa_stale := wa_loaded w,
        wa_sourceErr := Some \<lparr>se_Reason = reason, se_Message = message_of m reason (wa_loaded w)\<rparr>,
        wa_lastErr := failure,
        wa_logs := wa_logs w @ (if wa_lastErr w \<noteq> failure then [LogFailure failure] else [])\<rparr>)"

text \<open>One reload: the read of the file (or its diagnostic) and the clock; the parse names its reason.\<close>

record reload_env =
  re_read :: "string + string"
  re_now :: int

definition reload ::
  "('v \<Rightarrow> string \<Rightarrow> string \<times> string + 'v) \<Rightarrow> messages \<Rightarrow> reload_env \<Rightarrow> 'v watcher \<Rightarrow> 'v watcher" where
  "reload parse m E w =
     (case re_read E of
        Inl diagnostic \<Rightarrow> recordFailure m ReadFailed diagnostic w
      | Inr document \<Rightarrow>
          (case parse (wa_value w) document of
             Inl (reason, diagnostic) \<Rightarrow> recordFailure m reason diagnostic w
           | Inr v \<Rightarrow>
               w\<lparr>wa_value := v, wa_loadedAt := re_now E, wa_loaded := True, wa_stale := False, wa_sourceErr := None,
                 wa_lastErr := [], wa_subscribers := map (\<lambda>_. True) (wa_subscribers w),
                 wa_logs := wa_logs w @ (if wa_lastErr w \<noteq> [] then [LogRecovered] else [])\<rparr>))"

record 'v source_snapshot =
  sn_Value :: 'v
  sn_LoadedAt :: int
  sn_Stale :: bool
  sn_Error :: "source_error option"
  sn_configured :: bool
  sn_available :: bool

definition Watcher_Snapshot :: "'v watcher \<Rightarrow> 'v source_snapshot" where
  "Watcher_Snapshot w = \<lparr>sn_Value = wa_value w, sn_LoadedAt = wa_loadedAt w, sn_Stale = wa_stale w,
     sn_Error = wa_sourceErr w, sn_configured = (wa_path w \<noteq> []), sn_available = wa_loaded w\<rparr>"

text \<open>
  The goroutine of \<^verbatim>\<open>Start\<close>: what the select receives.  A tick is received only while the debounce
  is armed; a save re-arms it, so a burst is read once.
\<close>

datatype watch_event =
    FileEvent string
  | WatchError
  | Fired reload_env
  | Cancelled
  | WatchClosed

record 'v watch_loop =
  wl_watcher :: "'v watcher"
  wl_armed :: bool
  wl_running :: bool

definition Watcher_Start ::
  "('v \<Rightarrow> string \<Rightarrow> string \<times> string + 'v) \<Rightarrow> messages \<Rightarrow> reload_env \<Rightarrow> bool \<Rightarrow> 'v watcher \<Rightarrow> 'v watch_loop" where
  "Watcher_Start parse m E notify_ok w =
     (if wa_path w = [] then \<lparr>wl_watcher = w, wl_armed = False, wl_running = False\<rparr>
      else \<lparr>wl_watcher = reload parse m E w, wl_armed = False, wl_running = notify_ok\<rparr>)"

definition watch_step ::
  "(string \<Rightarrow> string) \<Rightarrow> ('v \<Rightarrow> string \<Rightarrow> string \<times> string + 'v) \<Rightarrow> messages \<Rightarrow> watch_event \<Rightarrow> 'v watch_loop \<Rightarrow> 'v watch_loop" where
  "watch_step clean parse m ev s =
     (if \<not> wl_running s then s
      else case ev of
        Cancelled \<Rightarrow> s\<lparr>wl_running := False\<rparr>
      | WatchClosed \<Rightarrow> s\<lparr>wl_running := False\<rparr>
      | WatchError \<Rightarrow> s
      | FileEvent name \<Rightarrow>
          if clean name \<noteq> clean (wa_path (wl_watcher s)) then s else s\<lparr>wl_armed := True\<rparr>
      | Fired E \<Rightarrow>
          if wl_armed s then s\<lparr>wl_armed := False, wl_watcher := reload parse m E (wl_watcher s)\<rparr> else s)"

abbreviation reload_outcome ::
  "('v \<Rightarrow> string \<Rightarrow> string \<times> string + 'v) \<Rightarrow> reload_env \<Rightarrow> 'v watcher \<Rightarrow> 'v option" where
  "reload_outcome parse E w \<equiv> (case re_read E of Inl _ \<Rightarrow> None
     | Inr document \<Rightarrow> (case parse (wa_value w) document of Inl _ \<Rightarrow> None | Inr v \<Rightarrow> Some v))"

interpretation change: last_good "reload parse m" "reload_outcome parse" wa_value wa_loaded for parse m
  by unfold_locales (auto simp: reload_def recordFailure_def Let_def split: sum.splits prod.splits)

section \<open>Reloads of a run\<close>

text \<open>The reloads a run performs: one per tick received while armed.\<close>

fun reloads_of ::
  "(string \<Rightarrow> string) \<Rightarrow> ('v \<Rightarrow> string \<Rightarrow> string \<times> string + 'v) \<Rightarrow> messages \<Rightarrow> watch_event list \<Rightarrow> 'v watch_loop \<Rightarrow> reload_env list" where
  "reloads_of clean parse m [] s = []"
| "reloads_of clean parse m (ev # evs) s =
     (case ev of Fired E \<Rightarrow> if wl_running s \<and> wl_armed s then [E] else [] | _ \<Rightarrow> []) @
     reloads_of clean parse m evs (watch_step clean parse m ev s)"

lemma watch_run_reloads:
  "wl_watcher (fold (watch_step clean parse m) evs s) =
   fold (reload parse m) (reloads_of clean parse m evs s) (wl_watcher s)"
proof (induction evs arbitrary: s)
  case (Cons ev evs)
  show ?case unfolding fold.simps comp_def Cons.IH
    by (cases ev) (simp_all add: watch_step_def)
qed simp

definition reload_failed :: "('v \<Rightarrow> string \<Rightarrow> string \<times> string + 'v) \<Rightarrow> reload_env \<Rightarrow> 'v watcher \<Rightarrow> bool" where
  "reload_failed parse E w \<longleftrightarrow> reload_outcome parse E w = None"

lemma reload_marks:
  "(wa_sourceErr (reload parse m E w) = None \<longleftrightarrow> reload_outcome parse E w \<noteq> None) \<and>
   (wa_stale (reload parse m E w) \<longleftrightarrow> wa_loaded w \<and> reload_outcome parse E w = None) \<and>
   wa_path (reload parse m E w) = wa_path w"
  by (auto simp: reload_def recordFailure_def Let_def split: sum.split prod.split)

lemma reloads_path: "wa_path (fold (reload parse m) Es w) = wa_path w"
  by (induction Es arbitrary: w) (simp_all add: reload_marks)

text \<open>A reload that fails twice in the same way logs once.\<close>

lemma repeated_failure_logs_once:
  assumes "reload_outcome parse E w = None" and "re_read E = re_read E'"
  shows "wa_logs (reload parse m E' (reload parse m E w)) = wa_logs (reload parse m E w)"
  using assms by (auto simp: reload_def recordFailure_def Let_def split: sum.splits prod.splits)

lemma burst_read_once:
  assumes "wl_running s" and "wl_armed s"
    and "\<forall>ev \<in> set burst. (\<exists>name. ev = FileEvent name) \<or> ev = WatchError"
  shows "fold (watch_step clean parse m) (burst @ [Fired E]) s =
    s\<lparr>wl_armed := False, wl_watcher := reload parse m E (wl_watcher s)\<rparr>"
proof -
  have "watch_step clean parse m ev s = s" if "ev \<in> set burst" for ev
  proof -
    have "s\<lparr>wl_armed := True\<rparr> = s" using assms(2) by simp
    then show ?thesis using assms(3) that by (auto simp: watch_step_def)
  qed
  then have "fold (watch_step clean parse m) burst s = s" by (rule fold_fixed)
  then show ?thesis using assms(1,2) by (simp add: watch_step_def)
qed

section \<open>Properties\<close>

text \<open>
  C29. A watched source serves the last document that parsed: after any run of the watch loop the
  value is that of the last successful reload (parsed against the value before it), it is
  available from the first success on, stale exactly when the latest reload failed after one, and
  carries an error exactly when the latest reload failed.  A burst of saves is read once, when the
  debounce ends, and a sibling file's events are ignored.
\<close>

theorem watched_source_serves_last_valid:
  fixes parse :: "'v \<Rightarrow> string \<Rightarrow> string \<times> string + 'v"
  assumes "path \<noteq> []"
  shows "let s0 = Watcher_Start parse m E0 notify_ok (New_watcher path zero);
      s = fold (watch_step clean parse m) evs s0;
      Es = E0 # reloads_of clean parse m evs s0;
      good = change.successes parse m Es (New_watcher path zero);
      before = fold (reload parse m) (butlast Es) (New_watcher path zero);
      snap = Watcher_Snapshot (wl_watcher s) in
    sn_configured snap \<and> sn_Value snap = last (zero # good) \<and> (sn_available snap \<longleftrightarrow> good \<noteq> []) \<and>
    (sn_Error snap \<noteq> None \<longleftrightarrow> reload_failed parse (last Es) before) \<and>
    (sn_Stale snap \<longleftrightarrow> wa_loaded before \<and> reload_failed parse (last Es) before) \<and>
    (wl_running s \<and> clean name = clean path \<and> (\<forall>ev \<in> set burst. (\<exists>n. ev = FileEvent n) \<or> ev = WatchError) \<longrightarrow>
       wl_watcher (fold (watch_step clean parse m) (FileEvent name # burst @ [Fired E]) s) = reload parse m E (wl_watcher s)) \<and>
    (clean name \<noteq> clean path \<longrightarrow> watch_step clean parse m (FileEvent name) s = s)"
proof -
  let ?w0 = "New_watcher path zero"
  define s0 where "s0 = Watcher_Start parse m E0 notify_ok ?w0"
  define Es where "Es = E0 # reloads_of clean parse m evs s0"
  define s where "s = fold (watch_step clean parse m) evs s0"
  define before where "before = fold (reload parse m) (butlast Es) ?w0"
  have path: "wa_path ?w0 = path" "wa_value ?w0 = zero" "\<not> wa_loaded ?w0" by (simp_all add: New_watcher_def)
  have w: "wl_watcher s = fold (reload parse m) Es ?w0"
    using assms path(1) unfolding s_def by (simp add: watch_run_reloads s0_def Watcher_Start_def Es_def)
  have p: "wa_path (wl_watcher s) = path" using path(1) by (simp add: w reloads_path)
  have "Es = butlast Es @ [last Es]" by (simp add: Es_def)
  then have lst: "wl_watcher s = reload parse m (last Es) before"
    unfolding w before_def by (metis fold_append fold_simps comp_apply)
  have h: "wa_value (wl_watcher s) = last (zero # change.successes parse m Es ?w0)"
    "wa_loaded (wl_watcher s) \<longleftrightarrow> change.successes parse m Es ?w0 \<noteq> []"
    using change.held_is_last_success [of parse m Es ?w0] path by (simp_all add: w)
  have e: "wa_sourceErr (wl_watcher s) \<noteq> None \<longleftrightarrow> reload_failed parse (last Es) before"
    "wa_stale (wl_watcher s) \<longleftrightarrow> wa_loaded before \<and> reload_failed parse (last Es) before"
    using reload_marks [of parse m "last Es" before] by (auto simp: lst reload_failed_def simp del: not_None_eq)
  have b: "wl_watcher (fold (watch_step clean parse m) (FileEvent name # burst @ [Fired E]) s) = reload parse m E (wl_watcher s)"
    if "wl_running s" "clean name = clean path" "\<forall>ev \<in> set burst. (\<exists>n. ev = FileEvent n) \<or> ev = WatchError"
    using burst_read_once [of "s\<lparr>wl_armed := True\<rparr>" burst clean parse m E] that p by (simp add: watch_step_def)
  have i: "clean name \<noteq> clean path \<longrightarrow> watch_step clean parse m (FileEvent name) s = s"
    using p by (simp add: watch_step_def)
  show ?thesis unfolding Let_def
    using h e b i p assms
    by (simp add: Watcher_Snapshot_def flip: s0_def s_def Es_def before_def del: not_None_eq fold_simps)
qed


definition nonempty_parse :: "string \<Rightarrow> string \<Rightarrow> string \<times> string + string" where
  "nonempty_parse previous document = (if document = [] then Inl (''parse_failed'', ''empty'') else Inr document)"

definition saved :: "string \<Rightarrow> reload_env" where
  "saved document = \<lparr>re_read = Inr document, re_now = 1\<rparr>"

lemma saved_outcome: "reload_outcome nonempty_parse (saved d) w = (if d = [] then None else Some d)"
  by (simp add: nonempty_parse_def saved_def)

theorem watched_source_serves_last_valid_witness:
  "let s0 = Watcher_Start nonempty_parse [] (saved ''one'') True (New_watcher ''/etc/x'' []);
      s = fold (watch_step id nonempty_parse []) [FileEvent ''/etc/x'', Fired (saved [])] s0;
      snap = Watcher_Snapshot (wl_watcher s) in
    sn_Value snap = ''one'' \<and> sn_available snap \<and> sn_Stale snap \<and> sn_Error snap \<noteq> None"
proof -
  let ?w0 = "New_watcher ''/etc/x'' []"
  define s0 where "s0 = Watcher_Start nonempty_parse [] (saved ''one'') True ?w0"
  have p: "''/etc/x'' \<noteq> []" by simp
  have r: "reloads_of id nonempty_parse [] [FileEvent ''/etc/x'', Fired (saved [])] s0 = [saved []]"
    by (simp add: s0_def Watcher_Start_def New_watcher_def watch_step_def reloads_path reload_marks)
  have g: "change.successes nonempty_parse [] [saved ''one'', saved []] ?w0 = [''one'']"
    by (simp add: saved_outcome)
  have l: "wa_loaded (fold (reload nonempty_parse []) [saved ''one''] ?w0)"
    using change.held_is_last_success [of nonempty_parse "[]" "[saved ''one'']" ?w0] by (simp add: saved_outcome)
  show ?thesis
    using watched_source_serves_last_valid [OF p, of nonempty_parse "[]" "saved ''one''" True "[]" id
        "[FileEvent ''/etc/x'', Fired (saved [])]" "[]" "[]" "saved []"]
    unfolding Let_def s0_def [symmetric] r
    using l by (simp add: g reload_failed_def saved_outcome del: not_None_eq fold_simps)
qed

text \<open>
  The watched xray config; the text of a decode error is an argument too.  The value after any sequence of reloads is the fold of the parses over
  the documents that could be read, to which the roster version's faithfulness applies.
\<close>

definition config_parse ::
  "json_lib \<Rightarrow> (string \<Rightarrow> xray_config option) \<Rightarrow> (string \<Rightarrow> string) \<Rightarrow> parsed \<Rightarrow> string \<Rightarrow> string \<times> string + parsed" where
  "config_parse J decode diagnostic previous document =
     (case parseSource J decode previous document of Inl reason \<Rightarrow> Inl (reason, diagnostic document) | Inr p \<Rightarrow> Inr p)"

definition config_messages :: messages where
  "config_messages =
    [(ReadFailed, ''The configured xray file could not be read.'',
       ''The configured xray file could not be read; profiles use the last valid parse.''),
     (''parse_failed'', ''The configured xray file could not be parsed.'',
       ''The configured xray file could not be parsed; profiles use the last valid parse.'')]"

definition readable :: "reload_env list \<Rightarrow> string list" where
  "readable Es = List.map_filter (\<lambda>E. case re_read E of Inl _ \<Rightarrow> None | Inr d \<Rightarrow> Some d) Es"

lemma config_reload_value:
  "wa_value (reload (config_parse J decode diagnostic) m E w) =
   (case re_read E of Inl _ \<Rightarrow> wa_value w
    | Inr d \<Rightarrow> (case parseSource J decode (wa_value w) d of Inl _ \<Rightarrow> wa_value w | Inr q \<Rightarrow> q))"
  by (simp add: reload_def config_parse_def recordFailure_def Let_def split: sum.split)

lemma watched_config_loads_all:
  "wa_value (fold (reload (config_parse J decode diagnostic) m) Es w) = load_all J decode (wa_value w) (readable Es)"
proof (induction Es arbitrary: w)
  case (Cons E Es)
  show ?case
    using Cons.IH by (simp add: readable_def List.map_filter_simps config_reload_value split: sum.split)
qed (simp add: readable_def List.map_filter_simps)

definition Watcher_Roster :: "parsed watcher \<Rightarrow> roster_parse option \<times> nat" where
  "Watcher_Roster w = (pd_Roster (sn_Value (Watcher_Snapshot w)), pd_Version (sn_Value (Watcher_Snapshot w)))"

text \<open>The log of roster changes: a load notification reports only when the version moved.\<close>

fun logRosterChanges :: "nat \<Rightarrow> nat list \<Rightarrow> nat list" where
  "logRosterChanges reported [] = []"
| "logRosterChanges reported (version # rest) =
     (if version = reported then logRosterChanges reported rest else version # logRosterChanges version rest)"

lemma logged_versions_move: "sorted (reported # vs) \<Longrightarrow> sorted_wrt (<) (reported # logRosterChanges reported vs)"
proof (induction reported vs rule: logRosterChanges.induct)
  case (2 reported v vs)
  then show ?case by (auto intro: le_less_trans)
qed simp

text \<open>
  The snapshot cache serves the last collect that succeeded once there is one, and never an
  error then, whatever fails afterwards and whichever of two concurrent readers primed it; before
  that it returns the failure of the collect it just made.
\<close>

lemma cache_serves_last_good:
  fixes answers :: "(string + 'v) list"
  shows "let c = fold (\<lambda>a c. fst (cache_collect a c)) answers (New_cache zero);
      good = timer.successes answers (New_cache zero) in
    (case cache_Latest answer c c of (c', r) \<Rightarrow>
       if good \<noteq> [] then r = Inr (last good) \<and> c' = c
       else r = answer \<and> (\<forall>v. answer = Inr v \<longrightarrow> ca_ok c' \<and> ca_latest c' = v)) \<and>
    (\<forall>c2. (\<exists>more. c2 = fold (\<lambda>a c. fst (cache_collect a c)) more c) \<and> ca_ok c2 \<longrightarrow>
       (\<exists>v. snd (cache_Latest answer c c2) = Inr v))"
proof -
  define c where "c = fold (\<lambda>a c. fst (cache_collect a c)) answers (New_cache zero)"
  define good where "good = timer.successes answers (New_cache zero)"
  have h: "ca_latest c = last (zero # good)" "ca_ok c \<longleftrightarrow> good \<noteq> []"
    using timer.held_is_last_success [of answers "New_cache zero"]
    by (simp_all add: c_def good_def New_cache_def)
  show ?thesis unfolding Let_def c_def [symmetric] good_def [symmetric]
    using h by (cases "good = []") (auto simp: cache_Latest_def cache_collect_def split: sum.split)
qed


lemma cache_serves_last_good_witness:
  "snd (cache_Latest (Inl ''later'') (fold (\<lambda>a c. fst (cache_collect a c)) [Inl ''down'', Inr (7 :: nat), Inl ''down''] (New_cache 0))
      (fold (\<lambda>a c. fst (cache_collect a c)) [Inl ''down'', Inr 7, Inl ''down''] (New_cache 0))) = Inr 7"
  using cache_serves_last_good [of "[Inl ''down'', Inr (7 :: nat), Inl ''down'']" 0 "Inl ''later''"]
  by (simp add: Let_def case_prod_beta)

end
