(* ===== verification/Host.thy ===== *)
theory Host
  imports Prelude
begin

text \<open>
  Hosts as the panel canonicalizes them: the part of \<^verbatim>\<open>net/netip\<close> it uses (\<^verbatim>\<open>ParseAddr\<close> and
  \<^verbatim>\<open>Addr.String\<close>, from the standard library's documented grammar) and \<^verbatim>\<open>canonicalHost\<close> of
  \<^verbatim>\<open>src/internal/profiles/profiles.go\<close>.  \<^verbatim>\<open>idna.Lookup.ToASCII\<close>, a package outside the repository,
  is an argument.
\<close>

section \<open>Characters and numbers\<close>

definition digit :: "char \<Rightarrow> bool" where
  "digit c \<longleftrightarrow> 48 \<le> (of_char c :: nat) \<and> (of_char c :: nat) \<le> 57"

definition hex_char :: "char \<Rightarrow> bool" where
  "hex_char c \<longleftrightarrow> digit c \<or> 97 \<le> (of_char c :: nat) \<and> (of_char c :: nat) \<le> 102 \<or>
     65 \<le> (of_char c :: nat) \<and> (of_char c :: nat) \<le> 70"

definition hex_digit_value :: "char \<Rightarrow> nat" where
  "hex_digit_value c = (let n = of_char c in if digit c then n - 48 else if 97 \<le> n then n - 87 else n - 55)"

definition hex_value :: "string \<Rightarrow> nat" where
  "hex_value s = foldl (\<lambda>n c. 16 * n + hex_digit_value c) 0 s"

definition lower_hex_digit :: "nat \<Rightarrow> char" where
  "lower_hex_digit n = (if n < 10 then char_of (48 + n) else char_of (87 + n))"

text \<open>A number without leading zeros in a base up to 16.\<close>

function numeral_text :: "nat \<Rightarrow> nat \<Rightarrow> string" where
  "numeral_text b n =
     (if n < b \<or> b < 2 then [lower_hex_digit n] else numeral_text b (n div b) @ [lower_hex_digit (n mod b)])"
  by pat_completeness auto
termination
proof (relation "measure snd")
  fix b n :: nat
  assume "\<not> (n < b \<or> b < 2)"
  then show "((b, n div b), b, n) \<in> measure snd" by (auto intro: div_less_dividend)
qed simp

declare numeral_text.simps [simp del]

definition decimal :: "nat \<Rightarrow> string" where
  "decimal n = numeral_text 10 n"

definition contains_any :: "string \<Rightarrow> string \<Rightarrow> bool" where
  "contains_any s chars \<longleftrightarrow> list_ex (\<lambda>c. c \<in> set chars) s"

section \<open>Addresses\<close>

text \<open>An IPv4 address is four bytes; an IPv6 address eight 16-bit groups and a zone.\<close>

datatype ip_addr = IP4 "nat list" | IP6 "nat list" string

fun Addr_Is6 :: "ip_addr \<Rightarrow> bool" where
  "Addr_Is6 (IP4 _) \<longleftrightarrow> False"
| "Addr_Is6 (IP6 _ _) \<longleftrightarrow> True"

fun Addr_Zone :: "ip_addr \<Rightarrow> string" where
  "Addr_Zone (IP4 _) = []"
| "Addr_Zone (IP6 _ zone) = zone"

text \<open>
  The four decimal fields: the fields read, the value and digit count of the current one, and the
  rest of the text.  A leading zero, an empty field, a value above 255 and a fifth field are errors.
\<close>

fun ipv4_fields :: "nat list \<Rightarrow> nat \<Rightarrow> nat \<Rightarrow> string \<Rightarrow> nat list option" where
  "ipv4_fields fs v d [] = (if length fs < 3 then None else Some (fs @ [v]))"
| "ipv4_fields fs v d (c # r) =
     (if digit c then
        (if d = 1 \<and> v = 0 then None
         else if 255 < 10 * v + hex_digit_value c then None
         else ipv4_fields fs (10 * v + hex_digit_value c) (d + 1) r)
      else if c = CHR ''.'' then
        (if d = 0 \<or> r = [] \<or> length fs = 3 then None else ipv4_fields (fs @ [v]) 0 0 r)
      else None)"

text \<open>
  The loop over the groups: the groups read, the position of the ellipsis, and the rest.  It stops
  at eight groups, at the end of the text or behind an embedded IPv4 address.
\<close>

function ipv6_loop :: "nat list \<Rightarrow> nat option \<Rightarrow> string \<Rightarrow> (nat list \<times> nat option \<times> string) option" where
  "ipv6_loop gs e s =
     (if 8 \<le> length gs then Some (gs, e, s)
      else
        let ds = takeWhile hex_char s; r = dropWhile hex_char s; gs' = gs @ [hex_value ds] in
        if ds = [] \<or> 4 < length ds then None
        else case r of
          [] \<Rightarrow> Some (gs', e, [])
        | c # r1 \<Rightarrow>
            if c = CHR ''.'' then
              (if e = None \<and> length gs \<noteq> 6 \<or> 6 < length gs then None
               else case ipv4_fields [] 0 0 s of
                 Some [a, b, c', d] \<Rightarrow> Some (gs @ [256 * a + b, 256 * c' + d], e, [])
               | _ \<Rightarrow> None)
            else if c \<noteq> CHR '':'' then None
            else case r1 of
              [] \<Rightarrow> None
            | c1 # r2 \<Rightarrow>
                if c1 = CHR '':'' then
                  (if e \<noteq> None then None
                   else if r2 = [] then Some (gs', Some (length gs'), [])
                   else ipv6_loop gs' (Some (length gs')) r2)
                else ipv6_loop gs' e r1)"
  by pat_completeness auto
termination by (relation "measure (\<lambda>(gs, _, _). 8 - length gs)") auto

declare ipv6_loop.simps [simp del]

definition expand_ellipsis :: "nat list \<times> nat option \<times> string \<Rightarrow> nat list option" where
  "expand_ellipsis = (\<lambda>(gs, e, rest).
     if rest \<noteq> [] then None
     else if length gs < 8 then
       (case e of None \<Rightarrow> None | Some p \<Rightarrow> Some (take p gs @ replicate (8 - length gs) 0 @ drop p gs))
     else if e \<noteq> None then None else Some gs)"

definition parse_groups :: "string \<Rightarrow> nat list option" where
  "parse_groups s =
     (if has_prefix s ''::'' then
        (if drop 2 s = [] then Some (replicate 8 0)
         else Option.bind (ipv6_loop [] (Some 0) (drop 2 s)) expand_ellipsis)
      else Option.bind (ipv6_loop [] None s) expand_ellipsis)"

definition parseIPv6 :: "string \<Rightarrow> ip_addr option" where
  "parseIPv6 text =
     (let s = takeWhile (\<lambda>c. c \<noteq> CHR ''%'') text; zone = drop (length s + 1) text in
      if length s < length text \<and> zone = [] then None
      else map_option (\<lambda>gs. IP6 gs zone) (parse_groups s))"

text \<open>The first dot, colon or percent sign decides.\<close>

definition ParseAddr :: "string \<Rightarrow> ip_addr option" where
  "ParseAddr s =
     (case dropWhile (\<lambda>c. c \<notin> set ''.:%'') s of
        [] \<Rightarrow> None
      | c # _ \<Rightarrow>
          if c = CHR ''.'' then map_option IP4 (ipv4_fields [] 0 0 s)
          else if c = CHR '':'' then parseIPv6 s
          else None)"

text \<open>The longest run of at least two zero groups, the first of equals.\<close>

definition zero_run :: "nat list \<Rightarrow> (nat \<times> nat) option" where
  "zero_run gs = foldl (\<lambda>best i.
       let l = length (takeWhile (\<lambda>g. g = 0) (drop i gs)) in
       if 2 \<le> l \<and> (case best of None \<Rightarrow> True | Some (a, b) \<Rightarrow> b - a < l) then Some (i, i + l) else best)
     None [0..<8]"

definition groups_text :: "nat list \<Rightarrow> string" where
  "groups_text gs = join '':'' (map (numeral_text 16) gs)"

definition string6 :: "nat list \<Rightarrow> string" where
  "string6 gs =
     (case zero_run gs of
        None \<Rightarrow> groups_text gs
      | Some (a, b) \<Rightarrow> groups_text (take a gs) @ ''::'' @ groups_text (drop b gs))"

definition string4 :: "nat list \<Rightarrow> string" where
  "string4 bs = join ''.'' (map decimal bs)"

fun Addr_String :: "ip_addr \<Rightarrow> string" where
  "Addr_String (IP4 bs) = string4 bs"
| "Addr_String (IP6 gs zone) =
     (if take 6 gs = [0, 0, 0, 0, 0, 65535]
      then ''::ffff:'' @ string4 (concat (map (\<lambda>g. [g div 256, g mod 256]) (drop 6 gs)))
      else string6 gs) @ (if zone = [] then [] else ''%'' @ zone)"

section \<open>canonicalHost\<close>

definition canonicalHost :: "(string \<Rightarrow> string option) \<Rightarrow> string \<Rightarrow> string option" where
  "canonicalHost to_ascii host =
     (let bracketed = has_prefix host ''['';
          addressHost = (if bracketed then take (length host - 2) (drop 1 host) else host) in
      if host = [] \<or> has_suffix host ''.'' then None
      else if bracketed \<and> \<not> has_suffix host '']'' then None
      else case ParseAddr addressHost of
        Some address \<Rightarrow>
          if Addr_Zone address \<noteq> [] \<or> bracketed \<and> \<not> Addr_Is6 address then None
          else if Addr_Is6 address then Some (''['' @ Addr_String address @ '']'')
          else Some (Addr_String address)
      | None \<Rightarrow>
          if bracketed \<or> contains_any host ''[]:/?#@%'' then None
          else case to_ascii host of
            None \<Rightarrow> None
          | Some ascii \<Rightarrow>
              if ascii = [] \<or> 253 < length ascii \<or> has_suffix ascii ''.'' then None
              else if list_ex (\<lambda>label. label = [] \<or> 63 < length label) (split_byte (CHR ''.'') ascii) then None
              else if list_all (list_all digit) (split_byte (CHR ''.'') ascii) then None
              else Some (to_lower ascii))"


section \<open>Text of numbers and addresses\<close>

lemma of_char_lower_hex: "n < 16 \<Longrightarrow> (of_char (lower_hex_digit n) :: nat) = (if n < 10 then 48 + n else 87 + n)"
  by (simp add: lower_hex_digit_def)

lemma lower_hex_digit_char:
  "n < 16 \<Longrightarrow> hex_char (lower_hex_digit n) \<and> hex_digit_value (lower_hex_digit n) = n"
  "n < 10 \<Longrightarrow> digit (lower_hex_digit n)"
  by (auto simp: hex_char_def hex_digit_value_def digit_def of_char_lower_hex Let_def)

lemma numeral_text_chars:
  assumes "2 \<le> b" and "b \<le> 16" and P: "\<And>d. d < b \<Longrightarrow> P (lower_hex_digit d)"
  shows "list_all P (numeral_text b n) \<and> numeral_text b n \<noteq> []"
  using assms
proof (induction b n rule: numeral_text.induct)
  case (1 b n)
  show ?case
  proof (cases "n < b")
    case True
    then show ?thesis using 1(4) by (simp add: numeral_text.simps [of b n])
  next
    case False
    then have "list_all P (numeral_text b (n div b))" using 1 by simp
    then show ?thesis using False 1(2,4) by (simp add: numeral_text.simps [of b n])
  qed
qed

lemma numeral_text_value:
  assumes "2 \<le> b" and "b \<le> 16"
  shows "foldl (\<lambda>v c. b * v + hex_digit_value c) 0 (numeral_text b n) = n"
  using assms
proof (induction b n rule: numeral_text.induct)
  case (1 b n)
  show ?case
  proof (cases "n < b")
    case True
    then show ?thesis using 1(2,3) by (simp add: numeral_text.simps [of b n] lower_hex_digit_char)
  next
    case False
    have "n mod b < 16" using 1(2,3) by (metis less_le_trans mod_less_divisor not_numeral_le_zero gr0I)
    then show ?thesis using False 1 by (simp add: numeral_text.simps [of b n] lower_hex_digit_char)
  qed
qed

lemma decimal_digits: "list_all digit (decimal n)" "decimal n \<noteq> []"
  using numeral_text_chars [of 10 digit n] by (simp_all add: decimal_def lower_hex_digit_char(2))

definition decimal_value :: "string \<Rightarrow> nat" where
  "decimal_value s = foldl (\<lambda>v c. 10 * v + hex_digit_value c) 0 s"

lemma decimal_reads_back: "decimal_value (decimal n) = n"
  by (simp add: decimal_value_def decimal_def numeral_text_value)

lemma group_text: "list_all hex_char (numeral_text 16 g)" "numeral_text 16 g \<noteq> []" "hex_value (numeral_text 16 g) = g"
  using numeral_text_chars [of 16 hex_char g] numeral_text_value [of 16 g]
  by (simp_all add: lower_hex_digit_char(1) hex_value_def)

lemma list_all_join: "list_all P sep \<Longrightarrow> list_all (list_all P) ws \<Longrightarrow> list_all P (join sep ws)"
  by (induction sep ws rule: join.induct) auto

text \<open>What the text of an address is made of.\<close>

definition address_char :: "char \<Rightarrow> bool" where
  "address_char c \<longleftrightarrow> hex_char c \<or> c = CHR '':'' \<or> c = CHR ''.'' \<or> c = CHR ''['' \<or> c = CHR '']''"

lemma address_char_parts: "hex_char c \<Longrightarrow> address_char c" "digit c \<Longrightarrow> address_char c"
  "address_char (CHR '':'')" "address_char (CHR ''.'')" "address_char (CHR ''['')" "address_char (CHR '']'')"
  by (auto simp: address_char_def hex_char_def)

lemma string4_chars: "list_all address_char (string4 bs)"
  unfolding string4_def
  by (intro list_all_join)
     (use decimal_digits(1) in \<open>auto simp: list_all_iff address_char_parts\<close>)

lemma groups_text_chars: "list_all address_char (groups_text gs)"
  unfolding groups_text_def
  by (intro list_all_join)
     (use group_text(1) in \<open>auto simp: list_all_iff address_char_parts\<close>)

lemma string6_chars: "list_all address_char (string6 gs)"
  by (auto simp: string6_def groups_text_chars address_char_parts split: option.split)

lemma mapped_prefix_chars: "list_all address_char ''::ffff:''"
  by (simp add: address_char_def hex_char_def digit_def)

lemma Addr_String_chars: "Addr_Zone a = [] \<Longrightarrow> list_all address_char (Addr_String a)"
  using string4_chars string6_chars mapped_prefix_chars by (cases a) (auto)

section \<open>Characters of a canonical host\<close>

definition ldh_char :: "char \<Rightarrow> bool" where
  "ldh_char c \<longleftrightarrow> (let n = (of_char c :: nat) in
     97 \<le> n \<and> n \<le> 122 \<or> 65 \<le> n \<and> n \<le> 90 \<or> 48 \<le> n \<and> n \<le> 57) \<or> c = CHR ''-'' \<or> c = CHR ''.''"

lemma ldh_char_range: "ldh_char c \<Longrightarrow> (of_char c :: nat) < 128"
  by (auto simp: ldh_char_def Let_def)

lemma ascii_lower_ldh: "ldh_char c \<Longrightarrow> ldh_char (ascii_lower c)"
  by (auto simp: ldh_char_def ascii_lower_def Let_def)

lemma to_lower_ascii: "list_all (\<lambda>c. (of_char c :: nat) < 128) s \<Longrightarrow> to_lower s = map ascii_lower s"
  by (induction s) auto

lemma to_lower_ldh: "list_all ldh_char s \<Longrightarrow> list_all ldh_char (to_lower s)"
proof -
  assume h: "list_all ldh_char s"
  then have "to_lower s = map ascii_lower s" by (intro to_lower_ascii) (auto simp: list_all_iff ldh_char_range)
  then show ?thesis using h by (auto simp: list_all_iff ascii_lower_ldh)
qed

definition host_char :: "char \<Rightarrow> bool" where
  "host_char c \<longleftrightarrow> address_char c \<or> ldh_char c"

lemma canonicalHost_chars:
  assumes ldh: "\<forall>h ascii. to_ascii h = Some ascii \<longrightarrow> list_all ldh_char ascii"
    and c: "canonicalHost to_ascii host = Some canonical"
  shows "list_all host_char canonical"
proof -
  let ?addr = "if has_prefix host ''['' then take (length host - 2) (drop 1 host) else host"
  show ?thesis
  proof (cases "ParseAddr ?addr")
    case (Some a)
    then have z: "Addr_Zone a = []" and eq: "canonical = (if Addr_Is6 a then ''['' @ Addr_String a @ '']'' else Addr_String a)"
      using c by (auto simp: canonicalHost_def Let_def split: if_splits)
    have "list_all host_char (Addr_String a)"
      using Addr_String_chars [OF z] by (auto simp: list_all_iff host_char_def)
    then show ?thesis using eq by (auto simp: host_char_def address_char_parts)
  next
    case None
    then obtain ascii where "to_ascii host = Some ascii" and eq: "canonical = to_lower ascii"
      using c by (auto simp: canonicalHost_def Let_def split: if_splits option.splits)
    then have "list_all ldh_char ascii" using ldh by blast
    then show ?thesis using eq to_lower_ldh [of ascii] by (auto simp: list_all_iff host_char_def)
  qed
qed


section \<open>Hosts an advertisement may name\<close>

text \<open>\<^verbatim>\<open>strings.IndexFunc(host, unicode.IsSpace)\<close> finds a space.\<close>

fun has_space :: "string \<Rightarrow> bool" where
  "has_space [] \<longleftrightarrow> False"
| "has_space (c # r) \<longleftrightarrow> list_ex (has_prefix (c # r)) space_seqs \<or> has_space r"

definition validAdvertisedHost :: "(string \<Rightarrow> string option) \<Rightarrow> string \<Rightarrow> bool" where
  "validAdvertisedHost to_ascii host =
     (if host = [] \<or> has_suffix host ''.'' \<or> contains_any host ''/?#@%'' \<or> has_space host then False
      else let bracketed = has_prefix host ''['';
          addressHost = (if bracketed then take (length host - 2) (drop 1 host) else host) in
      if bracketed \<and> \<not> has_suffix host '']'' then False
      else case ParseAddr addressHost of
        Some address \<Rightarrow> Addr_Zone address = [] \<and> (\<not> bracketed \<or> Addr_Is6 address)
      | None \<Rightarrow>
          if bracketed then False
          else if contains_any host '':'' then False
          else case to_ascii host of
            None \<Rightarrow> False
          | Some ascii \<Rightarrow>
              if ascii = [] \<or> 253 < length ascii \<or> has_suffix ascii ''.'' then False
              else if list_ex (\<lambda>label. label = [] \<or> 63 < length label) (split_byte (CHR ''.'') ascii) then False
              else \<not> list_all (\<lambda>c. \<not> (c \<noteq> CHR ''.'' \<and> \<not> digit c)) ascii)"

lemma numeric_labels:
  "list_all (list_all digit) (split_byte (CHR ''.'') s) \<longleftrightarrow> list_all (\<lambda>c. c = CHR ''.'' \<or> digit c) s"
proof (induction s)
  case (Cons c s)
  obtain w ws where "split_byte (CHR ''.'') s = w # ws"
    using split_byte_nonempty [of "CHR ''.''" s] by (cases "split_byte (CHR ''.'') s") auto
  with Cons show ?case by (auto simp: digit_def)
qed simp

text \<open>
  The hosts the advertisements parse accepts are the ones profile evaluation can canonicalize, given
  that the domain mapping refuses spaces and brackets, as its hostname rules document.
\<close>

lemma ParseAddr_IPv4_digits:
  assumes "ipv4_fields fs v d s = Some bs"
  shows "list_all (\<lambda>c. digit c \<or> c = CHR ''.'') s"
  using assms by (induction fs v d s rule: ipv4_fields.induct) (auto split: if_splits)


lemma ipv6_loop_chars:
  assumes "ipv6_loop gs e s = Some (gs', e', [])"
  shows "list_all address_char s"
  using assms
proof (induction gs e s arbitrary: gs' e' rule: ipv6_loop.induct)
  case (1 gs e s)
  let ?ds = "takeWhile hex_char s" and ?r = "dropWhile hex_char s"
  have ds: "list_all address_char ?ds" by (auto simp: list_all_iff address_char_parts dest: set_takeWhileD)
  have "list_all address_char ?r"
  proof (cases "8 \<le> length gs")
    case True
    then show ?thesis using 1(3) by (simp add: ipv6_loop.simps [of gs e s])
  next
    case False
    note d = 1(3) [unfolded ipv6_loop.simps [of gs e s] Let_def if_not_P [OF False]]
    have g: "\<not> (?ds = [] \<or> 4 < length ?ds)" using d by (auto split: if_splits)
    show ?thesis
    proof (cases ?r)
      case (Cons c r1)
      show ?thesis
      proof (cases "c = CHR ''.''")
        case True
        then obtain bs where "ipv4_fields [] 0 0 s = Some bs"
          using d g Cons by (auto split: if_splits option.splits)
        then have "list_all (\<lambda>c. digit c \<or> c = CHR ''.'') s" by (rule ParseAddr_IPv4_digits)
        moreover have "set ?r \<subseteq> set s" by (auto dest: set_dropWhileD)
        ultimately show ?thesis using address_char_parts(2,4) by (fastforce simp: list_all_iff)
      next
        case dot: False
        then have c: "c = CHR '':''" and r1: "r1 \<noteq> []" using d g Cons by (auto split: if_splits list.splits)
        then obtain c1 r2 where r1': "r1 = c1 # r2" by (cases r1) auto
        have "list_all address_char r1"
        proof (cases "c1 = CHR '':''")
          case True
          then have "r2 = [] \<or> ipv6_loop (gs @ [hex_value ?ds]) (Some (length (gs @ [hex_value ?ds]))) r2 = Some (gs', e', [])"
            using d g Cons c r1' by (auto split: if_splits)
          then have "list_all address_char r2"
            using 1(1) [OF False refl refl refl g Cons dot _ r1' True] d g Cons c r1' True by (auto split: if_splits)
          then show ?thesis using True r1' by (simp add: address_char_parts)
        next
          case False': False
          then have "ipv6_loop (gs @ [hex_value ?ds]) e r1 = Some (gs', e', [])" using d g Cons c r1' by simp
          then show ?thesis using 1(2) [OF False refl refl refl g Cons dot _ r1' False'] c r1' by simp
        qed
        then show ?thesis using Cons c by (simp add: address_char_parts)
      qed
    next
      case Nil
      then show ?thesis by (metis list.pred_inject(1))
    qed
  qed
  then show ?case using ds list_all_append [of address_char ?ds ?r] by simp
qed

lemma ParseAddr_chars:
  assumes "ParseAddr s = Some a" and "Addr_Zone a = []"
  shows "list_all address_char s"
proof -
  have four: "list_all address_char s" if "ipv4_fields [] 0 0 s = Some bs" for bs
    using ParseAddr_IPv4_digits [OF that] by (auto simp: list_all_iff address_char_parts)
  have groups: "list_all address_char t" if "parse_groups t = Some gs" for t gs
  proof (cases "has_prefix t ''::''")
    case True
    then obtain r where t: "t = ''::'' @ r" by (auto dest: has_prefixD)
    have "list_all address_char r"
      using that True unfolding parse_groups_def t
      by (auto simp: expand_ellipsis_def Option.bind_eq_Some_conv dest: ipv6_loop_chars split: if_splits)
    then show ?thesis using t by (simp add: address_char_parts)
  next
    case False
    then show ?thesis using that
      by (auto simp: parse_groups_def expand_ellipsis_def Option.bind_eq_Some_conv dest: ipv6_loop_chars split: if_splits)
  qed
  have six: "list_all address_char s" if six: "parseIPv6 s = Some a"
  proof -
    let ?t = "takeWhile (\<lambda>c. c \<noteq> CHR ''%'') s"
    have "length ?t = length s" using six assms(2) length_takeWhile_le [of "\<lambda>c. c \<noteq> CHR ''%''" s]
      by (auto simp: parseIPv6_def Let_def split: if_splits)
    then have "?t = s" by (metis order_refl take_all takeWhile_eq_take)
    moreover obtain gs where "parse_groups ?t = Some gs"
      using six by (auto simp: parseIPv6_def Let_def split: if_splits)
    then have "list_all address_char ?t" by (rule groups)
    ultimately show ?thesis by metis
  qed
  show ?thesis using assms(1) four six by (auto simp: ParseAddr_def split: list.splits if_splits)
qed

lemma address_char_range:
  "address_char c \<Longrightarrow> c \<notin> set ''/?#@%'' \<and> c \<notin> hd ` set space_seqs"
  by (auto simp: address_char_def hex_char_def digit_def space_seqs_def)

lemma no_space_heads: "\<forall>c \<in> set s. c \<notin> hd ` set space_seqs \<Longrightarrow> \<not> has_space s"
proof (induction s)
  case (Cons c r)
  have "\<not> has_prefix (c # r) p" if p: "p \<in> set space_seqs" for p
  proof
    assume "has_prefix (c # r) p"
    then obtain t where "c # r = p @ t" by (auto dest: has_prefixD)
    then have "c = hd p" using space_seqs_nonempty [OF p] by (cases p) auto
    then show False using Cons.prems p by auto
  qed
  then show ?case using Cons by (auto simp: list_ex_iff)
qed simp

lemma address_text_clean: "list_all address_char s \<Longrightarrow> \<not> contains_any s ''/?#@%'' \<and> \<not> has_space s"
  using address_char_range by (auto simp: list_all_iff contains_any_def list_ex_iff intro!: no_space_heads)

lemma valid_host_iff_canonical:
  assumes idna_hostname: "\<forall>h ascii. to_ascii h = Some ascii \<longrightarrow> \<not> has_space h \<and> \<not> contains_any h ''[]''"
  shows "validAdvertisedHost to_ascii host \<longleftrightarrow> canonicalHost to_ascii host \<noteq> None"
proof -
  let ?b = "has_prefix host ''[''"
  let ?addr = "if ?b then take (length host - 2) (drop 1 host) else host"
  show ?thesis
  proof (cases "host = [] \<or> has_suffix host ''.'' \<or> ?b \<and> \<not> has_suffix host '']''")
    case True
    then show ?thesis by (auto simp: validAdvertisedHost_def canonicalHost_def Let_def)
  next
    case ok: False
    show ?thesis
    proof (cases "ParseAddr ?addr")
      case (Some a)
      have clean: "Addr_Zone a = [] \<Longrightarrow> \<not> contains_any host ''/?#@%'' \<and> \<not> has_space host"
      proof -
        assume "Addr_Zone a = []"
        then have addr: "list_all address_char ?addr" using ParseAddr_chars Some by blast
        have "list_all address_char host"
        proof (cases ?b)
          case True
          then obtain r where r: "host = ''['' @ r" by (auto dest: has_prefixD)
          from ok True obtain q where "host = q @ '']''" by (auto dest: has_suffixD)
          then obtain q' where q': "r = q' @ '']''" using r by (cases q) auto
          then show ?thesis using r addr by (simp add: has_prefix_def address_char_parts)
        next
          case False
          then show ?thesis using addr by simp
        qed
        then show ?thesis by (rule address_text_clean)
      qed
      then show ?thesis using Some ok by (auto simp: validAdvertisedHost_def canonicalHost_def Let_def)
    next
      case None
      have any: "contains_any host ''[]:/?#@%'' \<longleftrightarrow> contains_any host ''[]'' \<or> contains_any host '':'' \<or> contains_any host ''/?#@%''"
        by (auto simp: contains_any_def list_ex_iff)
      have num: "list_all (\<lambda>c. \<not> (c \<noteq> CHR ''.'' \<and> \<not> digit c)) s \<longleftrightarrow> list_all (list_all digit) (split_byte (CHR ''.'') s)" for s
        unfolding numeric_labels by (simp add: list_all_iff)
      show ?thesis using None ok idna_hostname
        unfolding validAdvertisedHost_def canonicalHost_def Let_def any num
        by (auto split: option.splits)
    qed
  qed
qed

end
