(* ===== verification/Profiles.thy ===== *)
theory Profiles
  imports FileSource Host
begin

text \<open>
  Connection profiles, \<^verbatim>\<open>src/internal/profiles\<close>: which VLESS inbounds of the parsed xray config a
  user can be offered, under which advertised settings, and the share link of each.  The records of
  \<^verbatim>\<open>src/internal/advertisements/view.go\<close> it reads are here too; accessors that only copy are the
  fields themselves.

  A User ID parse of xray-core, the domain mapping of \<^verbatim>\<open>x/net/idna\<close> and the JSON canonicalization of
  \<^verbatim>\<open>gowebpki/jcs\<close> lie outside the repository and are the fields of a library record.  An index out of
  range is the outcome \<^term>\<open>None\<close>.
\<close>

section \<open>Advertisements\<close>

record adv_transport =
  at_Type :: string
  at_Path :: string
  at_Host :: string
  at_ServiceName :: string
  at_Mode :: string
  at_Authority :: string
  at_extra :: string
  at_extraPresent :: bool

record adv_security =
  as_Type :: string
  as_Fingerprint :: string
  as_ServerName :: string
  as_ECH :: string
  as_VerifyName :: string
  as_PublicKey :: string
  as_ShortID :: string
  as_ShortIDPresent :: bool
  as_PostQuantumVerify :: string
  as_SpiderX :: string
  as_alpn :: "string list"
  as_certificatePins :: "string list"

record advertisement =
  ad_InboundTag :: string
  ad_Name :: string
  ad_Topology :: string
  ad_Host :: string
  ad_Port :: "16 word"
  ad_Transport :: adv_transport
  ad_Security :: adv_security
  ad_validationError :: "string option"
  ad_duplicate :: bool

abbreviation TopologyDirect :: string where "TopologyDirect \<equiv> ''direct''"
abbreviation TransportTCP :: string where "TransportTCP \<equiv> ''tcp''"
abbreviation TransportWebSocket :: string where "TransportWebSocket \<equiv> ''ws''"
abbreviation TransportHTTPUpgrade :: string where "TransportHTTPUpgrade \<equiv> ''httpupgrade''"
abbreviation TransportGRPC :: string where "TransportGRPC \<equiv> ''grpc''"
abbreviation TransportXHTTP :: string where "TransportXHTTP \<equiv> ''xhttp''"
abbreviation SecurityTLS :: string where "SecurityTLS \<equiv> ''tls''"
abbreviation SecurityReality :: string where "SecurityReality \<equiv> ''reality''"
abbreviation SecurityNone :: string where "SecurityNone \<equiv> ''none''"

section \<open>Profiles\<close>

datatype profile_state = StateReady | StateDisabledUser | StateNoMatchingInbound | StateSourceUnavailable

datatype profile_reason =
    ReasonSourceUnavailable
  | ReasonAdvertisementMissing
  | ReasonAdvertisementInvalid
  | ReasonDuplicateInboundTag
  | ReasonDuplicateUser
  | ReasonInboundTagMissing
  | ReasonReverseUser
  | ReasonUnsupportedTransport
  | ReasonUnsupportedSecurity
  | ReasonUnsupportedEncryption
  | ReasonInsecureConnection
  | ReasonInboundMismatch
  | ReasonInvalidClientID

datatype profile_source = SourceXrayConfig | SourceAdvertisements

record profile_sources =
  ps_XrayView :: view
  ps_XrayAvailable :: bool
  ps_XrayLoadedAt :: int
  ps_XrayStale :: bool
  ps_XrayError :: "source_error option"
  ps_AdvertisementsView :: "advertisement list"
  ps_AdvertisementsConfigured :: bool
  ps_AdvertisementsAvailable :: bool
  ps_AdvertisementsLoadedAt :: int
  ps_AdvertisementsStale :: bool
  ps_AdvertisementsError :: "source_error option"

definition SourcesFromSnapshots ::
  "parsed source_snapshot \<Rightarrow> advertisement list source_snapshot \<Rightarrow> profile_sources" where
  "SourcesFromSnapshots xray advertised = \<lparr>
     ps_XrayView = pd_View (sn_Value xray), ps_XrayAvailable = sn_available xray, ps_XrayLoadedAt = sn_LoadedAt xray,
     ps_XrayStale = sn_Stale xray, ps_XrayError = sn_Error xray,
     ps_AdvertisementsView = sn_Value advertised, ps_AdvertisementsConfigured = sn_configured advertised,
     ps_AdvertisementsAvailable = sn_available advertised, ps_AdvertisementsLoadedAt = sn_LoadedAt advertised,
     ps_AdvertisementsStale = sn_Stale advertised, ps_AdvertisementsError = sn_Error advertised\<rparr>"

record profile_transport =
  pt_Type :: string
  pt_Path :: string
  pt_Host :: string
  pt_ServiceName :: string
  pt_Mode :: string
  pt_Authority :: string
  pt_Extra :: "string option"

record profile_security =
  pc_Type :: string
  pc_Fingerprint :: string
  pc_ServerName :: string
  pc_ALPN :: "string list"
  pc_ECH :: string
  pc_CertificatePins :: "string list"
  pc_VerifyName :: string
  pc_PublicKey :: string
  pc_ShortID :: string
  pc_ShortIDPresent :: bool
  pc_PostQuantumVerify :: string
  pc_SpiderX :: string

record available =
  av_InboundTag :: string
  av_Name :: string
  av_Topology :: string
  av_ClientID :: string
  av_Flow :: "string option"
  av_EndpointHost :: string
  av_EndpointPort :: "16 word"
  av_Transport :: profile_transport
  av_Security :: profile_security
  av_URI :: string

record unavailable_profile =
  un_InboundTag :: "string option"
  un_Name :: "string option"
  un_Reason :: profile_reason
  un_Message :: string

datatype profile_item = Available available | Unavailable unavailable_profile

record profile_collection =
  cn_State :: profile_state
  cn_LoadedAt :: "int option"
  cn_Stale :: bool
  cn_Errors :: "(profile_source \<times> source_error) list"
  cn_Items :: "profile_item list"

record profile_lib =
  pl_uuid :: "string \<Rightarrow> string option"
  pl_to_ascii :: "string \<Rightarrow> string option"
  pl_jcs :: "string \<Rightarrow> string option"

section \<open>The share link\<close>

definition isURIComponentByte :: "char \<Rightarrow> bool" where
  "isURIComponentByte c \<longleftrightarrow> (let n = (of_char c :: nat) in
     97 \<le> n \<and> n \<le> 122 \<or> 65 \<le> n \<and> n \<le> 90 \<or> 48 \<le> n \<and> n \<le> 57) \<or>
     c \<in> set [CHR ''-'', CHR ''_'', CHR ''.'', CHR ''!'', CHR ''~'', CHR ''*'', CHR 0x27, CHR ''('', CHR '')'']"

definition upper_hex_digit :: "nat \<Rightarrow> char" where
  "upper_hex_digit n = (if n < 10 then char_of (48 + n) else char_of (55 + n))"

definition encodeURIComponent :: "string \<Rightarrow> string" where
  "encodeURIComponent v = concat (map (\<lambda>c. if isURIComponentByte c then [c]
     else [CHR ''%'', upper_hex_digit (of_char c div 16), upper_hex_digit (of_char c mod 16)]) v)"

definition opt_field :: "bool \<Rightarrow> string \<Rightarrow> string \<Rightarrow> (string \<times> string) list" where
  "opt_field present name v = (if present then [(name, v)] else [])"

definition transport_fields :: "profile_transport \<Rightarrow> (string \<times> string) list" where
  "transport_fields t =
     (if pt_Type t = ''ws'' \<or> pt_Type t = ''httpupgrade'' then [(''path'', pt_Path t), (''host'', pt_Host t)]
      else if pt_Type t = ''grpc'' then
        [(''serviceName'', pt_ServiceName t), (''mode'', pt_Mode t)] @ opt_field (pt_Authority t \<noteq> []) ''authority'' (pt_Authority t)
      else if pt_Type t = ''xhttp'' then
        [(''path'', pt_Path t), (''host'', pt_Host t), (''mode'', pt_Mode t)] @
        (case pt_Extra t of None \<Rightarrow> [] | Some extra \<Rightarrow> [(''extra'', extra)])
      else [])"

definition security_fields :: "profile_security \<Rightarrow> (string \<times> string) list" where
  "security_fields s =
     [(''fp'', pc_Fingerprint s), (''sni'', pc_ServerName s)] @
     (if pc_Type s = ''tls'' then
        opt_field (pc_ALPN s \<noteq> []) ''alpn'' (join '','' (pc_ALPN s)) @
        opt_field (pc_ECH s \<noteq> []) ''ech'' (pc_ECH s) @
        opt_field (pc_CertificatePins s \<noteq> []) ''pcs'' (join '','' (pc_CertificatePins s)) @
        opt_field (pc_VerifyName s \<noteq> []) ''vcn'' (pc_VerifyName s)
      else if pc_Type s = ''reality'' then
        [(''pbk'', pc_PublicKey s)] @
        opt_field (pc_ShortIDPresent s) ''sid'' (pc_ShortID s) @
        opt_field (pc_PostQuantumVerify s \<noteq> []) ''pqv'' (pc_PostQuantumVerify s) @
        opt_field (pc_SpiderX s \<noteq> []) ''spx'' (pc_SpiderX s)
      else [])"

definition uri_fields :: "available \<Rightarrow> (string \<times> string) list" where
  "uri_fields profile =
     [(''type'', pt_Type (av_Transport profile)), (''encryption'', ''none'')] @
     (case av_Flow profile of None \<Rightarrow> [] | Some flow \<Rightarrow> [(''flow'', flow)]) @
     [(''security'', pc_Type (av_Security profile))] @
     transport_fields (av_Transport profile) @ security_fields (av_Security profile)"

definition profile_label :: "string \<Rightarrow> available \<Rightarrow> string" where
  "profile_label email profile = email @ [CHR '' '', CHR 0xC2, CHR 0xB7, CHR '' ''] @ av_Name profile"

definition serializeURI :: "string \<Rightarrow> available \<Rightarrow> string" where
  "serializeURI email profile =
     (let query = join ''&'' (map (\<lambda>(name, v). name @ ''='' @ encodeURIComponent v) (uri_fields profile));
          fragment = encodeURIComponent (profile_label email profile) in
      ''vless://'' @ av_ClientID profile @ ''@'' @ av_EndpointHost profile @ '':'' @
      decimal (unat (av_EndpointPort profile)) @ ''?'' @ query @ ''#'' @ fragment)"

section \<open>Checks\<close>

definition defaultNone :: "string \<Rightarrow> string" where
  "defaultNone v = (if v = [] then ''none'' else v)"

definition supportedTransport :: "string \<Rightarrow> bool" where
  "supportedTransport t \<longleftrightarrow>
     t \<in> set [TransportTCP, TransportWebSocket, TransportHTTPUpgrade, TransportGRPC, TransportXHTTP]"

definition canonicalInboundTransport :: "string \<Rightarrow> string option" where
  "canonicalInboundTransport v =
     (let l = to_lower v in
      if l \<in> set ['''', ''raw'', ''tcp''] then Some TransportTCP
      else if l \<in> set [''ws'', ''websocket''] then Some TransportWebSocket
      else if l = ''httpupgrade'' then Some TransportHTTPUpgrade
      else if l = ''grpc'' then Some TransportGRPC
      else if l \<in> set [''xhttp'', ''splithttp''] then Some TransportXHTTP
      else None)"

definition supportedSecurity :: "string \<Rightarrow> bool" where
  "supportedSecurity s \<longleftrightarrow> s \<in> set [SecurityTLS, SecurityReality, SecurityNone]"

definition canonicalInboundSecurity :: "string \<Rightarrow> string option" where
  "canonicalInboundSecurity v =
     (let l = to_lower v in
      if l \<in> set ['''', ''none''] then Some SecurityNone
      else if l = ''tls'' then Some SecurityTLS
      else if l = ''reality'' then Some SecurityReality
      else None)"

definition unsupportedDirectTransportFeature :: "inbound \<Rightarrow> bool" where
  "unsupportedDirectTransportFeature ib \<longleftrightarrow>
     ib_FinalMaskConfigured ib \<or>
     canonicalInboundTransport (ib_TransportType ib) = Some TransportTCP \<and> ib_RawHeaderConfigured ib \<and>
     \<not> equal_fold (defaultNone (ib_RawHeaderType ib)) ''none''"

definition containsFold :: "string list \<Rightarrow> string \<Rightarrow> bool" where
  "containsFold vs wanted = list_ex (\<lambda>v. equal_fold v wanted) vs"

definition emptyRealityShortIDAccepted :: "inbound \<Rightarrow> advertisement \<Rightarrow> bool" where
  "emptyRealityShortIDAccepted ib a \<longleftrightarrow>
     as_Type (ad_Security a) \<noteq> SecurityReality \<or> as_ShortID (ad_Security a) \<noteq> [] \<or>
     containsFold (ib_Reality_ShortIDs ib) []"

abbreviation vision :: string where "vision \<equiv> ''xtls-rprx-vision''"

definition compatibleShape :: "string \<Rightarrow> string \<Rightarrow> string \<Rightarrow> bool" where
  "compatibleShape flow transport security =
     (if flow \<noteq> [] \<and> flow \<noteq> vision then False
      else if security = SecurityReality \<and> transport \<noteq> TransportTCP \<and> transport \<noteq> TransportGRPC \<and> transport \<noteq> TransportXHTTP
      then False
      else if flow = vision
      then transport = TransportTCP \<and> (security = SecurityTLS \<or> security = SecurityReality)
      else True)"

definition normalizedPath :: "string \<Rightarrow> string" where
  "normalizedPath p = (if p = [] then ''/'' else p)"

definition normalizedXHTTPMode :: "string \<Rightarrow> string" where
  "normalizedXHTTPMode m = (if m = [] then ''auto'' else m)"

definition equalHost :: "profile_lib \<Rightarrow> string \<Rightarrow> string \<Rightarrow> bool" where
  "equalHost L a b =
     (case (canonicalHost (pl_to_ascii L) a, canonicalHost (pl_to_ascii L) b) of
        (Some x, Some y) \<Rightarrow> x = y
      | _ \<Rightarrow> equal_fold a b)"

definition acceptedHost :: "profile_lib \<Rightarrow> string \<Rightarrow> string \<Rightarrow> bool" where
  "acceptedHost L inboundHost advertisedHost \<longleftrightarrow> inboundHost = [] \<or> equalHost L inboundHost advertisedHost"

definition containsHost :: "profile_lib \<Rightarrow> string list \<Rightarrow> string \<Rightarrow> bool" where
  "containsHost L hosts wanted = list_ex (\<lambda>h. equalHost L h wanted) hosts"

text \<open>Everything before the last slash, and the names behind it; the text starts with a slash and does not end with one.\<close>

definition splitGRPCService :: "string \<Rightarrow> (string \<times> string list) option" where
  "splitGRPCService service =
     (let last = rev (takeWhile (\<lambda>c. c \<noteq> CHR ''/'') (rev service));
          lastSlash = int (length service) - int (length last) - 1 in
      if \<not> has_prefix service ''/'' \<or> lastSlash < 1 \<or> last = [] then None
      else Some (take (nat lastSlash) service, split_byte (CHR ''|'') last))"

definition acceptedGRPCService :: "string \<Rightarrow> string \<Rightarrow> string \<Rightarrow> bool" where
  "acceptedGRPCService inbound advertised mode =
     (if \<not> has_prefix inbound ''/'' then inbound = advertised
      else case splitGRPCService inbound of
        None \<Rightarrow> False
      | Some (serverPrefix, serverNames) \<Rightarrow>
          if serverNames = [] \<or> contains_any advertised ''|'' then False
          else case splitGRPCService advertised of
            None \<Rightarrow> False
          | Some (clientPrefix, clientNames) \<Rightarrow>
              if length clientNames \<noteq> 1 \<or> clientPrefix \<noteq> serverPrefix then False
              else
                let wanted = (if mode = ''multi'' \<and> 1 < length serverNames then serverNames ! 1 else serverNames ! 0)
                in clientNames ! 0 = wanted)"

definition directMatch :: "profile_lib \<Rightarrow> inbound \<Rightarrow> string \<Rightarrow> string \<Rightarrow> advertisement \<Rightarrow> bool" where
  "directMatch L ib inboundTransport inboundSecurity a =
     (let t = ad_Transport a; s = ad_Security a in
      if inboundTransport \<noteq> at_Type t \<or> inboundSecurity \<noteq> as_Type s then False
      else if inboundTransport = TransportWebSocket \<and>
        (normalizedPath (hs_Path (ib_WebSocket ib)) \<noteq> at_Path t \<or> \<not> acceptedHost L (hs_Host (ib_WebSocket ib)) (at_Host t)) then False
      else if inboundTransport = TransportHTTPUpgrade \<and>
        (normalizedPath (hs_Path (ib_HTTPUpgrade ib)) \<noteq> at_Path t \<or> \<not> acceptedHost L (hs_Host (ib_HTTPUpgrade ib)) (at_Host t)) then False
      else if inboundTransport = TransportGRPC \<and>
        \<not> acceptedGRPCService (gc_ServiceName (ib_GRPC ib)) (at_ServiceName t) (at_Mode t) then False
      else if inboundTransport = TransportXHTTP \<and>
        (normalizedPath (xs_Path (ib_XHTTP ib)) \<noteq> at_Path t \<or> \<not> acceptedHost L (xs_Host (ib_XHTTP ib)) (at_Host t) \<or>
         normalizedXHTTPMode (xs_Mode (ib_XHTTP ib)) \<noteq> at_Mode t) then False
      else if inboundSecurity = SecurityTLS \<and> ib_TLS_RejectUnknownSNI ib \<and> ib_TLS_ServerName ib \<noteq> [] \<and>
        \<not> equalHost L (ib_TLS_ServerName ib) (as_ServerName s) then False
      else if inboundSecurity = SecurityReality \<and>
        (\<not> containsHost L (ib_Reality_ServerNames ib) (as_ServerName s) \<or>
         \<not> containsFold (ib_Reality_ShortIDs ib) (as_ShortID s)) then False
      else True)"

text \<open>
  \<^verbatim>\<open>base64.RawURLEncoding\<close>: line breaks are skipped, and a final group of one character is an error;
  \<^verbatim>\<open>hex.DecodeString\<close> accepts both cases.
\<close>

definition base64url_digit :: "char \<Rightarrow> nat option" where
  "base64url_digit c =
     (let n = of_char c in
      if 65 \<le> n \<and> n \<le> 90 then Some (n - 65)
      else if 97 \<le> n \<and> n \<le> 122 then Some (n - 71)
      else if 48 \<le> n \<and> n \<le> 57 then Some (n + 4)
      else if c = CHR ''-'' then Some 62 else if c = CHR ''_'' then Some 63 else None)"

fun base64_groups :: "nat list \<Rightarrow> string option" where
  "base64_groups [] = Some []"
| "base64_groups [a] = None"
| "base64_groups [a, b] = Some [char_of (4 * a + b div 16)]"
| "base64_groups [a, b, c] = Some [char_of (4 * a + b div 16), char_of (16 * (b mod 16) + c div 4)]"
| "base64_groups (a # b # c # d # r) =
     map_option (\<lambda>t. char_of (4 * a + b div 16) # char_of (16 * (b mod 16) + c div 4) # char_of (64 * (c mod 4) + d) # t)
       (base64_groups r)"

definition base64url_decode :: "string \<Rightarrow> string option" where
  "base64url_decode s =
     (let ds = map base64url_digit (filter (\<lambda>c. c \<noteq> CHR 0x0A \<and> c \<noteq> CHR 0x0D) s) in
      if None \<in> set ds then None else base64_groups (map the ds))"

definition hex_decodes :: "string \<Rightarrow> bool" where
  "hex_decodes s \<longleftrightarrow> even (length s) \<and> list_all hex_char s"

definition invalidClientValues :: "profile_lib \<Rightarrow> advertisement \<Rightarrow> string" where
  "invalidClientValues L a =
     (let s = ad_Security a; canonical = canonicalHost (pl_to_ascii L) in
      if canonical (ad_Host a) = None then ''The advertised public host cannot be canonicalized.''
      else if as_Type s \<noteq> SecurityTLS \<and> as_Type s \<noteq> SecurityReality then []
      else if canonical (as_ServerName s) = None then ''The advertised security server_name is not a valid host.''
      else if as_Type s = SecurityTLS \<and> as_VerifyName s \<noteq> [] \<and> canonical (as_VerifyName s) = None
        then ''The advertised TLS verify_name is not a valid host.''
      else if as_Type s \<noteq> SecurityReality then []
      else if map_option length (base64url_decode (as_PublicKey s)) \<noteq> Some 32
        then ''The advertised REALITY public_key is not a valid X25519 public key.''
      else if 16 < length (as_ShortID s) then ''The advertised REALITY short_id is not valid hexadecimal data.''
      else if \<not> hex_decodes (as_ShortID s) then ''The advertised REALITY short_id is not valid hexadecimal data.''
      else if as_PostQuantumVerify s \<noteq> [] \<and> map_option length (base64url_decode (as_PostQuantumVerify s)) \<noteq> Some 1952
        then ''The advertised REALITY post_quantum_verify value is invalid.''
      else if as_SpiderX s \<noteq> [] \<and> \<not> has_prefix (as_SpiderX s) ''/''
        then ''The advertised REALITY spider_x must start with a slash.''
      else [])"


section \<open>Evaluation\<close>

definition buildAvailable :: "profile_lib \<Rightarrow> string \<Rightarrow> string \<Rightarrow> string \<Rightarrow> advertisement \<Rightarrow> available option" where
  "buildAvailable L email clientID flow a =
     (let t = ad_Transport a; s = ad_Security a; canonical = canonicalHost (pl_to_ascii L) in
      case canonical (ad_Host a) of
        None \<Rightarrow> None
      | Some host \<Rightarrow>
          case (if at_extraPresent t then map_option Some (pl_jcs L (at_extra t)) else Some None) of
            None \<Rightarrow> None
          | Some extra \<Rightarrow>
              case canonical (as_ServerName s) of
                None \<Rightarrow> None
              | Some serverName \<Rightarrow>
                  case (if as_VerifyName s \<noteq> [] then canonical (as_VerifyName s) else Some []) of
                    None \<Rightarrow> None
                  | Some verifyName \<Rightarrow>
                      let profile = \<lparr>av_InboundTag = ad_InboundTag a, av_Name = ad_Name a, av_Topology = ad_Topology a,
                            av_ClientID = clientID, av_Flow = (if flow \<noteq> [] then Some flow else None),
                            av_EndpointHost = host, av_EndpointPort = ad_Port a,
                            av_Transport = \<lparr>pt_Type = at_Type t, pt_Path = at_Path t, pt_Host = at_Host t,
                              pt_ServiceName = at_ServiceName t, pt_Mode = at_Mode t, pt_Authority = at_Authority t, pt_Extra = extra\<rparr>,
                            av_Security = \<lparr>pc_Type = as_Type s, pc_Fingerprint = as_Fingerprint s, pc_ServerName = serverName,
                              pc_ALPN = as_alpn s, pc_ECH = as_ECH s, pc_CertificatePins = as_certificatePins s,
                              pc_VerifyName = verifyName, pc_PublicKey = as_PublicKey s, pc_ShortID = as_ShortID s,
                              pc_ShortIDPresent = as_ShortIDPresent s, pc_PostQuantumVerify = as_PostQuantumVerify s,
                              pc_SpiderX = as_SpiderX s\<rparr>,
                            av_URI = []\<rparr>
                      in Some (profile\<lparr>av_URI := serializeURI email profile\<rparr>))"

definition matchingUsers :: "string \<Rightarrow> inbound_user list \<Rightarrow> inbound_user list" where
  "matchingUsers email users = filter (\<lambda>u. \<not> iu_Email u \<noteq> email) users"

definition nonempty :: "string \<Rightarrow> string option" where
  "nonempty s = (if s = [] then None else Some s)"

definition unavailableIdentity :: "inbound \<Rightarrow> advertisement option \<Rightarrow> string option \<times> string option" where
  "unavailableIdentity ib a = (nonempty (ib_Tag ib), case a of None \<Rightarrow> None | Some adv \<Rightarrow> nonempty (ad_Name adv))"

definition duplicateAdvertisementName :: "advertisement list \<Rightarrow> string option" where
  "duplicateAdvertisementName selected = (case selected of [a] \<Rightarrow> nonempty (ad_Name a) | _ \<Rightarrow> None)"

definition unavailable :: "string option \<Rightarrow> string option \<Rightarrow> profile_reason \<Rightarrow> string \<Rightarrow> profile_item" where
  "unavailable tag name r message =
     Unavailable \<lparr>un_InboundTag = tag, un_Name = name, un_Reason = r, un_Message = message\<rparr>"

text \<open>The message of each reason; an invalid advertisement has its own, and this one when it cannot be serialized.\<close>

fun profile_message :: "profile_reason \<Rightarrow> string" where
  "profile_message ReasonInboundTagMissing = ''The matching VLESS inbound has no tag.''"
| "profile_message ReasonDuplicateInboundTag = ''The inbound tag does not identify one unique inbound and advertisement.''"
| "profile_message ReasonDuplicateUser = ''The User appears more than once in this inbound.''"
| "profile_message ReasonReverseUser = ''The matching User is configured for reverse connections.''"
| "profile_message ReasonSourceUnavailable = ''The configured Advertised connection settings have not loaded successfully.''"
| "profile_message ReasonAdvertisementMissing = ''No Advertised connection settings select this inbound.''"
| "profile_message ReasonInvalidClientID = ''The configured Client ID cannot be converted to a UUID.''"
| "profile_message ReasonUnsupportedTransport = ''The applicable transport is not supported for Connection profiles.''"
| "profile_message ReasonUnsupportedSecurity = ''The applicable transport security is not supported for Connection profiles.''"
| "profile_message ReasonUnsupportedEncryption = ''The inbound requires unsupported VLESS Encryption.''"
| "profile_message ReasonInsecureConnection = ''An unsecured VLESS profile is not available.''"
| "profile_message ReasonInboundMismatch = ''The advertised client view is incompatible with the matching inbound or effective flow.''"
| "profile_message ReasonAdvertisementInvalid = ''The Advertised connection settings cannot be serialized canonically.''"

definition refuse :: "string option \<Rightarrow> string option \<Rightarrow> profile_reason \<Rightarrow> profile_item" where
  "refuse tag name r = unavailable tag name r (profile_message r)"

definition effective_flow :: "inbound_user \<Rightarrow> inbound \<Rightarrow> string" where
  "effective_flow user ib = (if iu_Flow user = [] then ib_Flow ib else iu_Flow user)"

definition direct_supported :: "inbound \<Rightarrow> advertisement \<Rightarrow> bool" where
  "direct_supported ib a \<longleftrightarrow> ad_Topology a = TopologyDirect \<longrightarrow>
     canonicalInboundTransport (ib_TransportType ib) \<noteq> None \<and> \<not> unsupportedDirectTransportFeature ib"

definition direct_secured :: "inbound \<Rightarrow> advertisement \<Rightarrow> bool" where
  "direct_secured ib a \<longleftrightarrow> ad_Topology a = TopologyDirect \<longrightarrow> canonicalInboundSecurity (ib_SecurityType ib) \<noteq> None"

definition direct_matches :: "profile_lib \<Rightarrow> inbound \<Rightarrow> advertisement \<Rightarrow> bool" where
  "direct_matches L ib a \<longleftrightarrow> ad_Topology a = TopologyDirect \<longrightarrow>
     directMatch L ib (case canonicalInboundTransport (ib_TransportType ib) of None \<Rightarrow> [] | Some t \<Rightarrow> t)
       (case canonicalInboundSecurity (ib_SecurityType ib) of None \<Rightarrow> [] | Some t \<Rightarrow> t) a"

text \<open>The second half of \<^verbatim>\<open>evaluateInbound\<close>: the selected advertisement is valid and the Client ID parsed.\<close>

definition evaluateSelected ::
  "profile_lib \<Rightarrow> string \<Rightarrow> inbound \<Rightarrow> inbound_user \<Rightarrow> string \<Rightarrow> advertisement \<Rightarrow> (profile_reason \<Rightarrow> profile_item) \<Rightarrow> profile_item" where
  "evaluateSelected L email ib user clientID a no =
     (let ttype = at_Type (ad_Transport a); stype = as_Type (ad_Security a); flow = effective_flow user ib in
      if \<not> supportedTransport ttype \<or> \<not> direct_supported ib a then no ReasonUnsupportedTransport
      else if \<not> supportedSecurity stype \<or> \<not> direct_secured ib a then no ReasonUnsupportedSecurity
      else if \<not> equal_fold (defaultNone (ib_Decryption ib)) ''none'' then no ReasonUnsupportedEncryption
      else if stype = SecurityNone then no ReasonInsecureConnection
      else if \<not> compatibleShape flow ttype stype \<or> \<not> emptyRealityShortIDAccepted ib a \<or> \<not> direct_matches L ib a
      then no ReasonInboundMismatch
      else case buildAvailable L email clientID flow a of
        None \<Rightarrow> no ReasonAdvertisementInvalid
      | Some profile \<Rightarrow> Available profile)"

definition evaluateInbound ::
  "profile_lib \<Rightarrow> string \<Rightarrow> inbound \<Rightarrow> nat \<Rightarrow> advertisement list \<Rightarrow> profile_sources \<Rightarrow> profile_item option" where
  "evaluateInbound L email ib duplicateTagCount selected src =
     (let users = matchingUsers email (ib_users ib);
          advertisement = (case selected of [a] \<Rightarrow> Some a | _ \<Rightarrow> None);
          (tag, name) = unavailableIdentity ib advertisement in
      if ib_Tag ib = [] then Some (refuse None None ReasonInboundTagMissing)
      else if 1 < duplicateTagCount \<or> 1 < length selected then
        Some (refuse tag (duplicateAdvertisementName selected) ReasonDuplicateInboundTag)
      else if 1 < length users then Some (refuse tag name ReasonDuplicateUser)
      else case users of
        [] \<Rightarrow> None
      | user # _ \<Rightarrow>
          if iu_Reverse user then Some (refuse tag name ReasonReverseUser)
          else if ps_AdvertisementsConfigured src \<and> \<not> ps_AdvertisementsAvailable src then
            Some (refuse tag None ReasonSourceUnavailable)
          else case (if ps_AdvertisementsConfigured src then advertisement else None) of
            None \<Rightarrow> Some (refuse tag None ReasonAdvertisementMissing)
          | Some a \<Rightarrow>
              (case ad_validationError a of
                 Some problem \<Rightarrow> Some (unavailable tag name ReasonAdvertisementInvalid problem)
               | None \<Rightarrow>
                   if invalidClientValues L a \<noteq> []
                   then Some (unavailable tag name ReasonAdvertisementInvalid (invalidClientValues L a))
                   else case pl_uuid L (iu_ClientID user) of
                     None \<Rightarrow> Some (refuse tag name ReasonInvalidClientID)
                   | Some clientID \<Rightarrow> Some (evaluateSelected L email ib user clientID a (refuse tag name))))"

definition sourceState :: "profile_sources \<Rightarrow> profile_collection" where
  "sourceState src = \<lparr>
     cn_State = StateReady,
     cn_LoadedAt = (if ps_XrayAvailable src \<and> ps_XrayLoadedAt src \<noteq> 0 then
         Some (if ps_AdvertisementsAvailable src \<and> ps_AdvertisementsLoadedAt src \<noteq> 0 \<and>
             ps_AdvertisementsLoadedAt src < ps_XrayLoadedAt src
           then ps_AdvertisementsLoadedAt src else ps_XrayLoadedAt src)
       else None),
     cn_Stale = (ps_XrayStale src \<or> ps_AdvertisementsStale src),
     cn_Errors = (case ps_XrayError src of None \<Rightarrow> [] | Some e \<Rightarrow> [(SourceXrayConfig, e)]) @
       (case ps_AdvertisementsError src of None \<Rightarrow> [] | Some e \<Rightarrow> [(SourceAdvertisements, e)]),
     cn_Items = []\<rparr>"

definition vless_member :: "string \<Rightarrow> inbound \<Rightarrow> bool" where
  "vless_member email ib \<longleftrightarrow>
     equal_fold (ib_Protocol ib) ''vless'' \<and> list_ex (\<lambda>u. iu_Email u = email) (ib_users ib)"

definition tagCount :: "view \<Rightarrow> string \<Rightarrow> nat" where
  "tagCount inbounds tag = (if tag = [] then 0 else length (filter (\<lambda>ib. ib_Tag ib = tag) inbounds))"

definition advertisementsByTag :: "profile_sources \<Rightarrow> string \<Rightarrow> advertisement list" where
  "advertisementsByTag src tag =
     (if ps_AdvertisementsAvailable src then filter (\<lambda>a. ad_InboundTag a = tag) (ps_AdvertisementsView src) else [])"

definition Evaluate :: "profile_lib \<Rightarrow> string \<Rightarrow> bool \<Rightarrow> profile_sources \<Rightarrow> profile_collection option" where
  "Evaluate L email disabled src =
     (let coll = sourceState src in
      if disabled then Some (coll\<lparr>cn_State := StateDisabledUser, cn_Items := []\<rparr>)
      else if \<not> ps_XrayAvailable src then Some (coll\<lparr>cn_State := StateSourceUnavailable, cn_Items := []\<rparr>)
      else
        let inbounds = ps_XrayView src; matching = filter (vless_member email) inbounds in
        if matching = [] then Some (coll\<lparr>cn_State := StateNoMatchingInbound, cn_Items := []\<rparr>)
        else map_option (\<lambda>items. coll\<lparr>cn_State := StateReady, cn_Items := items\<rparr>)
          (those (map (\<lambda>ib. evaluateInbound L email ib (tagCount inbounds (ib_Tag ib))
             (advertisementsByTag src (ib_Tag ib)) src) matching)))"


section \<open>Reading a share link\<close>

text \<open>
  The reference reader: the generic syntax of a URI, split at the first fragment, query and user
  delimiters and the last colon, the query at its separators, values percent-decoded.
\<close>

fun percent_decode :: "string \<Rightarrow> string option" where
  "percent_decode [] = Some []"
| "percent_decode (c # r) =
     (if c = CHR ''%'' then
        (case r of
           a # b # r' \<Rightarrow> if hex_char a \<and> hex_char b
             then map_option ((#) (char_of (hex_value [a, b]))) (percent_decode r') else None
         | _ \<Rightarrow> None)
      else map_option ((#) c) (percent_decode r))"

definition cut :: "char \<Rightarrow> string \<Rightarrow> string \<times> string" where
  "cut c s = (takeWhile (\<lambda>x. x \<noteq> c) s, drop 1 (dropWhile (\<lambda>x. x \<noteq> c) s))"

definition cut_last :: "char \<Rightarrow> string \<Rightarrow> string \<times> string" where
  "cut_last c s = (case cut c (rev s) of (a, b) \<Rightarrow> (rev b, rev a))"

definition read_field :: "string \<Rightarrow> (string \<times> string) option" where
  "read_field s = (case cut (CHR ''='') s of (name, v) \<Rightarrow> map_option (Pair name) (percent_decode v))"

record share_link =
  sl_ClientID :: string
  sl_Host :: string
  sl_Port :: nat
  sl_Fields :: "(string \<times> string) list"
  sl_Label :: string

definition read_link :: "string \<Rightarrow> share_link option" where
  "read_link uri =
     (if \<not> has_prefix uri ''vless://'' then None
      else case cut (CHR ''#'') (drop 8 uri) of (main, fragment) \<Rightarrow>
        case cut (CHR ''?'') main of (authority, query) \<Rightarrow>
          case cut (CHR ''@'') authority of (clientID, endpoint) \<Rightarrow>
            case cut_last (CHR '':'') endpoint of (host, port) \<Rightarrow>
              case (those (map read_field (split_byte (CHR ''&'') query)), percent_decode fragment) of
                (Some fs, Some text) \<Rightarrow> Some \<lparr>sl_ClientID = clientID, sl_Host = host, sl_Port = decimal_value port,
                  sl_Fields = fs, sl_Label = text\<rparr>
              | _ \<Rightarrow> None)"

lemma cut_append: "c \<notin> set a \<Longrightarrow> cut c (a @ c # b) = (a, b)"
  by (induction a) (auto simp: cut_def)

lemma cut_last_append: "c \<notin> set b \<Longrightarrow> cut_last c (a @ c # b) = (a, b)"
  by (simp add: cut_last_def cut_append)

lemma split_byte_append: "c \<notin> set w \<Longrightarrow> split_byte c (w @ c # s) = w # split_byte c s"
  by (induction w) auto

lemma split_byte_alone: "c \<notin> set w \<Longrightarrow> split_byte c w = [w]"
  by (induction w) auto

lemma split_byte_join: "ws \<noteq> [] \<Longrightarrow> \<forall>w \<in> set ws. c \<notin> set w \<Longrightarrow> split_byte c (join [c] ws) = ws"
  by (induction "[c]" ws rule: join.induct) (auto simp: split_byte_append split_byte_alone)

subsection \<open>Percent encoding\<close>

lemma of_char_upper_hex: "n < 16 \<Longrightarrow> (of_char (upper_hex_digit n) :: nat) = (if n < 10 then 48 + n else 55 + n)"
  by (simp add: upper_hex_digit_def)

lemma upper_hex_digit_char: "n < 16 \<Longrightarrow> hex_char (upper_hex_digit n) \<and> hex_digit_value (upper_hex_digit n) = n"
  by (auto simp: hex_char_def hex_digit_value_def digit_def of_char_upper_hex Let_def)

lemma byte_range: "(of_char c :: nat) < 256"
  by (metis nat_of_char_less_256)

lemma high_nibble: "(of_char c :: nat) div 16 < 16"
  using byte_range [of c] by (intro less_mult_imp_div_less) simp

lemma hex_byte: "char_of (hex_value [upper_hex_digit (of_char c div 16), upper_hex_digit (of_char c mod 16)]) = (c :: char)"
proof -
  have "16 * ((of_char c :: nat) div 16) + of_char c mod 16 = of_char c" by (rule mult_div_mod_eq)
  then show ?thesis using high_nibble [of c] by (simp add: hex_value_def upper_hex_digit_char)
qed

lemma encode_Cons: "encodeURIComponent (c # v) = (if isURIComponentByte c then [c]
     else [CHR ''%'', upper_hex_digit (of_char c div 16), upper_hex_digit (of_char c mod 16)]) @ encodeURIComponent v"
  by (simp add: encodeURIComponent_def)

lemma component_decodes_back: "percent_decode (encodeURIComponent v) = Some v"
proof (induction v)
  case (Cons c v)
  have "isURIComponentByte c \<Longrightarrow> c \<noteq> CHR ''%''" by (auto simp: isURIComponentByte_def)
  then show ?case using Cons high_nibble [of c] by (auto simp: encode_Cons upper_hex_digit_char hex_byte)
qed (simp add: encodeURIComponent_def)

text \<open>The delimiters of a link never appear in an encoded component.\<close>

definition delimiter :: "char \<Rightarrow> bool" where
  "delimiter c \<longleftrightarrow> c \<in> set ''#?@&=:/''"

lemma encoded_no_delimiter: "list_all (\<lambda>c. \<not> delimiter c) (encodeURIComponent v)"
proof (induction v)
  case (Cons c v)
  have h: "\<not> delimiter (upper_hex_digit n)" if "n < 16" for n
    using of_char_upper_hex [OF that] by (auto simp: delimiter_def split: if_splits)
  have "isURIComponentByte c \<Longrightarrow> \<not> delimiter c" by (auto simp: isURIComponentByte_def delimiter_def)
  moreover have "\<not> delimiter (CHR ''%'')" by (simp add: delimiter_def)
  ultimately show ?case using Cons h high_nibble [of c] by (auto simp: encode_Cons)
qed (simp add: encodeURIComponent_def)


subsection \<open>The link as a whole\<close>

lemmas field_defs = uri_fields_def transport_fields_def security_fields_def opt_field_def

definition transport_names :: "string list" where
  "transport_names = [''path'', ''host'', ''serviceName'', ''mode'', ''authority'', ''extra'']"

definition security_names :: "string list" where
  "security_names = [''fp'', ''sni'', ''alpn'', ''ech'', ''pcs'', ''vcn'', ''pbk'', ''sid'', ''pqv'', ''spx'']"

lemma transport_fields_names:
  "distinct (map fst (transport_fields t)) \<and> list_all (\<lambda>name. name \<in> set transport_names) (map fst (transport_fields t))"
  by (cases "pt_Extra t"; cases "pt_Authority t = []"; cases "pt_Type t = ''ws''"; cases "pt_Type t = ''httpupgrade''";
      cases "pt_Type t = ''grpc''"; cases "pt_Type t = ''xhttp''")
     (simp_all add: transport_fields_def opt_field_def transport_names_def)

lemma security_fields_names:
  "distinct (map fst (security_fields s)) \<and> list_all (\<lambda>name. name \<in> set security_names) (map fst (security_fields s))"
proof (cases "pc_Type s = ''tls''")
  case True
  then show ?thesis
    by (cases "pc_ALPN s = []"; cases "pc_ECH s = []"; cases "pc_CertificatePins s = []"; cases "pc_VerifyName s = []")
       (simp_all add: security_fields_def opt_field_def security_names_def)
next
  case False
  then show ?thesis
    by (cases "pc_Type s = ''reality''"; cases "pc_ShortIDPresent s"; cases "pc_PostQuantumVerify s = []"; cases "pc_SpiderX s = []")
       (simp_all add: security_fields_def opt_field_def security_names_def)
qed

lemma uri_fields_names:
  "distinct (map fst (uri_fields p)) \<and>
   (\<forall>name \<in> set (map fst (uri_fields p)). list_all (\<lambda>c. \<not> delimiter c) name)"
proof -
  let ?head = "[''type'', ''encryption'', ''flow'', ''security'']"
  let ?t = "set (map fst (transport_fields (av_Transport p)))" and ?s = "set (map fst (security_fields (av_Security p)))"
  have names: "list_all (list_all (\<lambda>c. \<not> delimiter c)) (?head @ transport_names @ security_names)"
    and apart: "distinct (?head @ transport_names @ security_names)"
    by (simp_all add: delimiter_def transport_names_def security_names_def)
  have ts: "?t \<subseteq> set transport_names" "?s \<subseteq> set security_names"
    using transport_fields_names [of "av_Transport p"] security_fields_names [of "av_Security p"] unfolding list_all_iff by blast+
  have head: "set ?head \<inter> (?t \<union> ?s) = {}" "?t \<inter> ?s = {}"
    using ts apart unfolding distinct_append set_append by blast+
  have "distinct (map fst (uri_fields p))"
    using transport_fields_names [of "av_Transport p"] security_fields_names [of "av_Security p"] head
    by (cases "av_Flow p") (simp_all add: uri_fields_def)
  moreover have "set (map fst (uri_fields p)) \<subseteq> set ?head \<union> ?t \<union> ?s"
    by (cases "av_Flow p") (auto simp: uri_fields_def)
  then have "set (map fst (uri_fields p)) \<subseteq> set (?head @ transport_names @ security_names)"
    using ts unfolding set_append by blast
  ultimately show ?thesis using names unfolding list_all_iff by blast
qed

definition uuid_char :: "char \<Rightarrow> bool" where
  "uuid_char c \<longleftrightarrow> hex_char c \<or> c = CHR ''-''"

lemma link_chars:
  "uuid_char c \<Longrightarrow> c \<notin> set ''#?@''" "host_char c \<Longrightarrow> c \<notin> set ''#?@''" "digit c \<Longrightarrow> c \<notin> set ''#?@:''"
  by (auto simp: uuid_char_def host_char_def address_char_def ldh_char_def hex_char_def digit_def Let_def)

lemma read_encoded_field:
  assumes "list_all (\<lambda>c. \<not> delimiter c) name"
  shows "read_field (name @ ''='' @ encodeURIComponent v) = Some (name, v)"
proof -
  have "CHR ''='' \<notin> set name" using assms by (auto simp: list_all_iff delimiter_def)
  then show ?thesis by (simp add: read_field_def cut_append component_decodes_back)
qed

lemma encoded_field_no: "c \<in> set ''#&'' \<Longrightarrow> list_all (\<lambda>c. \<not> delimiter c) name \<Longrightarrow>
    c \<notin> set (name @ ''='' @ encodeURIComponent v)"
  using encoded_no_delimiter [of v] by (auto simp: list_all_iff delimiter_def)

lemma set_join: "set (join sep ws) \<subseteq> set sep \<union> \<Union> (set (map set ws))"
  by (induction sep ws rule: join.induct) auto

lemma those_map_Some: "\<forall>x \<in> set xs. f (g x) = Some x \<Longrightarrow> those (map f (map g xs)) = Some xs"
  by (induction xs) auto

lemma query_reads_back:
  assumes "\<forall>name \<in> set (map fst fs). list_all (\<lambda>c. \<not> delimiter c) name" and "fs \<noteq> []"
  defines "query \<equiv> join ''&'' (map (\<lambda>(name, v). name @ ''='' @ encodeURIComponent v) fs)"
  shows "those (map read_field (split_byte (CHR ''&'') query)) = Some fs" and "CHR ''#'' \<notin> set query"
proof -
  let ?part = "\<lambda>(name, v). name @ ''='' @ encodeURIComponent v"
  have no: "c \<notin> set (?part f)" if "f \<in> set fs" "c \<in> set ''#&''" for f c
  proof -
    have "list_all (\<lambda>c. \<not> delimiter c) (fst f)" using assms(1) that(1) by simp
    from encoded_field_no [OF that(2) this, of "snd f"] show ?thesis by (simp add: case_prod_beta)
  qed
  have "split_byte (CHR ''&'') query = map ?part fs"
    unfolding query_def using no assms(2) by (intro split_byte_join) auto
  then show "those (map read_field (split_byte (CHR ''&'') query)) = Some fs"
    using assms(1) read_encoded_field by (simp only:) (rule those_map_Some, auto)
  show "CHR ''#'' \<notin> set query"
    unfolding query_def using set_join [of "''&''" "map ?part fs"] no by fastforce
qed

lemma link_reads_back:
  assumes "list_all uuid_char (av_ClientID p)" and "list_all host_char (av_EndpointHost p)"
  shows "read_link (serializeURI email p) = Some \<lparr>sl_ClientID = av_ClientID p, sl_Host = av_EndpointHost p,
     sl_Port = unat (av_EndpointPort p), sl_Fields = uri_fields p, sl_Label = profile_label email p\<rparr>"
proof -
  let ?port = "decimal (unat (av_EndpointPort p))"
  let ?query = "join ''&'' (map (\<lambda>(name, v). name @ ''='' @ encodeURIComponent v) (uri_fields p))"
  let ?label = "encodeURIComponent (profile_label email p)"
  have q: "those (map read_field (split_byte (CHR ''&'') ?query)) = Some (uri_fields p)" "CHR ''#'' \<notin> set ?query"
    using query_reads_back [of "uri_fields p"] uri_fields_names [of p] by (auto simp: uri_fields_def)
  have id: "set (av_ClientID p) \<inter> set ''#?@'' = {}"
    using assms(1) link_chars(1) by (fastforce simp: list_all_iff)
  have host: "set (av_EndpointHost p) \<inter> set ''#?@'' = {}"
    using assms(2) link_chars(2) by (fastforce simp: list_all_iff)
  have port: "set ?port \<inter> set ''#?@:'' = {}"
    using decimal_digits(1) [of "unat (av_EndpointPort p)"] link_chars(3) by (fastforce simp: list_all_iff)
  have s: "serializeURI email p =
      ''vless://'' @ (av_ClientID p @ CHR ''@'' # av_EndpointHost p @ CHR '':'' # ?port @ CHR ''?'' # ?query) @ CHR ''#'' # ?label"
    by (simp add: serializeURI_def Let_def)
  have "cut (CHR ''#'') (drop 8 (serializeURI email p)) =
      (av_ClientID p @ CHR ''@'' # av_EndpointHost p @ CHR '':'' # ?port @ CHR ''?'' # ?query, ?label)"
    unfolding s using id host port q(2) by (subst drop_append) (auto simp del: append_assoc intro!: cut_append)
  moreover have "cut (CHR ''?'') ((av_ClientID p @ CHR ''@'' # av_EndpointHost p @ CHR '':'' # ?port) @ CHR ''?'' # ?query) =
      (av_ClientID p @ CHR ''@'' # av_EndpointHost p @ CHR '':'' # ?port, ?query)"
    using id host port by (intro cut_append) auto
  moreover have "cut (CHR ''@'') (av_ClientID p @ CHR ''@'' # av_EndpointHost p @ CHR '':'' # ?port) =
      (av_ClientID p, av_EndpointHost p @ CHR '':'' # ?port)"
    using id by (intro cut_append) auto
  moreover have "cut_last (CHR '':'') (av_EndpointHost p @ CHR '':'' # ?port) = (av_EndpointHost p, ?port)"
    using port by (intro cut_last_append) auto
  moreover have "has_prefix (serializeURI email p) ''vless://''"
    unfolding s by (rule has_prefix_append)
  ultimately show ?thesis
    using q(1) by (simp add: read_link_def component_decodes_back decimal_reads_back)
qed


section \<open>What an offered profile rests on\<close>

lemma matchingUsers_nonempty: "vless_member email ib \<Longrightarrow> matchingUsers email (ib_users ib) \<noteq> []"
  by (auto simp: vless_member_def matchingUsers_def list_ex_iff filter_empty_conv)

lemma evaluateInbound_returns:
  assumes "vless_member email ib"
  shows "evaluateInbound L email ib n selected src \<noteq> None"
proof -
  obtain u us where "matchingUsers email (ib_users ib) = u # us"
    using matchingUsers_nonempty [OF assms] by (cases "matchingUsers email (ib_users ib)") auto
  then show ?thesis
    by (simp add: evaluateInbound_def Let_def case_prod_beta split: option.split)
qed

lemma not_available [simp]: "unavailable t n r m \<noteq> Available p" "refuse t n r \<noteq> Available p"
  by (simp_all add: unavailable_def refuse_def)

lemma selected_needs:
  assumes "evaluateSelected L email ib user clientID a (refuse tag name) = Available p"
  shows "supportedTransport (at_Type (ad_Transport a)) \<and> direct_supported ib a \<and>
    supportedSecurity (as_Type (ad_Security a)) \<and> direct_secured ib a \<and> as_Type (ad_Security a) \<noteq> SecurityNone \<and>
    equal_fold (defaultNone (ib_Decryption ib)) ''none'' \<and>
    compatibleShape (effective_flow user ib) (at_Type (ad_Transport a)) (as_Type (ad_Security a)) \<and>
    emptyRealityShortIDAccepted ib a \<and> direct_matches L ib a \<and>
    buildAvailable L email clientID (effective_flow user ib) a = Some p"
  using assms unfolding evaluateSelected_def Let_def by (simp split: if_splits option.splits)

lemma available_needs:
  assumes "evaluateInbound L email ib n selected src = Some (Available p)"
  obtains a user clientID where
    "ib_Tag ib \<noteq> []" "n \<le> 1" "selected = [a]" "matchingUsers email (ib_users ib) = [user]" "\<not> iu_Reverse user"
    "ps_AdvertisementsConfigured src" "ps_AdvertisementsAvailable src" "ad_validationError a = None" "invalidClientValues L a = []"
    "pl_uuid L (iu_ClientID user) = Some clientID"
    "evaluateSelected L email ib user clientID a
       (refuse (fst (unavailableIdentity ib (Some a))) (snd (unavailableIdentity ib (Some a)))) = Available p"
proof -
  have g: "ib_Tag ib \<noteq> []" "\<not> (1 < n \<or> 1 < length selected)" "\<not> 1 < length (matchingUsers email (ib_users ib))"
    using assms by (auto simp: evaluateInbound_def Let_def case_prod_beta split: if_splits)
  note d = assms [unfolded evaluateInbound_def Let_def case_prod_beta if_not_P [OF g(1)] if_not_P [OF g(2)] if_not_P [OF g(3)]]
  obtain user where u: "matchingUsers email (ib_users ib) = [user]"
    using d g(3) by (cases "matchingUsers email (ib_users ib)") auto
  have r: "\<not> iu_Reverse user" "ps_AdvertisementsConfigured src" "ps_AdvertisementsAvailable src" "selected \<noteq> []"
    using d by (auto simp: u split: if_splits list.splits)
  then obtain a where a: "selected = [a]" using g(2) by (cases selected) auto
  have v: "ad_validationError a = None" "invalidClientValues L a = []"
    using d r by (auto simp: u a split: if_splits option.splits)
  obtain clientID where c: "pl_uuid L (iu_ClientID user) = Some clientID"
    using d r v by (cases "pl_uuid L (iu_ClientID user)") (auto simp: u a)
  show thesis using that [of a user clientID] g u r a v c d by simp
qed


lemma build_fields:
  assumes "buildAvailable L email clientID flow a = Some p"
  shows "av_InboundTag p = ad_InboundTag a \<and> av_Name p = ad_Name a \<and> av_ClientID p = clientID \<and> av_Flow p = nonempty flow \<and>
    canonicalHost (pl_to_ascii L) (ad_Host a) = Some (av_EndpointHost p) \<and> av_EndpointPort p = ad_Port a \<and>
    canonicalHost (pl_to_ascii L) (as_ServerName (ad_Security a)) = Some (pc_ServerName (av_Security p)) \<and>
    pt_Type (av_Transport p) = at_Type (ad_Transport a) \<and> pc_Type (av_Security p) = as_Type (ad_Security a) \<and>
    pc_PublicKey (av_Security p) = as_PublicKey (ad_Security a) \<and> pc_ShortID (av_Security p) = as_ShortID (ad_Security a) \<and>
    av_URI p = serializeURI email (p\<lparr>av_URI := []\<rparr>)"
  using assms unfolding buildAvailable_def Let_def by (auto simp: nonempty_def split: option.splits if_splits)

lemma uri_ignores_uri: "serializeURI email (p\<lparr>av_URI := u\<rparr>) = serializeURI email p"
  by (simp add: serializeURI_def uri_fields_def profile_label_def)

text \<open>
  What a profile offered for an inbound must rest on: one inbound and one advertisement with that
  tag, one entry of the user in it, that entry's credential, a secured and well-formed shape, and
  for a direct endpoint the inbound's own transport, security and short IDs.
\<close>

definition offered :: "profile_lib \<Rightarrow> string \<Rightarrow> profile_sources \<Rightarrow> inbound \<Rightarrow> available \<Rightarrow> bool" where
  "offered L email src ib p \<longleftrightarrow> (\<exists>a user.
     ib_Tag ib \<noteq> [] \<and> av_InboundTag p = ib_Tag ib \<and>
     filter (\<lambda>i. ib_Tag i = ib_Tag ib) (ps_XrayView src) = [ib] \<and>
     filter (\<lambda>b. ad_InboundTag b = ib_Tag ib) (ps_AdvertisementsView src) = [a] \<and> ad_validationError a = None \<and>
     filter (\<lambda>u. iu_Email u = email) (ib_users ib) = [user] \<and> \<not> iu_Reverse user \<and>
     pl_uuid L (iu_ClientID user) = Some (av_ClientID p) \<and>
     av_Flow p = nonempty (effective_flow user ib) \<and>
     (av_Flow p \<noteq> None \<longrightarrow> av_Flow p = Some vision \<and> pt_Type (av_Transport p) = TransportTCP) \<and>
     canonicalHost (pl_to_ascii L) (ad_Host a) = Some (av_EndpointHost p) \<and> av_EndpointPort p = ad_Port a \<and>
     canonicalHost (pl_to_ascii L) (as_ServerName (ad_Security a)) = Some (pc_ServerName (av_Security p)) \<and>
     pc_Type (av_Security p) \<in> {SecurityTLS, SecurityReality} \<and>
     (pc_Type (av_Security p) = SecurityReality \<longrightarrow>
        pt_Type (av_Transport p) \<in> {TransportTCP, TransportGRPC, TransportXHTTP} \<and>
        map_option length (base64url_decode (pc_PublicKey (av_Security p))) = Some 32 \<and>
        length (pc_ShortID (av_Security p)) \<le> 16 \<and> hex_decodes (pc_ShortID (av_Security p))) \<and>
     (ad_Topology a = TopologyDirect \<longrightarrow>
        canonicalInboundTransport (ib_TransportType ib) = Some (pt_Type (av_Transport p)) \<and>
        canonicalInboundSecurity (ib_SecurityType ib) = Some (pc_Type (av_Security p)) \<and>
        (pc_Type (av_Security p) = SecurityReality \<longrightarrow>
           containsFold (ib_Reality_ShortIDs ib) (pc_ShortID (av_Security p)))) \<and>
     av_URI p = serializeURI email p)"

lemma reality_values:
  assumes "invalidClientValues L a = []" and "as_Type (ad_Security a) = SecurityReality"
  shows "map_option length (base64url_decode (as_PublicKey (ad_Security a))) = Some 32 \<and>
    length (as_ShortID (ad_Security a)) \<le> 16 \<and> hex_decodes (as_ShortID (ad_Security a))"
  using assms unfolding invalidClientValues_def Let_def by (simp split: if_splits)

lemma direct_types:
  assumes "direct_supported ib a" "direct_secured ib a" "direct_matches L ib a" "ad_Topology a = TopologyDirect"
  shows "canonicalInboundTransport (ib_TransportType ib) = Some (at_Type (ad_Transport a)) \<and>
    canonicalInboundSecurity (ib_SecurityType ib) = Some (as_Type (ad_Security a)) \<and>
    (as_Type (ad_Security a) = SecurityReality \<longrightarrow> containsFold (ib_Reality_ShortIDs ib) (as_ShortID (ad_Security a)))"
proof -
  obtain t s where ts: "canonicalInboundTransport (ib_TransportType ib) = Some t" "canonicalInboundSecurity (ib_SecurityType ib) = Some s"
    using assms(1,2,4) by (auto simp: direct_supported_def direct_secured_def)
  then have m: "directMatch L ib t s a" using assms(3,4) by (simp add: direct_matches_def)
  have "t = at_Type (ad_Transport a) \<and> s = as_Type (ad_Security a)"
    using m unfolding directMatch_def Let_def by (simp split: if_splits)
  moreover have "s = SecurityReality \<longrightarrow> containsFold (ib_Reality_ShortIDs ib) (as_ShortID (ad_Security a))"
    using m unfolding directMatch_def Let_def by (simp split: if_splits)
  ultimately show ?thesis using ts by simp
qed

lemma shape_facts:
  assumes "compatibleShape flow t s"
  shows "(flow \<noteq> [] \<longrightarrow> flow = vision \<and> t = TransportTCP) \<and>
    (s = SecurityReality \<longrightarrow> t \<in> {TransportTCP, TransportGRPC, TransportXHTTP})"
  using assms unfolding compatibleShape_def by (auto split: if_splits)

lemma unique_in_filter:
  assumes "x \<in> set xs" and "length (filter (\<lambda>y. f y = f x) xs) \<le> 1"
  shows "filter (\<lambda>y. f y = f x) xs = [x]"
proof -
  have "x \<in> set (filter (\<lambda>y. f y = f x) xs)" using assms(1) by simp
  then show ?thesis using assms(2) by (cases "filter (\<lambda>y. f y = f x) xs") auto
qed

lemma available_is_offered:
  assumes "evaluateInbound L email ib (tagCount (ps_XrayView src) (ib_Tag ib)) (advertisementsByTag src (ib_Tag ib)) src =
      Some (Available p)" and "ib \<in> set (ps_XrayView src)"
  shows "offered L email src ib p"
proof (rule available_needs [OF assms(1)], goal_cases)
  case (1 a user clientID)
  note s = selected_needs [OF 1(11)]
  note b = build_fields [OF s [THEN conjunct2, THEN conjunct2, THEN conjunct2, THEN conjunct2, THEN conjunct2, THEN conjunct2,
      THEN conjunct2, THEN conjunct2, THEN conjunct2]]
  have view: "filter (\<lambda>i. ib_Tag i = ib_Tag ib) (ps_XrayView src) = [ib]"
    using unique_in_filter [OF assms(2), of ib_Tag] 1(1,2) by (simp add: tagCount_def)
  have adv: "filter (\<lambda>b. ad_InboundTag b = ib_Tag ib) (ps_AdvertisementsView src) = [a]"
    using 1(3,7) by (simp add: advertisementsByTag_def)
  have "a \<in> set (filter (\<lambda>b. ad_InboundTag b = ib_Tag ib) (ps_AdvertisementsView src))" unfolding adv by simp
  then have atag: "ad_InboundTag a = ib_Tag ib" by simp
  have users: "filter (\<lambda>u. iu_Email u = email) (ib_users ib) = [user]" using 1(4) by (simp add: matchingUsers_def)
  have sec: "as_Type (ad_Security a) \<in> {SecurityTLS, SecurityReality}"
    using s by (auto simp: supportedSecurity_def)
  have real: "as_Type (ad_Security a) = SecurityReality \<longrightarrow>
      map_option length (base64url_decode (as_PublicKey (ad_Security a))) = Some 32 \<and>
      length (as_ShortID (ad_Security a)) \<le> 16 \<and> hex_decodes (as_ShortID (ad_Security a))"
    using reality_values [OF 1(9)] by blast
  have direct: "ad_Topology a = TopologyDirect \<longrightarrow>
      canonicalInboundTransport (ib_TransportType ib) = Some (at_Type (ad_Transport a)) \<and>
      canonicalInboundSecurity (ib_SecurityType ib) = Some (as_Type (ad_Security a)) \<and>
      (as_Type (ad_Security a) = SecurityReality \<longrightarrow> containsFold (ib_Reality_ShortIDs ib) (as_ShortID (ad_Security a)))"
    using direct_types [of ib a L] s by blast
  have shape: "(effective_flow user ib \<noteq> [] \<longrightarrow> effective_flow user ib = vision \<and> at_Type (ad_Transport a) = TransportTCP) \<and>
      (as_Type (ad_Security a) = SecurityReality \<longrightarrow> at_Type (ad_Transport a) \<in> {TransportTCP, TransportGRPC, TransportXHTTP})"
    using shape_facts s by blast
  show ?case unfolding offered_def
    using view adv users b atag 1(1,5,8,10) sec real direct shape
    by (intro exI [of _ a] exI [of _ user]) (simp add: uri_ignores_uri nonempty_def)
qed


lemma offered_link:
  "offered L email src ib p \<Longrightarrow> (\<exists>s. pl_uuid L s = Some (av_ClientID p)) \<and>
    (\<exists>h. canonicalHost (pl_to_ascii L) h = Some (av_EndpointHost p)) \<and> av_URI p = serializeURI email p"
  unfolding offered_def by (elim exE conjE) (intro conjI exI, assumption+)

lemma refuse_tag:
  assumes "evaluateInbound L email ib n selected src = Some (Unavailable u)"
  shows "un_InboundTag u = nonempty (ib_Tag ib)"
proof -
  have no: "unavailable t m r x = Unavailable u \<Longrightarrow> un_InboundTag u = t" "refuse t m r = Unavailable u \<Longrightarrow> un_InboundTag u = t"
    for t m r x by (auto simp: unavailable_def refuse_def)
  have sel: "evaluateSelected L email ib user c a (refuse t m) = Unavailable u \<Longrightarrow> un_InboundTag u = t" for user c a t m
    unfolding evaluateSelected_def Let_def by (auto dest: no split: if_splits option.splits)
  show ?thesis using assms unfolding evaluateInbound_def Let_def case_prod_beta unavailableIdentity_def
    by (auto dest!: no sel simp: nonempty_def split: if_splits option.splits list.splits)
qed

lemma those_map_total: "\<forall>x \<in> set xs. f x \<noteq> None \<Longrightarrow> those (map f xs) = Some (map (\<lambda>x. the (f x)) xs)"
  by (induction xs) auto

lemma Evaluate_items:
  "\<exists>c. Evaluate L email disabled src = Some c \<and>
    cn_Items c = (if disabled \<or> \<not> ps_XrayAvailable src then []
      else map (\<lambda>ib. the (evaluateInbound L email ib (tagCount (ps_XrayView src) (ib_Tag ib)) (advertisementsByTag src (ib_Tag ib)) src))
        (filter (vless_member email) (ps_XrayView src)))"
proof -
  have "those (map (\<lambda>ib. evaluateInbound L email ib (tagCount (ps_XrayView src) (ib_Tag ib)) (advertisementsByTag src (ib_Tag ib)) src)
      (filter (vless_member email) (ps_XrayView src))) \<noteq> None"
    by (subst those_map_total) (simp_all add: evaluateInbound_returns)
  then show ?thesis
    using those_map_total [of "filter (vless_member email) (ps_XrayView src)"
      "\<lambda>ib. evaluateInbound L email ib (tagCount (ps_XrayView src) (ib_Tag ib)) (advertisementsByTag src (ib_Tag ib)) src"]
    by (auto simp: Evaluate_def Let_def evaluateInbound_returns)
qed

section \<open>Properties\<close>

text \<open>
  C33. An evaluation always returns, with one result per VLESS inbound that carries the user, in
  config order, and none for a disabled user or before the config parsed.  A result that is
  available is offered soundly: one inbound and one valid advertisement bear the tag, the user has
  one forward entry in it, and the profile carries that entry's credential and flow (Vision over TCP
  or none), the advertised endpoint, TLS or REALITY with usable keys, and for a direct endpoint the
  inbound's own transport, security and short ID.  A refusal names only the inbound's tag.
\<close>

theorem offered_profiles_are_sound:
  "case Evaluate L email disabled src of
     None \<Rightarrow> False
   | Some c \<Rightarrow> list_all2 (\<lambda>ib item. case item of
         Available p \<Rightarrow> offered L email src ib p
       | Unavailable u \<Rightarrow> un_InboundTag u = nonempty (ib_Tag ib))
       (if \<not> disabled \<and> ps_XrayAvailable src then filter (vless_member email) (ps_XrayView src) else []) (cn_Items c)"
proof -
  let ?e = "\<lambda>ib. evaluateInbound L email ib (tagCount (ps_XrayView src) (ib_Tag ib)) (advertisementsByTag src (ib_Tag ib)) src"
  have item: "case the (?e ib) of Available p \<Rightarrow> offered L email src ib p | Unavailable u \<Rightarrow> un_InboundTag u = nonempty (ib_Tag ib)"
    if ib: "ib \<in> set (filter (vless_member email) (ps_XrayView src))" for ib
  proof -
    obtain x where x: "?e ib = Some x" using evaluateInbound_returns ib by fastforce
    show ?thesis
      using x available_is_offered [of L email ib src] refuse_tag ib by (cases x) auto
  qed
  obtain c where "Evaluate L email disabled src = Some c" "cn_Items c = (if disabled \<or> \<not> ps_XrayAvailable src then []
      else map (\<lambda>ib. the (?e ib)) (filter (vless_member email) (ps_XrayView src)))"
    using Evaluate_items by blast
  then show ?thesis using item by (auto simp: list_all2_map2 list_all2_same)
qed

text \<open>
  C34. The share link of an available profile reads back: split by the generic URI syntax and
  percent-decoded, it yields the Client ID, host and port of the profile, every query field in
  order with its exact value under distinct names, and the label of email and profile name.
\<close>

theorem share_link_reads_back:
  assumes "Evaluate L email disabled src = Some c" and "Available p \<in> set (cn_Items c)"
    and uuid_text: "\<forall>s u. pl_uuid L s = Some u \<longrightarrow> list_all uuid_char u"
    and idna_ldh: "\<forall>h ascii. pl_to_ascii L h = Some ascii \<longrightarrow> list_all ldh_char ascii"
  shows "read_link (av_URI p) = Some \<lparr>sl_ClientID = av_ClientID p, sl_Host = av_EndpointHost p,
      sl_Port = unat (av_EndpointPort p), sl_Fields = uri_fields p, sl_Label = profile_label email p\<rparr> \<and>
    distinct (map fst (uri_fields p))"
proof -
  obtain ib where ib: "ib \<in> set (ps_XrayView src)" "evaluateInbound L email ib (tagCount (ps_XrayView src) (ib_Tag ib))
      (advertisementsByTag src (ib_Tag ib)) src = Some (Available p)"
  proof -
    from Evaluate_items [of L email disabled src] assms(1,2) obtain ib where
      "ib \<in> set (filter (vless_member email) (ps_XrayView src))"
      "Available p = the (evaluateInbound L email ib (tagCount (ps_XrayView src) (ib_Tag ib)) (advertisementsByTag src (ib_Tag ib)) src)"
      by (auto split: if_splits)
    then show thesis using that evaluateInbound_returns [of email ib] by auto
  qed
  then have "offered L email src ib p" by (intro available_is_offered)
  then obtain s h where o: "pl_uuid L s = Some (av_ClientID p)"
      "canonicalHost (pl_to_ascii L) h = Some (av_EndpointHost p)" "av_URI p = serializeURI email p"
    using offered_link by blast
  show ?thesis
    using link_reads_back [of p email] uuid_text o(1) canonicalHost_chars [OF idna_ldh o(2)] o(3) uri_fields_names [of p] by simp
qed

section \<open>An example\<close>

definition ex_lib :: profile_lib where
  "ex_lib = \<lparr>pl_uuid = (\<lambda>s. if s = ''u'' then Some ''a-1'' else None),
     pl_to_ascii = (\<lambda>h. if h = ''a.b'' then Some ''a.b'' else None), pl_jcs = (\<lambda>_. None)\<rparr>"

definition ex_inbound :: inbound where
  "ex_inbound = \<lparr>ib_Tag = ''t'', ib_Protocol = ''vless'', ib_Port = ''443'', ib_Flow = [], ib_Decryption = [],
     ib_TransportType = ''tcp'', ib_RawHeaderConfigured = False, ib_RawHeaderType = [], ib_FinalMaskConfigured = False,
     ib_WebSocket = \<lparr>hs_Path = [], hs_Host = []\<rparr>, ib_HTTPUpgrade = \<lparr>hs_Path = [], hs_Host = []\<rparr>,
     ib_GRPC = \<lparr>gc_ServiceName = [], gc_Authority = [], gc_MultiMode = False\<rparr>,
     ib_XHTTP = \<lparr>xs_Path = [], xs_Host = [], xs_Mode = [], xs_ExtraConfigured = False\<rparr>,
     ib_SecurityType = ''tls'', ib_TLS_ServerName = [], ib_TLS_RejectUnknownSNI = False, ib_TLS_ALPN = [],
     ib_Reality_ServerNames = [], ib_Reality_ShortIDs = [],
     ib_users = [\<lparr>iu_Email = ''u@x'', iu_ClientID = ''u'', iu_Flow = [], iu_Reverse = False\<rparr>]\<rparr>"

definition ex_advertisement :: advertisement where
  "ex_advertisement = \<lparr>ad_InboundTag = ''t'', ad_Name = ''n'', ad_Topology = ''direct'', ad_Host = ''a.b'', ad_Port = 443,
     ad_Transport = \<lparr>at_Type = ''tcp'', at_Path = [], at_Host = [], at_ServiceName = [], at_Mode = [], at_Authority = [],
       at_extra = [], at_extraPresent = False\<rparr>,
     ad_Security = \<lparr>as_Type = ''tls'', as_Fingerprint = ''f'', as_ServerName = ''a.b'', as_ECH = [], as_VerifyName = [],
       as_PublicKey = [], as_ShortID = [], as_ShortIDPresent = False, as_PostQuantumVerify = [], as_SpiderX = [], as_alpn = [],
       as_certificatePins = []\<rparr>,
     ad_validationError = None, ad_duplicate = False\<rparr>"

definition ex_sources :: profile_sources where
  "ex_sources = \<lparr>ps_XrayView = [ex_inbound], ps_XrayAvailable = True, ps_XrayLoadedAt = 1, ps_XrayStale = False, ps_XrayError = None,
     ps_AdvertisementsView = [ex_advertisement], ps_AdvertisementsConfigured = True, ps_AdvertisementsAvailable = True,
     ps_AdvertisementsLoadedAt = 1, ps_AdvertisementsStale = False, ps_AdvertisementsError = None\<rparr>"

lemma ex_host: "canonicalHost (pl_to_ascii ex_lib) ''a.b'' = Some ''a.b''"
  by (simp add: canonicalHost_def ParseAddr_def digit_def has_prefix_def has_suffix_def contains_any_def ascii_lower_def ex_lib_def)

lemma ex_evaluates:
  "\<exists>c p. Evaluate ex_lib ''u@x'' False ex_sources = Some c \<and> Available p \<in> set (cn_Items c) \<and> av_ClientID p = ''a-1''"
proof -
  have v: "invalidClientValues ex_lib ex_advertisement = []"
    by (simp add: invalidClientValues_def ex_advertisement_def ex_host)
  have d: "canonicalInboundTransport ''tcp'' = Some ''tcp''" "canonicalInboundSecurity ''tls'' = Some ''tls''"
    by (simp_all add: canonicalInboundTransport_def canonicalInboundSecurity_def ascii_lower_def)
  let ?no = "refuse (Some ''t'') (Some ''n'')"
  let ?user = "\<lparr>iu_Email = ''u@x'', iu_ClientID = ''u'', iu_Flow = [], iu_Reverse = False\<rparr>"
  obtain p where b: "buildAvailable ex_lib ''u@x'' ''a-1'' [] ex_advertisement = Some p"
    by (simp add: buildAvailable_def Let_def ex_advertisement_def ex_host)
  have fold: "equal_fold ''none'' ''none''" by (rule equal_fold_refl)
  have s: "evaluateSelected ex_lib ''u@x'' ex_inbound ?user ''a-1'' ex_advertisement ?no = Available p"
    using b fold
    by (simp add: evaluateSelected_def ex_inbound_def ex_advertisement_def supportedTransport_def supportedSecurity_def
        direct_supported_def direct_secured_def direct_matches_def d unsupportedDirectTransportFeature_def defaultNone_def
        effective_flow_def compatibleShape_def emptyRealityShortIDAccepted_def directMatch_def)
  have m: "vless_member ''u@x'' ex_inbound" by (simp add: vless_member_def ex_inbound_def)
  have "evaluateInbound ex_lib ''u@x'' ex_inbound 1 [ex_advertisement] ex_sources = Some (Available p)"
    using s v by (simp add: evaluateInbound_def Let_def unavailableIdentity_def nonempty_def matchingUsers_def ex_sources_def ex_inbound_def
        ex_lib_def ex_advertisement_def)
  then have "Evaluate ex_lib ''u@x'' False ex_sources = Some ((sourceState ex_sources)\<lparr>cn_State := StateReady, cn_Items := [Available p]\<rparr>)"
    using m by (simp add: Evaluate_def Let_def ex_sources_def tagCount_def advertisementsByTag_def ex_inbound_def ex_advertisement_def)
  then show ?thesis using build_fields [OF b] by auto
qed

theorem share_link_reads_back_witness:
  "\<exists>p c. Evaluate ex_lib ''u@x'' False ex_sources = Some c \<and> Available p \<in> set (cn_Items c) \<and>
    map_option sl_ClientID (read_link (av_URI p)) = Some ''a-1''"
proof -
  obtain c p where c: "Evaluate ex_lib ''u@x'' False ex_sources = Some c" "Available p \<in> set (cn_Items c)" "av_ClientID p = ''a-1''"
    using ex_evaluates by blast
  have "\<forall>s u. pl_uuid ex_lib s = Some u \<longrightarrow> list_all uuid_char u"
    "\<forall>h ascii. pl_to_ascii ex_lib h = Some ascii \<longrightarrow> list_all ldh_char ascii"
    by (simp_all add: ex_lib_def uuid_char_def hex_char_def digit_def ldh_char_def)
  from share_link_reads_back [OF c(1,2) this] c show ?thesis by auto
qed


text \<open>Line breaks inside a base64 value do not count.\<close>

lemma key_with_line_breaks_accepted:
  "base64url_decode (a @ CHR 0x0A # b) = base64url_decode (a @ b)"
  by (simp add: base64url_decode_def)

end
