(* ===== verification/JsonTree.thy ===== *)
theory JsonTree
  imports Host
begin

text \<open>
  A JSON document as \<^verbatim>\<open>encoding/json\<close> hands it to the program: a tree that keeps the raw text of every
  value, its strings decoded and its numbers as written, and the values the standard library reads
  from it.
\<close>

section \<open>Document trees\<close>

datatype jdoc = JDoc (raw: string) (shape: jshape)
  and jshape = SNull | SBool bool | SNum string | SStr string | SArr "jdoc list" | SObj "(string \<times> jdoc) list"

text \<open>A number literal as a Go \<^verbatim>\<open>int\<close>: digits with a sign, in range.\<close>

definition json_int :: "string \<Rightarrow> int option" where
  "json_int t =
     (let neg = has_prefix t ''-''; ds = (if neg then drop 1 t else t);
          v = (if neg then - int (decimal_value ds) else int (decimal_value ds)) in
      if ds \<noteq> [] \<and> list_all digit ds \<and> - (2 ^ 63) \<le> v \<and> v < 2 ^ 63 then Some v else None)"

end
