(* ===== verification/Advertisements.thy ===== *)
theory Advertisements
  imports Profiles GoJson JsonTree
begin

text \<open>
  Advertised connection settings, \<^verbatim>\<open>src/internal/advertisements\<close>: the strict parse of the document,
  the independent parse of each advertisement, the watched source built on it and its warning about
  unknown inbounds.

  The syntax of JSON is the business of \<^verbatim>\<open>encoding/json\<close>: a decode of the bytes into a document tree is
  an argument, and the tree keeps the raw text of every value.  What the standard library does with a
  tree when it fills a struct is modelled: names match up to case, an unknown name is an error under
  the strict decoder, every occurrence of a field is decoded in order, \<^verbatim>\<open>null\<close> leaves a struct or a
  number as it was and clears a pointer.  Whether a number literal has a finite 64-bit float is an
  argument too.
\<close>

section \<open>Distinct keys\<close>

text \<open>\<^verbatim>\<open>validateJSONValue\<close>: no object repeats a key, at any depth.\<close>

fun keys_distinct :: "jdoc \<Rightarrow> bool" and shape_distinct :: "jshape \<Rightarrow> bool" where
  "keys_distinct (JDoc r s) \<longleftrightarrow> shape_distinct s"
| "shape_distinct (SArr ds) \<longleftrightarrow> list_all keys_distinct ds"
| "shape_distinct (SObj kvs) \<longleftrightarrow> distinct (map fst kvs) \<and> list_all (\<lambda>kv. keys_distinct (snd kv)) kvs"
| "shape_distinct SNull \<longleftrightarrow> True"
| "shape_distinct (SBool b) \<longleftrightarrow> True"
| "shape_distinct (SNum n) \<longleftrightarrow> True"
| "shape_distinct (SStr s) \<longleftrightarrow> True"

section \<open>Filling a struct\<close>

text \<open>The entries of an object that a struct decode looks at; strictly, every name must be known.\<close>

definition struct_entries :: "jdoc \<Rightarrow> (string \<times> jdoc) list option" where
  "struct_entries d = (case shape d of SNull \<Rightarrow> Some [] | SObj kvs \<Rightarrow> Some kvs | _ \<Rightarrow> None)"

definition decodeStrict :: "string list \<Rightarrow> jdoc \<Rightarrow> (string \<times> jdoc) list option" where
  "decodeStrict names d =
     (case struct_entries d of
        None \<Rightarrow> None
      | Some kvs \<Rightarrow> if list_all (\<lambda>kv. list_ex (equal_fold (fst kv)) names) kvs then Some kvs else None)"

definition occurrences :: "string \<Rightarrow> (string \<times> jdoc) list \<Rightarrow> jdoc list" where
  "occurrences name kvs = map snd (filter (\<lambda>kv. equal_fold (fst kv) name) kvs)"

text \<open>One decode per occurrence, in order; the first error fails the whole struct.\<close>

fun decode_each :: "('v \<Rightarrow> jshape \<Rightarrow> 'v option) \<Rightarrow> jdoc list \<Rightarrow> 'v \<Rightarrow> 'v option" where
  "decode_each f [] v = Some v"
| "decode_each f (d # ds) v = (case f v (shape d) of None \<Rightarrow> None | Some v' \<Rightarrow> decode_each f ds v')"

definition stringField_UnmarshalJSON :: "string \<times> bool \<Rightarrow> jshape \<Rightarrow> (string \<times> bool) option" where
  "stringField_UnmarshalJSON _ s = (case s of SStr t \<Rightarrow> Some (t, True) | _ \<Rightarrow> None)"

definition intField_UnmarshalJSON :: "int \<times> bool \<Rightarrow> jshape \<Rightarrow> (int \<times> bool) option" where
  "intField_UnmarshalJSON v s =
     (case s of
        SNull \<Rightarrow> Some (fst v, True)
      | SNum t \<Rightarrow> map_option (\<lambda>i. (i, True)) (json_int t)
      | _ \<Rightarrow> None)"

text \<open>Decoding an array into a slice: a null element keeps what the slice held at its index.\<close>

fun string_elements :: "string list \<Rightarrow> jdoc list \<Rightarrow> string list option" where
  "string_elements prev [] = Some []"
| "string_elements prev (d # ds) =
     (case shape d of
        SStr t \<Rightarrow> map_option ((#) t) (string_elements (drop 1 prev) ds)
      | SNull \<Rightarrow> map_option ((#) (case prev of [] \<Rightarrow> [] | p # _ \<Rightarrow> p)) (string_elements (drop 1 prev) ds)
      | _ \<Rightarrow> None)"

definition stringArrayField_UnmarshalJSON :: "string list \<times> bool \<Rightarrow> jshape \<Rightarrow> (string list \<times> bool) option" where
  "stringArrayField_UnmarshalJSON v s =
     (case s of
        SArr ds \<Rightarrow>
          (case string_elements (fst v) ds of
             None \<Rightarrow> None
           | Some vs \<Rightarrow> if [] \<in> set vs then None else Some (vs, True))
      | _ \<Rightarrow> None)"

definition string_field :: "string \<Rightarrow> (string \<times> jdoc) list \<Rightarrow> (string \<times> bool) option" where
  "string_field name kvs = decode_each stringField_UnmarshalJSON (occurrences name kvs) ([], False)"

definition int_field :: "string \<Rightarrow> (string \<times> jdoc) list \<Rightarrow> (int \<times> bool) option" where
  "int_field name kvs = decode_each intField_UnmarshalJSON (occurrences name kvs) (0, False)"

definition string_array_field :: "string \<Rightarrow> (string \<times> jdoc) list \<Rightarrow> (string list \<times> bool) option" where
  "string_array_field name kvs = decode_each stringArrayField_UnmarshalJSON (occurrences name kvs) ([], False)"

text \<open>A raw field keeps its last occurrence, \<^verbatim>\<open>null\<close> included.\<close>

definition raw_field :: "string \<Rightarrow> (string \<times> jdoc) list \<Rightarrow> jdoc option" where
  "raw_field name kvs = (case rev (occurrences name kvs) of [] \<Rightarrow> None | d # _ \<Rightarrow> Some d)"

text \<open>Several string fields at once, in the struct's order.\<close>

definition string_fields :: "string list \<Rightarrow> (string \<times> jdoc) list \<Rightarrow> (string \<times> bool) list option" where
  "string_fields names kvs = those (map (\<lambda>n. string_field n kvs) names)"

section \<open>Extra settings\<close>

text \<open>
  \<^verbatim>\<open>validUnicodeScalarEscapes\<close>: outside a string every byte is skipped; inside, an escape of a surrogate
  must be a high one with a low one behind it.
\<close>

definition parseHexCode :: "string \<Rightarrow> nat option" where
  "parseHexCode s = (if length s = 4 \<and> list_all hex_char s then Some (hex_value s) else None)"

function scalar_escapes :: "bool \<Rightarrow> string \<Rightarrow> bool" where
  "scalar_escapes inside s =
     (case s of
        [] \<Rightarrow> \<not> inside
      | c # r \<Rightarrow>
          if c = CHR 0x22 then scalar_escapes (\<not> inside) r
          else if \<not> inside \<or> c \<noteq> CHR 0x5C then scalar_escapes inside r
          else (case r of
              [] \<Rightarrow> False
            | e # r1 \<Rightarrow>
                if e \<noteq> CHR ''u'' then scalar_escapes True r1
                else if length r1 < 4 then False
                else (case parseHexCode (take 4 r1) of
                    None \<Rightarrow> False
                  | Some code \<Rightarrow>
                      let r2 = drop 4 r1 in
                      if 0xD800 \<le> code \<and> code \<le> 0xDBFF then
                        (if length r2 < 6 \<or> take 2 r2 \<noteq> [CHR 0x5C, CHR ''u''] then False
                         else (case parseHexCode (take 4 (drop 2 r2)) of
                             None \<Rightarrow> False
                           | Some low \<Rightarrow> if low < 0xDC00 \<or> 0xDFFF < low then False else scalar_escapes True (drop 6 r2)))
                      else if 0xDC00 \<le> code \<and> code \<le> 0xDFFF then False
                      else scalar_escapes True r2)))"
  by pat_completeness auto
termination by (relation "measure (\<lambda>(_, s). length s)") auto

declare scalar_escapes.simps [simp del]

definition validUnicodeScalarEscapes :: "string \<Rightarrow> bool" where
  "validUnicodeScalarEscapes document = scalar_escapes False document"

fun validJCSValue :: "(string \<Rightarrow> bool) \<Rightarrow> jdoc \<Rightarrow> bool" and validJCSShape :: "(string \<Rightarrow> bool) \<Rightarrow> jshape \<Rightarrow> bool" where
  "validJCSValue fin (JDoc r s) \<longleftrightarrow> validJCSShape fin s"
| "validJCSShape fin (SNum n) \<longleftrightarrow> fin n"
| "validJCSShape fin (SArr ds) \<longleftrightarrow> list_all (validJCSValue fin) ds"
| "validJCSShape fin (SObj kvs) \<longleftrightarrow> list_all (\<lambda>kv. validJCSValue fin (snd kv)) kvs"
| "validJCSShape fin SNull \<longleftrightarrow> True"
| "validJCSShape fin (SBool b) \<longleftrightarrow> True"
| "validJCSShape fin (SStr s) \<longleftrightarrow> True"

definition validJCSObject :: "(string \<Rightarrow> bool) \<Rightarrow> jdoc \<Rightarrow> bool" where
  "validJCSObject fin d \<longleftrightarrow> validUnicodeScalarEscapes (raw d) \<and>
     (case shape d of SObj kvs \<Rightarrow> validJCSShape fin (SObj kvs) | _ \<Rightarrow> False)"


section \<open>Transport and security\<close>

record adv_lib =
  al_to_ascii :: "string \<Rightarrow> string option"
  al_finite :: "string \<Rightarrow> bool"

text \<open>\<^verbatim>\<open>objectType\<close> decodes leniently: unknown names are ignored.\<close>

definition objectType :: "jdoc option \<Rightarrow> string option" where
  "objectType document =
     (case document of
        None \<Rightarrow> None
      | Some d \<Rightarrow>
          (case struct_entries d of
             None \<Rightarrow> None
           | Some kvs \<Rightarrow>
               (case string_field ''type'' kvs of
                  Some (t, True) \<Rightarrow> if t = [] then None else Some t
                | _ \<Rightarrow> None)))"

definition blank_transport :: "string \<Rightarrow> adv_transport" where
  "blank_transport t = \<lparr>at_Type = t, at_Path = [], at_Host = [], at_ServiceName = [], at_Mode = [], at_Authority = [],
     at_extra = [], at_extraPresent = False\<rparr>"

definition blank_security :: "string \<Rightarrow> adv_security" where
  "blank_security t = \<lparr>as_Type = t, as_Fingerprint = [], as_ServerName = [], as_ECH = [], as_VerifyName = [], as_PublicKey = [],
     as_ShortID = [], as_ShortIDPresent = False, as_PostQuantumVerify = [], as_SpiderX = [], as_alpn = [], as_certificatePins = []\<rparr>"

text \<open>A strict decode into string fields only.\<close>

definition strict_strings :: "string list \<Rightarrow> jdoc \<Rightarrow> (string \<times> bool) list option" where
  "strict_strings names d = Option.bind (decodeStrict names d) (string_fields names)"

abbreviation given :: "string \<times> bool \<Rightarrow> bool" where
  "given f \<equiv> snd f \<and> fst f \<noteq> []"

definition parse_type_only :: "string \<Rightarrow> jdoc \<Rightarrow> string \<Rightarrow> string + adv_transport" where
  "parse_type_only t d message =
     (case strict_strings [''type''] d of None \<Rightarrow> Inl message | Some _ \<Rightarrow> Inr (blank_transport t))"

definition parse_http_transport :: "string \<Rightarrow> jdoc \<Rightarrow> string + adv_transport" where
  "parse_http_transport t d =
     (case strict_strings [''type'', ''path'', ''host''] d of
        Some [_, path, host] \<Rightarrow>
          if \<not> given path \<or> \<not> given host
          then Inl ''WebSocket and HTTPUpgrade transport require non-empty path and host strings.''
          else Inr ((blank_transport t)\<lparr>at_Path := fst path, at_Host := fst host\<rparr>)
      | _ \<Rightarrow> Inl ''WebSocket and HTTPUpgrade transport require non-empty path and host strings.'')"

definition parse_grpc_transport :: "jdoc \<Rightarrow> string + adv_transport" where
  "parse_grpc_transport d =
     (case strict_strings [''type'', ''service_name'', ''mode'', ''authority''] d of
        Some [_, service, mode0, authority] \<Rightarrow>
          if \<not> given service then Inl ''gRPC transport requires a non-empty service_name string.''
          else
            let mode = (if fst mode0 = [] then ''gun'' else fst mode0) in
            if mode \<notin> set [''gun'', ''multi'', ''guna''] then Inl ''gRPC mode must be gun, multi, or guna.''
            else Inr ((blank_transport TransportGRPC)\<lparr>at_ServiceName := fst service, at_Mode := mode, at_Authority := fst authority\<rparr>)
      | _ \<Rightarrow> Inl ''gRPC transport requires a non-empty service_name string.'')"

definition parse_xhttp_extra :: "adv_lib \<Rightarrow> (string \<times> jdoc) list \<Rightarrow> adv_transport \<Rightarrow> string + adv_transport" where
  "parse_xhttp_extra A kvs transport =
     (case raw_field ''extra'' kvs of
        None \<Rightarrow> Inr transport
      | Some extra \<Rightarrow>
          if \<not> validJCSObject (al_finite A) extra
          then Inl ''XHTTP extra must be a JSON object accepted by JSON Canonicalization Scheme processing.''
          else Inr (transport\<lparr>at_extra := raw extra, at_extraPresent := True\<rparr>))"

definition parse_xhttp_transport :: "adv_lib \<Rightarrow> jdoc \<Rightarrow> string + adv_transport" where
  "parse_xhttp_transport A d =
     (case decodeStrict [''type'', ''path'', ''host'', ''mode'', ''extra''] d of
        None \<Rightarrow> Inl ''XHTTP transport requires non-empty path, host, and mode strings.''
      | Some kvs \<Rightarrow>
          (case string_fields [''type'', ''path'', ''host'', ''mode''] kvs of
             Some [_, path, host, mode] \<Rightarrow>
               if \<not> given path \<or> \<not> given host \<or> \<not> given mode
               then Inl ''XHTTP transport requires non-empty path, host, and mode strings.''
               else if fst mode \<notin> set [''auto'', ''packet-up'', ''stream-up'', ''stream-one'']
               then Inl ''XHTTP mode must be auto, packet-up, stream-up, or stream-one.''
               else parse_xhttp_extra A kvs ((blank_transport TransportXHTTP)\<lparr>at_Path := fst path, at_Host := fst host, at_Mode := fst mode\<rparr>)
           | _ \<Rightarrow> Inl ''XHTTP transport requires non-empty path, host, and mode strings.''))"

definition parseTransport :: "adv_lib \<Rightarrow> jdoc option \<Rightarrow> string + adv_transport" where
  "parseTransport A document =
     (case (document, objectType document) of
        (Some d, Some t) \<Rightarrow>
          if t = TransportTCP then parse_type_only TransportTCP d ''tcp transport accepts only type.''
          else if t = TransportWebSocket \<or> t = TransportHTTPUpgrade then parse_http_transport t d
          else if t = TransportGRPC then parse_grpc_transport d
          else if t = TransportXHTTP then parse_xhttp_transport A d
          else parse_type_only t d ''unsupported transport accepts only type.''
      | _ \<Rightarrow> Inl ''transport must be a typed object.'')"

definition fingerprint :: "string \<times> bool \<Rightarrow> string + string" where
  "fingerprint field =
     (if \<not> snd field then Inr ''chrome''
      else if fst field = [] then Inl ''security fingerprint must not be empty when present.''
      else Inr (fst field))"

definition parseTLS :: "string \<Rightarrow> jdoc \<Rightarrow> string + adv_security" where
  "parseTLS advertisedHost d =
     (case decodeStrict [''type'', ''fingerprint'', ''server_name'', ''alpn'', ''ech'', ''certificate_pins'', ''verify_name''] d of
        None \<Rightarrow> Inl ''TLS fields must use the documented names and JSON types.''
      | Some kvs \<Rightarrow>
          (case (string_fields [''type'', ''fingerprint'', ''server_name'', ''ech'', ''verify_name''] kvs,
                 string_array_field ''alpn'' kvs, string_array_field ''certificate_pins'' kvs) of
             (Some [_, fp, name, ech, verify], Some alpn, Some pins) \<Rightarrow>
               (case fingerprint fp of
                  Inl problem \<Rightarrow> Inl problem
                | Inr f \<Rightarrow> Inr ((blank_security SecurityTLS)\<lparr>as_Fingerprint := f,
                    as_ServerName := (if fst name = [] then advertisedHost else fst name), as_ECH := fst ech,
                    as_VerifyName := fst verify, as_alpn := fst alpn, as_certificatePins := fst pins\<rparr>))
           | _ \<Rightarrow> Inl ''TLS fields must use the documented names and JSON types.''))"

definition parseReality :: "jdoc \<Rightarrow> string + adv_security" where
  "parseReality d =
     (case strict_strings [''type'', ''fingerprint'', ''server_name'', ''public_key'', ''short_id'', ''post_quantum_verify'', ''spider_x''] d of
        Some [_, fp, name, key, sid, pqv, spider] \<Rightarrow>
          (case fingerprint fp of
             Inl problem \<Rightarrow> Inl problem
           | Inr f \<Rightarrow>
               if \<not> given name then Inl ''REALITY server_name is required and must not be empty.''
               else if \<not> given key then Inl ''REALITY public_key is required and must not be empty.''
               else if \<not> snd sid then Inl ''REALITY short_id must be present.''
               else Inr ((blank_security SecurityReality)\<lparr>as_Fingerprint := f, as_ServerName := fst name, as_PublicKey := fst key,
                 as_ShortID := fst sid, as_ShortIDPresent := True, as_PostQuantumVerify := fst pqv, as_SpiderX := fst spider\<rparr>))
      | _ \<Rightarrow> Inl ''REALITY fields must use the documented names and JSON types.'')"

definition parseSecurity :: "jdoc option \<Rightarrow> string \<Rightarrow> string + adv_security" where
  "parseSecurity document advertisedHost =
     (case (document, objectType document) of
        (Some d, Some t) \<Rightarrow>
          if t = SecurityTLS then parseTLS advertisedHost d
          else if t = SecurityReality then parseReality d
          else
            (case strict_strings [''type''] d of
               None \<Rightarrow> Inl (if t = SecurityNone then ''none security accepts only type.'' else ''unsupported security accepts only type.'')
             | Some _ \<Rightarrow> Inr (blank_security t))
      | _ \<Rightarrow> Inl ''security must be a typed object.'')"


section \<open>Advertisements\<close>

definition zero_advertisement :: advertisement where
  "zero_advertisement = \<lparr>ad_InboundTag = [], ad_Name = [], ad_Topology = [], ad_Host = [], ad_Port = 0,
     ad_Transport = blank_transport [], ad_Security = blank_security [], ad_validationError = None, ad_duplicate = False\<rparr>"

definition plain_string :: "jdoc option \<Rightarrow> string" where
  "plain_string d = (case d of Some x \<Rightarrow> (case shape x of SStr t \<Rightarrow> t | _ \<Rightarrow> []) | None \<Rightarrow> [])"

text \<open>Here the fields are those of a map: exact names, the last of equals.\<close>

definition advertisementIdentity :: "jdoc \<Rightarrow> advertisement" where
  "advertisementIdentity d =
     (let fields = (case shape d of SObj kvs \<Rightarrow> map_of (rev kvs) | _ \<Rightarrow> Map.empty);
          tag = plain_string (fields ''inbound_tag''); name = plain_string (fields ''name'') in
      zero_advertisement\<lparr>ad_InboundTag := tag, ad_Name := (if name = [] then tag else name)\<rparr>)"

definition invalidate :: "advertisement \<Rightarrow> string \<Rightarrow> advertisement" where
  "invalidate record0 message = record0\<lparr>ad_validationError := Some message\<rparr>"

definition advertisement_names :: "string list" where
  "advertisement_names = [''inbound_tag'', ''name'', ''topology'', ''host'', ''port'', ''transport'', ''security'']"

text \<open>The checks behind the strict decode.\<close>

definition check_advertisement ::
  "adv_lib \<Rightarrow> string \<times> bool \<Rightarrow> string \<times> bool \<Rightarrow> string \<times> bool \<Rightarrow> string \<times> bool \<Rightarrow> int \<times> bool \<Rightarrow> jdoc option \<Rightarrow> jdoc option \<Rightarrow> advertisement" where
  "check_advertisement A tag name topology host port transport security =
     (let rec0 = zero_advertisement\<lparr>ad_InboundTag := fst tag, ad_Name := (if fst name = [] then fst tag else fst name),
            ad_Topology := fst topology, ad_Host := fst host\<rparr> in
      if \<not> snd tag \<or> fst tag = [] then invalidate rec0 ''inbound_tag is required and must not be empty.''
      else if snd name \<and> fst name = [] then invalidate rec0 ''name must not be empty when present.''
      else if \<not> snd topology \<or> fst topology \<noteq> ''direct'' \<and> fst topology \<noteq> ''fronted'' then
        invalidate rec0 ''topology must be direct or fronted.''
      else if \<not> snd host \<or> \<not> validAdvertisedHost (al_to_ascii A) (fst host) then
        invalidate rec0 ''host must be a domain, IPv4 address, or IPv6 address without a scheme or path.''
      else if \<not> snd port \<or> fst port < 1 \<or> 65535 < fst port then
        invalidate rec0 ''port must be an integer from 1 through 65535.''
      else
        let rec1 = rec0\<lparr>ad_Port := word_of_int (fst port)\<rparr> in
        (case parseTransport A transport of
           Inl problem \<Rightarrow> invalidate rec1 problem
         | Inr t \<Rightarrow>
             let rec2 = rec1\<lparr>ad_Transport := t\<rparr> in
             (case parseSecurity security (fst host) of
                Inl problem \<Rightarrow> invalidate rec2 problem
              | Inr s \<Rightarrow> rec2\<lparr>ad_Security := s\<rparr>)))"

definition parseAdvertisement :: "adv_lib \<Rightarrow> jdoc \<Rightarrow> advertisement" where
  "parseAdvertisement A d =
     (case decodeStrict advertisement_names d of
        None \<Rightarrow> invalidate (advertisementIdentity d) ''Advertisement fields must use the documented names and JSON types.''
      | Some kvs \<Rightarrow>
          (case (string_field ''inbound_tag'' kvs, string_field ''name'' kvs, string_field ''topology'' kvs, string_field ''host'' kvs,
                 int_field ''port'' kvs) of
             (Some tag, Some name, Some topology, Some host, Some port) \<Rightarrow>
               check_advertisement A tag name topology host port (raw_field ''transport'' kvs) (raw_field ''security'' kvs)
           | _ \<Rightarrow> invalidate (advertisementIdentity d) ''Advertisement fields must use the documented names and JSON types.''))"

definition markDuplicates :: "advertisement list \<Rightarrow> advertisement list" where
  "markDuplicates records =
     map (\<lambda>r. r\<lparr>ad_duplicate := (ad_InboundTag r \<noteq> [] \<and> 1 < length (filter (\<lambda>q. ad_InboundTag q = ad_InboundTag r) records))\<rparr>) records"

datatype adv_error = RootInvalid | ErrUnsupportedVersion

definition version_field :: "int option \<Rightarrow> jshape \<Rightarrow> int option option" where
  "version_field _ s = (case s of SNull \<Rightarrow> Some None | SNum t \<Rightarrow> map_option Some (json_int t) | _ \<Rightarrow> None)"

definition advertisements_field :: "jdoc list option \<Rightarrow> jshape \<Rightarrow> jdoc list option option" where
  "advertisements_field _ s = (case s of SNull \<Rightarrow> Some None | SArr ds \<Rightarrow> Some (Some ds) | _ \<Rightarrow> None)"

definition parseRoot :: "adv_lib \<Rightarrow> jdoc \<Rightarrow> adv_error + advertisement list" where
  "parseRoot A d =
     (case decodeStrict [''version'', ''advertisements''] d of
        None \<Rightarrow> Inl RootInvalid
      | Some kvs \<Rightarrow>
          (case (decode_each version_field (occurrences ''version'' kvs) None,
                 decode_each advertisements_field (occurrences ''advertisements'' kvs) None) of
             (Some version, Some ads) \<Rightarrow>
               (case version of
                  None \<Rightarrow> Inl RootInvalid
                | Some v \<Rightarrow>
                    if v \<noteq> 1 then Inl ErrUnsupportedVersion
                    else case ads of
                      None \<Rightarrow> Inl RootInvalid
                    | Some ds \<Rightarrow> Inr (markDuplicates (map (parseAdvertisement A) ds)))
           | _ \<Rightarrow> Inl RootInvalid))"

definition adv_Parse :: "adv_lib \<Rightarrow> (string \<Rightarrow> jdoc option) \<Rightarrow> string \<Rightarrow> adv_error + advertisement list" where
  "adv_Parse A decode document =
     (if \<not> valid_utf8 document then Inl RootInvalid
      else case decode document of
        None \<Rightarrow> Inl RootInvalid
      | Some d \<Rightarrow> if \<not> keys_distinct d then Inl RootInvalid else parseRoot A d)"

section \<open>The watched source\<close>

definition adv_parseSource ::
  "adv_lib \<Rightarrow> (string \<Rightarrow> jdoc option) \<Rightarrow> (string \<Rightarrow> string) \<Rightarrow> advertisement list \<Rightarrow> string \<Rightarrow> string \<times> string + advertisement list" where
  "adv_parseSource A decode diagnostic _ document =
     (case adv_Parse A decode document of
        Inr view \<Rightarrow> Inr view
      | Inl ErrUnsupportedVersion \<Rightarrow> Inl (''unsupported_version'', diagnostic document)
      | Inl RootInvalid \<Rightarrow> Inl (''parse_failed'', diagnostic document))"

definition adv_messages :: messages where
  "adv_messages =
    [(ReadFailed, ''The Advertised connection settings file could not be read.'',
       ''The Advertised connection settings file could not be read. Profiles use the last valid Advertised connection settings.''),
     (''parse_failed'', ''The Advertised connection settings file could not be parsed.'',
       ''The Advertised connection settings file could not be parsed. Profiles use the last valid Advertised connection settings.''),
     (''unsupported_version'', ''The Advertised connection settings version is not supported.'',
       ''The Advertised connection settings version is not supported. Profiles use the last valid Advertised connection settings.'')]"

text \<open>The number of distinct unknown tags a load warns about; none without a current xray view.\<close>

definition warnUnknownInbounds :: "parsed source_snapshot option \<Rightarrow> advertisement list \<Rightarrow> nat" where
  "warnUnknownInbounds inbounds view =
     (case inbounds of
        None \<Rightarrow> 0
      | Some snap \<Rightarrow>
          if \<not> sn_available snap \<or> sn_Stale snap then 0
          else
            let known = map ib_Tag (pd_View (sn_Value snap)) in
            length (dedupe_from [] (filter (\<lambda>t. t \<noteq> [] \<and> t \<notin> set known) (map ad_InboundTag view))))"

text \<open>
  The loop of \<^verbatim>\<open>reportLoads\<close>: a load logs its size and warns; a change of the inbounds warns again when a
  view has loaded; a closed channel of loads ends it, one of inbounds is no longer selected.
\<close>

datatype load_event = Loaded | LoadsClosed | InboundsChanged | InboundsClosed | ReportCancelled

record report_loop =
  rl_running :: bool
  rl_inbounds :: bool
  rl_infos :: "nat list"
  rl_warnings :: "nat list"

definition report_step ::
  "load_event \<Rightarrow> advertisement list source_snapshot \<Rightarrow> parsed source_snapshot option \<Rightarrow> report_loop \<Rightarrow> report_loop" where
  "report_step ev snap inbounds s =
     (let warn = (\<lambda>s. if 0 < warnUnknownInbounds inbounds (sn_Value snap)
            then s\<lparr>rl_warnings := rl_warnings s @ [warnUnknownInbounds inbounds (sn_Value snap)]\<rparr> else s) in
      if \<not> rl_running s then s
      else case ev of
        ReportCancelled \<Rightarrow> s\<lparr>rl_running := False\<rparr>
      | LoadsClosed \<Rightarrow> s\<lparr>rl_running := False\<rparr>
      | Loaded \<Rightarrow> warn (s\<lparr>rl_infos := rl_infos s @ [length (sn_Value snap)]\<rparr>)
      | InboundsClosed \<Rightarrow> s\<lparr>rl_inbounds := False\<rparr>
      | InboundsChanged \<Rightarrow> if rl_inbounds s \<and> sn_available snap then warn s else s)"


section \<open>Types of a parsed advertisement\<close>

definition transport_typed :: "adv_transport \<Rightarrow> bool" where
  "transport_typed t \<longleftrightarrow> at_Type t \<noteq> [] \<and>
     (at_Type t \<in> {TransportWebSocket, TransportHTTPUpgrade, TransportXHTTP} \<longleftrightarrow> at_Path t \<noteq> []) \<and>
     (at_Host t \<noteq> [] \<longleftrightarrow> at_Path t \<noteq> []) \<and>
     (at_Type t = TransportGRPC \<longleftrightarrow> at_ServiceName t \<noteq> []) \<and>
     (at_Authority t \<noteq> [] \<longrightarrow> at_Type t = TransportGRPC) \<and>
     (if at_Type t = TransportGRPC then at_Mode t \<in> {''gun'', ''multi'', ''guna''}
      else if at_Type t = TransportXHTTP then at_Mode t \<in> {''auto'', ''packet-up'', ''stream-up'', ''stream-one''}
      else at_Mode t = []) \<and>
     (if at_extraPresent t then at_Type t = TransportXHTTP \<and> validUnicodeScalarEscapes (at_extra t) else at_extra t = [])"

definition security_typed :: "adv_security \<Rightarrow> bool" where
  "security_typed s \<longleftrightarrow> as_Type s \<noteq> [] \<and>
     (as_Type s \<in> {SecurityTLS, SecurityReality} \<longleftrightarrow> as_Fingerprint s \<noteq> []) \<and>
     (as_ServerName s \<noteq> [] \<longleftrightarrow> as_Fingerprint s \<noteq> []) \<and>
     (as_Type s = SecurityReality \<longleftrightarrow> as_PublicKey s \<noteq> []) \<and>
     (as_ShortIDPresent s \<longleftrightarrow> as_Type s = SecurityReality) \<and>
     (as_ShortID s \<noteq> [] \<or> as_PostQuantumVerify s \<noteq> [] \<or> as_SpiderX s \<noteq> [] \<longrightarrow> as_Type s = SecurityReality) \<and>
     (as_ECH s \<noteq> [] \<or> as_VerifyName s \<noteq> [] \<or> as_alpn s \<noteq> [] \<or> as_certificatePins s \<noteq> [] \<longrightarrow> as_Type s = SecurityTLS) \<and>
     [] \<notin> set (as_alpn s) \<and> [] \<notin> set (as_certificatePins s)"

definition advertisement_typed :: "adv_lib \<Rightarrow> advertisement \<Rightarrow> bool" where
  "advertisement_typed A r \<longleftrightarrow> ad_InboundTag r \<noteq> [] \<and> ad_Name r \<noteq> [] \<and> ad_Topology r \<in> {''direct'', ''fronted''} \<and>
     validAdvertisedHost (al_to_ascii A) (ad_Host r) \<and> ad_Port r \<noteq> 0 \<and>
     transport_typed (ad_Transport r) \<and> security_typed (ad_Security r)"

lemma objectType_nonempty: "objectType d = Some t \<Longrightarrow> t \<noteq> []"
  by (auto simp: objectType_def split: option.splits if_splits prod.splits bool.splits)

lemma parse_type_only_typed:
  "parse_type_only k d m = Inr t \<Longrightarrow> t = blank_transport k"
  by (simp add: parse_type_only_def split: option.splits)

lemma parse_http_typed:
  assumes "parse_http_transport k d = Inr t"
  shows "\<exists>path host. path \<noteq> [] \<and> host \<noteq> [] \<and> t = (blank_transport k)\<lparr>at_Path := path, at_Host := host\<rparr>"
  using assms unfolding parse_http_transport_def by (simp split: option.splits list.splits if_splits) blast

lemma parse_grpc_typed:
  assumes "parse_grpc_transport d = Inr t"
  shows "\<exists>service mode authority. service \<noteq> [] \<and> mode \<in> {''gun'', ''multi'', ''guna''} \<and>
    t = (blank_transport TransportGRPC)\<lparr>at_ServiceName := service, at_Mode := mode, at_Authority := authority\<rparr>"
  using assms unfolding parse_grpc_transport_def Let_def by (simp split: option.splits list.splits if_splits) blast+

lemma parse_xhttp_extra_typed:
  assumes "parse_xhttp_extra A kvs u = Inr t"
  shows "t = u \<or> (\<exists>extra. validUnicodeScalarEscapes (raw extra) \<and> t = u\<lparr>at_extra := raw extra, at_extraPresent := True\<rparr>)"
  using assms unfolding parse_xhttp_extra_def validJCSObject_def by (auto split: option.splits if_splits)

lemma parse_xhttp_typed:
  assumes "parse_xhttp_transport A d = Inr t"
  shows "\<exists>path host mode kvs. path \<noteq> [] \<and> host \<noteq> [] \<and> mode \<in> {''auto'', ''packet-up'', ''stream-up'', ''stream-one''} \<and>
    parse_xhttp_extra A kvs ((blank_transport TransportXHTTP)\<lparr>at_Path := path, at_Host := host, at_Mode := mode\<rparr>) = Inr t"
  using assms unfolding parse_xhttp_transport_def by (simp split: option.splits list.splits if_splits) blast+

lemma parseTransport_typed:
  assumes "parseTransport A document = Inr t"
  shows "transport_typed t"
proof -
  obtain d k where d: "document = Some d" "objectType document = Some k"
    using assms by (cases document; cases "objectType document") (simp_all add: parseTransport_def)
  have k: "k \<noteq> []" using objectType_nonempty d(2) by simp
  note p = assms [unfolded parseTransport_def d(2) prod.case option.case, unfolded d(1) option.case]
  consider (tcp) "k = TransportTCP" | (http) "k = TransportWebSocket \<or> k = TransportHTTPUpgrade" | (grpc) "k = TransportGRPC"
    | (xhttp) "k = TransportXHTTP"
    | (other) "k \<noteq> TransportTCP" "k \<noteq> TransportWebSocket" "k \<noteq> TransportHTTPUpgrade" "k \<noteq> TransportGRPC" "k \<noteq> TransportXHTTP"
    by blast
  then show ?thesis
  proof cases
    case tcp
    then show ?thesis using p parse_type_only_typed by (force simp: transport_typed_def blank_transport_def)
  next
    case http
    then have "parse_http_transport k d = Inr t" using p by auto
    then show ?thesis using http by (auto dest!: parse_http_typed simp: transport_typed_def blank_transport_def)
  next
    case grpc
    then have "parse_grpc_transport d = Inr t" using p by simp
    then show ?thesis by (auto dest!: parse_grpc_typed simp: transport_typed_def blank_transport_def)
  next
    case xhttp
    then have "parse_xhttp_transport A d = Inr t" using p by simp
    then obtain path host mode kvs where "path \<noteq> []" "host \<noteq> []" "mode \<in> {''auto'', ''packet-up'', ''stream-up'', ''stream-one''}"
      "parse_xhttp_extra A kvs ((blank_transport TransportXHTTP)\<lparr>at_Path := path, at_Host := host, at_Mode := mode\<rparr>) = Inr t"
      using parse_xhttp_typed by metis
    then show ?thesis by (auto dest!: parse_xhttp_extra_typed simp: transport_typed_def blank_transport_def)
  next
    case other
    then have "t = blank_transport k" using p parse_type_only_typed by auto
    then show ?thesis using other k by (simp add: transport_typed_def blank_transport_def)
  qed
qed


lemma fingerprint_nonempty: "fingerprint f = Inr x \<Longrightarrow> x \<noteq> []"
  by (auto simp: fingerprint_def split: if_splits)

lemma array_field_nonempty:
  assumes "decode_each stringArrayField_UnmarshalJSON ds (vs, b) = Some (ws, b')" and "[] \<notin> set vs"
  shows "[] \<notin> set ws"
  using assms
proof (induction ds arbitrary: vs b)
  case (Cons d ds)
  then obtain us c where "stringArrayField_UnmarshalJSON (vs, b) (shape d) = Some (us, c)"
      "decode_each stringArrayField_UnmarshalJSON ds (us, c) = Some (ws, b')"
    by (auto split: option.splits)
  moreover have "[] \<notin> set us"
    using calculation(1) by (auto simp: stringArrayField_UnmarshalJSON_def split: jshape.splits option.splits if_splits)
  ultimately show ?case using Cons.IH by blast
qed simp

lemma string_array_nonempty: "string_array_field name kvs = Some f \<Longrightarrow> [] \<notin> set (fst f)"
  using array_field_nonempty by (cases f) (fastforce simp: string_array_field_def)

lemma refuses_unless:
  "(if \<not> b then Inl m else x) = Inr y \<Longrightarrow> b" "(if \<not> b then Inl m else x) = Inr y \<Longrightarrow> x = Inr y"
  by (simp_all split: if_splits)

lemma those_length: "those xs = Some ys \<Longrightarrow> length ys = length xs"
  by (induction xs arbitrary: ys) (auto split: option.splits)

lemma string_fields_length: "string_fields names kvs = Some fs \<Longrightarrow> length fs = length names"
  by (auto simp: string_fields_def dest: those_length)

lemma parseTLS_typed:
  assumes "parseTLS h d = Inr s"
  shows "\<exists>f name ech verify alpn pins. f \<noteq> [] \<and> (h \<noteq> [] \<longrightarrow> name \<noteq> []) \<and> [] \<notin> set alpn \<and> [] \<notin> set pins \<and>
    s = (blank_security SecurityTLS)\<lparr>as_Fingerprint := f, as_ServerName := name, as_ECH := ech, as_VerifyName := verify,
      as_alpn := alpn, as_certificatePins := pins\<rparr>"
proof -
  obtain kvs where "decodeStrict [''type'', ''fingerprint'', ''server_name'', ''alpn'', ''ech'', ''certificate_pins'', ''verify_name''] d = Some kvs"
    using assms unfolding parseTLS_def by (simp split: option.splits)
  note p = assms [unfolded parseTLS_def this option.case]
  obtain alpn pins where a: "string_array_field ''alpn'' kvs = Some alpn" "string_array_field ''certificate_pins'' kvs = Some pins"
    using p by (cases "string_array_field ''alpn'' kvs"; cases "string_array_field ''certificate_pins'' kvs";
        cases "string_fields [''type'', ''fingerprint'', ''server_name'', ''ech'', ''verify_name''] kvs") (simp_all split: list.splits)
  obtain fs where s: "string_fields [''type'', ''fingerprint'', ''server_name'', ''ech'', ''verify_name''] kvs = Some fs"
    using p by (cases "string_fields [''type'', ''fingerprint'', ''server_name'', ''ech'', ''verify_name''] kvs") simp_all
  obtain t0 fp name ech verify where fs: "fs = [t0, fp, name, ech, verify]"
    using string_fields_length [OF s] by (auto simp: length_Suc_conv)
  obtain f where f: "fingerprint fp = Inr f"
    using p by (cases "fingerprint fp") (simp_all add: a s fs)
  show ?thesis using p fingerprint_nonempty [OF f] string_array_nonempty [OF a(1)] string_array_nonempty [OF a(2)]
    by (intro exI [of _ f] exI [of _ "if fst name = [] then h else fst name"] exI [of _ "fst ech"] exI [of _ "fst verify"]
        exI [of _ "fst alpn"] exI [of _ "fst pins"]) (simp add: a s fs f)
qed

lemma parseReality_typed:
  assumes "parseReality d = Inr s"
  shows "\<exists>f name key sid pqv spider. f \<noteq> [] \<and> name \<noteq> [] \<and> key \<noteq> [] \<and>
    s = (blank_security SecurityReality)\<lparr>as_Fingerprint := f, as_ServerName := name, as_PublicKey := key,
      as_ShortID := sid, as_ShortIDPresent := True, as_PostQuantumVerify := pqv, as_SpiderX := spider\<rparr>"
proof -
  let ?names = "[''type'', ''fingerprint'', ''server_name'', ''public_key'', ''short_id'', ''post_quantum_verify'', ''spider_x'']"
  obtain fs where s: "strict_strings ?names d = Some fs"
    using assms unfolding parseReality_def by (cases "strict_strings ?names d") simp_all
  then have "length fs = 7"
    using string_fields_length by (auto simp: strict_strings_def Option.bind_eq_Some_conv)
  then obtain t0 fp name key sid pqv spider where fs: "fs = [t0, fp, name, key, sid, pqv, spider]"
    by (auto simp: length_Suc_conv eval_nat_numeral)
  obtain f where f: "fingerprint fp = Inr f"
    using assms unfolding parseReality_def s fs by (cases "fingerprint fp") simp_all
  note p = assms [unfolded parseReality_def s fs option.case list.case f sum.case]
  note n = refuses_unless [OF p] refuses_unless [OF refuses_unless(2) [OF p]]
  note q = refuses_unless [OF n(4)]
  show ?thesis using q(2) n(1,3) fingerprint_nonempty [OF f] unfolding sum.inject by blast
qed

lemma parseSecurity_typed:
  assumes "parseSecurity document h = Inr s" and "h \<noteq> []"
  shows "security_typed s"
proof -
  obtain d k where d: "document = Some d" "objectType document = Some k"
    using assms by (cases document; cases "objectType document") (simp_all add: parseSecurity_def)
  have k: "k \<noteq> []" using objectType_nonempty d(2) by simp
  note p = assms(1) [unfolded parseSecurity_def d(2) prod.case option.case, unfolded d(1) option.case]
  consider (tls) "k = SecurityTLS" | (reality) "k = SecurityReality" | (other) "k \<noteq> SecurityTLS" "k \<noteq> SecurityReality" by blast
  then show ?thesis
  proof cases
    case tls
    then have "parseTLS h d = Inr s" using p by simp
    from parseTLS_typed [OF this] show ?thesis using assms(2) by (auto simp: security_typed_def blank_security_def)
  next
    case reality
    then have "parseReality d = Inr s" using p by simp
    from parseReality_typed [OF this] show ?thesis by (auto simp: security_typed_def blank_security_def)
  next
    case other
    then have "s = blank_security k" using p by (simp split: option.splits)
    then show ?thesis using other k by (simp add: security_typed_def blank_security_def)
  qed
qed

lemma invalidate_error [simp]: "ad_validationError (invalidate r m) = Some m"
  by (simp add: invalidate_def)

lemma port_nonzero: "1 \<le> p \<Longrightarrow> p \<le> 65535 \<Longrightarrow> (word_of_int p :: 16 word) \<noteq> 0"
proof -
  assume "1 \<le> p" "p \<le> (65535 :: int)"
  then have "uint (word_of_int p :: 16 word) = p" by (simp add: uint_word_of_int)
  then show ?thesis using \<open>1 \<le> p\<close> by auto
qed

lemma check_advertisement_typed:
  assumes "ad_validationError (check_advertisement A tag name topology host port tr se) = None"
  shows "advertisement_typed A (check_advertisement A tag name topology host port tr se)"
proof -
  let ?r = "check_advertisement A tag name topology host port tr se"
  note d = assms [unfolded check_advertisement_def Let_def]
  have g: "snd tag" "fst tag \<noteq> []" "\<not> (snd name \<and> fst name = [])" "snd topology"
    "\<not> (fst topology \<noteq> ''direct'' \<and> fst topology \<noteq> ''fronted'')" "snd host"
    "validAdvertisedHost (al_to_ascii A) (fst host)" "snd port" "\<not> fst port < 1" "\<not> 65535 < fst port"
    using d by (simp_all split: if_splits)
  obtain t s where ts: "parseTransport A tr = Inr t" "parseSecurity se (fst host) = Inr s"
    using d by (simp split: if_splits sum.splits)
  have h: "fst host \<noteq> []" using g(7) by (auto simp: validAdvertisedHost_def)
  have r: "?r = zero_advertisement\<lparr>ad_InboundTag := fst tag, ad_Name := (if fst name = [] then fst tag else fst name),
      ad_Topology := fst topology, ad_Host := fst host, ad_Port := word_of_int (fst port), ad_Transport := t, ad_Security := s\<rparr>"
    unfolding check_advertisement_def Let_def ts sum.case if_not_P [OF g(3)]
    using g(1,2,4-10) by (cases "fst topology = ''direct''") simp_all
  have "fst topology \<in> {''direct'', ''fronted''}" using g(5) by blast
  then show ?thesis unfolding r advertisement_typed_def
    using g port_nonzero [of "fst port"] parseTransport_typed [OF ts(1)] parseSecurity_typed [OF ts(2) h] by simp
qed

lemma parseAdvertisement_typed:
  assumes "ad_validationError (parseAdvertisement A d) = None"
  shows "advertisement_typed A (parseAdvertisement A d)"
proof -
  obtain kvs where k: "decodeStrict advertisement_names d = Some kvs"
    using assms by (cases "decodeStrict advertisement_names d") (simp_all add: parseAdvertisement_def)
  have "string_field ''inbound_tag'' kvs \<noteq> None \<and> string_field ''name'' kvs \<noteq> None \<and> string_field ''topology'' kvs \<noteq> None \<and>
      string_field ''host'' kvs \<noteq> None \<and> int_field ''port'' kvs \<noteq> None"
    using assms unfolding parseAdvertisement_def k option.case
    by (cases "string_field ''inbound_tag'' kvs"; cases "string_field ''name'' kvs"; cases "string_field ''topology'' kvs";
        cases "string_field ''host'' kvs"; cases "int_field ''port'' kvs") simp_all
  then obtain tag name topology host port where f: "string_field ''inbound_tag'' kvs = Some tag" "string_field ''name'' kvs = Some name"
      "string_field ''topology'' kvs = Some topology" "string_field ''host'' kvs = Some host" "int_field ''port'' kvs = Some port"
    by blast
  have "parseAdvertisement A d =
      check_advertisement A tag name topology host port (raw_field ''transport'' kvs) (raw_field ''security'' kvs)"
    unfolding parseAdvertisement_def k option.case by (simp add: f case_prod_beta)
  then show ?thesis using assms check_advertisement_typed by metis
qed


section \<open>Properties\<close>

lemma markDuplicates_map:
  "map (\<lambda>r. r\<lparr>ad_duplicate := b\<rparr>) (markDuplicates rs) = map (\<lambda>r. r\<lparr>ad_duplicate := b\<rparr>) rs"
  by (simp add: markDuplicates_def comp_def)

lemma markDuplicates_tags: "map ad_InboundTag (markDuplicates rs) = map ad_InboundTag rs"
  by (simp add: markDuplicates_def comp_def)

lemma parseAdvertisement_fresh: "(parseAdvertisement A d)\<lparr>ad_duplicate := False\<rparr> = parseAdvertisement A d"
proof -
  have i: "(invalidate r m)\<lparr>ad_duplicate := False\<rparr> = invalidate (r\<lparr>ad_duplicate := False\<rparr>) m" for r m
    by (simp add: invalidate_def)
  have z: "zero_advertisement\<lparr>ad_duplicate := False\<rparr> = zero_advertisement" by (simp add: zero_advertisement_def)
  have "(advertisementIdentity d)\<lparr>ad_duplicate := False\<rparr> = advertisementIdentity d"
    by (simp add: advertisementIdentity_def zero_advertisement_def Let_def)
  moreover have "(check_advertisement A tag name topology host port tr se)\<lparr>ad_duplicate := False\<rparr> =
      check_advertisement A tag name topology host port tr se" for tag name topology host port tr se
    unfolding check_advertisement_def Let_def by (simp add: i zero_advertisement_def split: sum.split)
  ultimately show ?thesis
    unfolding parseAdvertisement_def by (simp add: i split: option.split)
qed

lemma decode_each_last:
  assumes "\<And>v v' s. f v s = f v' s"
  shows "decode_each f ds v0 = Some v \<Longrightarrow> (case rev ds of [] \<Rightarrow> v = v0 | d # _ \<Rightarrow> f v0 (shape d) = Some v)"
proof (induction ds arbitrary: v0)
  case (Cons d ds)
  then obtain v1 where v1: "f v0 (shape d) = Some v1" "decode_each f ds v1 = Some v" by (auto split: option.splits)
  from Cons.IH [OF v1(2)] show ?case
    using v1 assms [of v1 _ v0] by (cases "rev ds") (auto split: list.splits)
qed simp

lemma parseRoot_view:
  assumes "parseRoot A d = Inr view"
  obtains kvs a ds where "shape d = SObj kvs" "raw_field ''advertisements'' kvs = Some a" "shape a = SArr ds"
    "view = markDuplicates (map (parseAdvertisement A) ds)"
proof -
  obtain kvs where k: "decodeStrict [''version'', ''advertisements''] d = Some kvs"
    using assms by (cases "decodeStrict [''version'', ''advertisements''] d") (simp_all add: parseRoot_def)
  obtain v ds where v: "decode_each version_field (occurrences ''version'' kvs) None = Some v" and
    ds: "decode_each advertisements_field (occurrences ''advertisements'' kvs) None = Some (Some ds)" and
    view: "view = markDuplicates (map (parseAdvertisement A) ds)"
    using assms unfolding parseRoot_def k option.case by (simp split: option.splits if_splits)
  obtain a where a: "raw_field ''advertisements'' kvs = Some a" "shape a = SArr ds"
    using decode_each_last [OF _ ds]
    by (cases "rev (occurrences ''advertisements'' kvs)")
       (auto simp: raw_field_def advertisements_field_def split: jshape.splits)
  have "kvs \<noteq> []" using a(1) by (auto simp: raw_field_def occurrences_def)
  then have "shape d = SObj kvs"
    using k by (auto simp: decodeStrict_def struct_entries_def split: jshape.splits if_splits)
  then show thesis using that a view by blast
qed

text \<open>
  C35. A document that parses yields one record per element of its advertisements array, in order,
  each parsed from that element alone; a record is marked duplicate exactly when another has its
  non-empty tag; and a record without a validation error is well-typed: tag and name present, a known
  topology, a valid host, a port in range, exactly the fields its transport and its security type
  call for, none empty that they require, and its extra settings free of lone surrogates.
\<close>

theorem parsed_advertisements_typed:
  assumes "adv_Parse A decode document = Inr view"
  shows "(\<exists>d kvs a ds. decode document = Some d \<and> keys_distinct d \<and> shape d = SObj kvs \<and>
      raw_field ''advertisements'' kvs = Some a \<and> shape a = SArr ds \<and>
      map (\<lambda>r. r\<lparr>ad_duplicate := False\<rparr>) view = map (parseAdvertisement A) ds) \<and>
    (\<forall>r \<in> set view. (ad_validationError r = None \<longrightarrow> advertisement_typed A r) \<and>
      (ad_duplicate r \<longleftrightarrow> ad_InboundTag r \<noteq> [] \<and> 1 < length (filter (\<lambda>q. ad_InboundTag q = ad_InboundTag r) view)))"
proof -
  obtain d where d: "decode document = Some d" "keys_distinct d" "parseRoot A d = Inr view"
    using assms unfolding adv_Parse_def by (simp split: if_splits option.splits)
  obtain kvs a ds where v: "shape d = SObj kvs" "raw_field ''advertisements'' kvs = Some a" "shape a = SArr ds"
      "view = markDuplicates (map (parseAdvertisement A) ds)"
    by (rule parseRoot_view [OF d(3)])
  have same: "map (\<lambda>r. r\<lparr>ad_duplicate := False\<rparr>) view = map (parseAdvertisement A) ds"
    unfolding v(4) markDuplicates_map by (simp add: parseAdvertisement_fresh)
  have count: "length (filter (\<lambda>q. ad_InboundTag q = t) view) = length (filter (\<lambda>q. ad_InboundTag q = t) (map (parseAdvertisement A) ds))" for t
  proof -
    have l: "length (filter (\<lambda>q. ad_InboundTag q = t) xs) = length (filter (\<lambda>s. s = t) (map ad_InboundTag xs))"
      for xs :: "advertisement list" by (induction xs) auto
    show ?thesis unfolding v(4) l markDuplicates_tags by (rule refl)
  qed
  have rec0: "(ad_validationError r = None \<longrightarrow> advertisement_typed A r) \<and>
      (ad_duplicate r \<longleftrightarrow> ad_InboundTag r \<noteq> [] \<and> 1 < length (filter (\<lambda>q. ad_InboundTag q = ad_InboundTag r) view))"
    if r: "r \<in> set view" for r
  proof -
    from r obtain e where e: "r = (parseAdvertisement A e)\<lparr>ad_duplicate := (ad_InboundTag (parseAdvertisement A e) \<noteq> [] \<and>
        1 < length (filter (\<lambda>q. ad_InboundTag q = ad_InboundTag (parseAdvertisement A e)) (map (parseAdvertisement A) ds)))\<rparr>"
      unfolding v(4) markDuplicates_def by auto
    have "ad_validationError r = None \<longrightarrow> advertisement_typed A r"
      using parseAdvertisement_typed [of A e] unfolding e by (simp add: advertisement_typed_def)
    moreover have "ad_duplicate r \<longleftrightarrow> ad_InboundTag r \<noteq> [] \<and> 1 < length (filter (\<lambda>q. ad_InboundTag q = ad_InboundTag r) view)"
      unfolding count unfolding e by simp
    ultimately show ?thesis by blast
  qed
  show ?thesis using d v(1-3) same rec0 by blast
qed

text \<open>
  C36. The parse and the evaluation agree on hosts: given that the domain mapping refuses spaces and
  brackets, a host is accepted in an advertisement exactly when evaluation can canonicalize it, so a
  record that parsed as valid is never refused later for its public host.
\<close>

theorem advertised_hosts_canonicalize:
  assumes idna_hostname: "\<forall>h ascii. al_to_ascii A h = Some ascii \<longrightarrow> \<not> has_space h \<and> \<not> contains_any h ''[]''"
  shows "(validAdvertisedHost (al_to_ascii A) host \<longleftrightarrow> canonicalHost (al_to_ascii A) host \<noteq> None) \<and>
    (\<forall>d L. ad_validationError (parseAdvertisement A d) = None \<and> pl_to_ascii L = al_to_ascii A \<longrightarrow>
      invalidClientValues L (parseAdvertisement A d) \<noteq> ''The advertised public host cannot be canonicalized.'')"
proof -
  have eq: "validAdvertisedHost (al_to_ascii A) h \<longleftrightarrow> canonicalHost (al_to_ascii A) h \<noteq> None" for h
    using idna_hostname by (rule valid_host_iff_canonical)
  have "invalidClientValues L r \<noteq> ''The advertised public host cannot be canonicalized.''"
    if "canonicalHost (pl_to_ascii L) (ad_Host r) \<noteq> None" for L r
    using that unfolding invalidClientValues_def Let_def by (simp split: if_split)
  then show ?thesis using eq parseAdvertisement_typed [of A] by (simp add: advertisement_typed_def)
qed


section \<open>An example\<close>

definition ex_adv_lib :: adv_lib where
  "ex_adv_lib = \<lparr>al_to_ascii = (\<lambda>h. if h = ''a.b'' then Some ''a.b'' else None), al_finite = (\<lambda>_. True)\<rparr>"

definition ex_text :: "string \<Rightarrow> jdoc" where
  "ex_text s = JDoc [] (SStr s)"

definition ex_record :: jdoc where
  "ex_record = JDoc [] (SObj [(''inbound_tag'', ex_text ''t''), (''topology'', ex_text ''direct''), (''host'', ex_text ''a.b''),
     (''port'', JDoc [] (SNum ''443'')), (''transport'', JDoc [] (SObj [(''type'', ex_text ''tcp'')])),
     (''security'', JDoc [] (SObj [(''type'', ex_text ''tls'')]))])"

definition ex_document :: jdoc where
  "ex_document = JDoc [] (SObj [(''version'', JDoc [] (SNum ''1'')), (''advertisements'', JDoc [] (SArr [ex_record]))])"

lemma ex_valid: "ad_validationError (parseAdvertisement ex_adv_lib ex_record) = None"
  by code_simp

lemma ex_parses: "adv_Parse ex_adv_lib (\<lambda>_. Some ex_document) [] = Inr [parseAdvertisement ex_adv_lib ex_record]"
  by code_simp


theorem parsed_advertisements_typed_witness:
  "\<exists>view. adv_Parse ex_adv_lib (\<lambda>_. Some ex_document) [] = Inr view \<and> (\<forall>r \<in> set view. advertisement_typed ex_adv_lib r)"
  using parsed_advertisements_typed [OF ex_parses] ex_valid ex_parses by auto

theorem advertised_hosts_canonicalize_witness:
  "validAdvertisedHost (al_to_ascii ex_adv_lib) ''a.b'' \<and> canonicalHost (al_to_ascii ex_adv_lib) ''a.b'' \<noteq> None"
proof -
  have h: "\<forall>h ascii. al_to_ascii ex_adv_lib h = Some ascii \<longrightarrow> \<not> has_space h \<and> \<not> contains_any h ''[]''"
    by (simp add: ex_adv_lib_def space_seqs_def has_prefix_def contains_any_def)
  have "canonicalHost (al_to_ascii ex_adv_lib) ''a.b'' \<noteq> None" by code_simp
  then show ?thesis using advertised_hosts_canonicalize [OF h, of "''a.b''"] by blast
qed

end
