(* ===== verification/GoStrings.thy ===== *)
theory GoStrings
  imports Prelude
begin

text \<open>
  The rest of the \<^verbatim>\<open>strings\<close> package the panel uses outside the config and the store: \<^verbatim>\<open>Contains\<close>,
  \<^verbatim>\<open>Split\<close> for a separator of any length, \<^verbatim>\<open>Fields\<close>, \<^verbatim>\<open>Cut\<close> and the validity of percent escapes,
  with the lemmas that invert them.
\<close>

section \<open>Contains\<close>

fun contains_text :: "string \<Rightarrow> string \<Rightarrow> bool" where
  "contains_text [] p \<longleftrightarrow> p = []"
| "contains_text (c # r) p \<longleftrightarrow> has_prefix (c # r) p \<or> contains_text r p"

lemma contains_text_append: "contains_text s p \<Longrightarrow> contains_text (w @ s) p"
  by (induction w) auto

lemma contains_text_in: "contains_text (u @ p @ v) p"
proof -
  have "contains_text (p @ v) p"
    by (cases "p @ v") (auto simp: has_prefix_def append_eq_Cons_conv)
  then show ?thesis by (rule contains_text_append)
qed

lemma contains_textD: "contains_text s p \<Longrightarrow> \<exists>u v. s = u @ p @ v"
proof (induction s)
  case (Cons c r)
  show ?case
  proof (cases "has_prefix (c # r) p")
    case True
    then show ?thesis by (metis append_Nil has_prefixD)
  next
    case False
    then obtain u v where "r = u @ p @ v" using Cons by auto
    then show ?thesis by (metis append_Cons)
  qed
qed simp

lemma contains_text_iff: "contains_text s p \<longleftrightarrow> (\<exists>u v. s = u @ p @ v)"
  using contains_textD contains_text_in by blast

section \<open>Split\<close>

text \<open>\<^verbatim>\<open>strings.Split(s, sep)\<close> for a separator that is not empty: cut at the leftmost occurrence, go on behind it.\<close>

fun prepend_char :: "char \<Rightarrow> string list \<Rightarrow> string list" where
  "prepend_char c [] = [[c]]"
| "prepend_char c (w # ws) = (c # w) # ws"

function split_on :: "string \<Rightarrow> string \<Rightarrow> string list" where
  "split_on sep s =
     (if sep \<noteq> [] \<and> has_prefix s sep then [] # split_on sep (drop (length sep) s)
      else case s of [] \<Rightarrow> [[]] | c # r \<Rightarrow> prepend_char c (split_on sep r))"
  by pat_completeness auto
termination
  by (relation "measure (\<lambda>(sep, s). length s)") (auto simp: has_prefix_def intro!: diff_less intro: gr0I)

declare split_on.simps [simp del]

lemma prepend_char_nonempty [simp]: "prepend_char c ws \<noteq> []"
  by (cases ws) auto

lemma split_on_nonempty [simp]: "split_on sep s \<noteq> []"
  by (subst split_on.simps) (auto split: list.splits)

lemma split_on_sep: "sep \<noteq> [] \<Longrightarrow> split_on sep (sep @ r) = [] # split_on sep r"
  by (subst split_on.simps) simp

lemma split_on_char:
  "\<not> has_prefix (c # r) sep \<Longrightarrow> split_on sep (c # r) = prepend_char c (split_on sep r)"
  by (subst split_on.simps) simp

lemma split_on_Nil: "sep \<noteq> [] \<Longrightarrow> split_on sep [] = [[]]"
  by (subst split_on.simps) (simp add: has_prefix_def)

lemma join_prepend: "ws \<noteq> [] \<Longrightarrow> join sep (prepend_char c ws) = c # join sep ws"
  by (cases "(sep, ws)" rule: join.cases) auto

lemma join_Nil_Cons: "ws \<noteq> [] \<Longrightarrow> join sep (w # ws) = w @ sep @ join sep ws"
  by (cases ws) auto

lemma join_split_on:
  assumes "sep \<noteq> []"
  shows "join sep (split_on sep s) = s"
proof (induction s rule: length_induct)
  case (1 s)
  show ?case
  proof (cases "has_prefix s sep")
    case True
    then obtain r where s: "s = sep @ r" using has_prefixD by blast
    then have "join sep (split_on sep r) = r" using 1 assms by simp
    then show ?thesis using s assms by (simp add: split_on_sep join_Nil_Cons)
  next
    case False
    show ?thesis
    proof (cases s)
      case Nil
      then show ?thesis using assms by (simp add: split_on_Nil)
    next
      case (Cons c r)
      then have "join sep (split_on sep r) = r" using 1 by simp
      then show ?thesis using False Cons by (simp add: split_on_char join_prepend)
    qed
  qed
qed

lemma split_on_whole: "sep \<noteq> [] \<Longrightarrow> \<not> contains_text s sep \<Longrightarrow> split_on sep s = [s]"
  by (induction s) (auto simp: split_on_Nil split_on_char)

text \<open>The word in front of the separator must not let it occur any earlier, not even by sharing its bytes.\<close>

lemma has_prefix_through:
  assumes "sep \<noteq> []"
  shows "has_prefix (c # w @ sep @ r) sep \<longleftrightarrow> has_prefix (c # w @ butlast sep) sep"
proof -
  have parts: "sep @ r = butlast sep @ (last sep # r)" using assms by simp
  have len: "length sep \<le> length (c # w @ butlast sep)" using assms by simp
  have "c # w @ sep @ r = (c # w @ butlast sep) @ (last sep # r)" unfolding parts by simp
  then have "take (length sep) (c # w @ sep @ r) = take (length sep) (c # w @ butlast sep)"
    using len by (simp only: take_append) simp
  then show ?thesis by (simp add: has_prefix_def)
qed

lemma split_on_first:
  assumes "sep \<noteq> []" and "\<not> contains_text (w @ butlast sep) sep"
  shows "split_on sep (w @ sep @ r) = w # split_on sep r"
  using assms(2)
  by (induction w) (use assms(1) in \<open>auto simp: split_on_sep split_on_char has_prefix_through\<close>)

lemma contains_text_length: "contains_text s p \<Longrightarrow> length p \<le> length s"
  using contains_textD by fastforce

lemma split_on_parts:
  assumes "sep \<noteq> []"
  shows "w \<in> set (butlast (split_on sep s)) \<Longrightarrow> \<not> contains_text (w @ butlast sep) sep"
proof (induction s arbitrary: w rule: length_induct)
  case (1 s)
  have short: "\<not> contains_text (butlast sep) sep"
    using contains_text_length [of "butlast sep" sep] assms by (cases sep) auto
  show ?case
  proof (cases "has_prefix s sep")
    case True
    then obtain r where s: "s = sep @ r" using has_prefixD by blast
    have "w = [] \<or> w \<in> set (butlast (split_on sep r))" using 1(2) s assms by (auto simp: split_on_sep)
    moreover have "length r < length s" using s assms by simp
    ultimately show ?thesis using 1(1) short by auto
  next
    case False
    show ?thesis
    proof (cases s)
      case Nil
      then show ?thesis using 1(2) assms by (simp add: split_on_Nil)
    next
      case (Cons c r)
      obtain v vs where ws: "split_on sep r = v # vs" using split_on_nonempty by (meson list.exhaust)
      have small: "u \<in> set (butlast (v # vs)) \<Longrightarrow> \<not> contains_text (u @ butlast sep) sep" for u
        using 1(1) Cons ws by (metis length_Cons lessI)
      have mem: "vs \<noteq> []" "w = c # v \<or> w \<in> set (butlast vs)"
        using 1(2) False Cons ws by (auto simp: split_on_char split: if_splits)
      have "r = v @ sep @ join sep vs" using join_split_on [OF assms, of r] ws mem(1) by (simp add: join_Nil_Cons)
      then have "\<not> has_prefix (c # v @ butlast sep) sep"
        using False Cons has_prefix_through [OF assms] by metis
      then show ?thesis using mem small by auto
    qed
  qed
qed

lemma split_on_last: "sep \<noteq> [] \<Longrightarrow> \<not> contains_text (last (split_on sep s)) sep"
proof (induction s rule: length_induct)
  case (1 s)
  show ?case
  proof (cases "has_prefix s sep")
    case True
    then obtain r where "s = sep @ r" using has_prefixD by blast
    then show ?thesis using 1 by (simp add: split_on_sep)
  next
    case False
    show ?thesis
    proof (cases s)
      case Nil
      then show ?thesis using 1(2) by (simp add: split_on_Nil)
    next
      case (Cons c r)
      obtain v vs where ws: "split_on sep r = v # vs" using split_on_nonempty by (meson list.exhaust)
      have ih: "\<not> contains_text (last (v # vs)) sep" using 1 Cons ws by (metis length_Cons lessI)
      have "vs = [] \<Longrightarrow> v = r" using join_split_on [OF 1(2), of r] ws by simp
      then show ?thesis using ih False Cons ws by (auto simp: split_on_char)
    qed
  qed
qed

section \<open>Fields and Cut\<close>

text \<open>\<^verbatim>\<open>strings.Fields\<close>: the words between runs of the bytes of white space; the word read so far is reversed.\<close>

function scan_fields :: "string \<Rightarrow> string \<Rightarrow> string list" where
  "scan_fields word s =
     (case s of
        [] \<Rightarrow> if word = [] then [] else [rev word]
      | c # r \<Rightarrow>
          (case find (has_prefix s) space_seqs of
             Some p \<Rightarrow> (if word = [] then [] else [rev word]) @ scan_fields [] (drop (length p) s)
           | None \<Rightarrow> scan_fields (c # word) r))"
  by pat_completeness auto
termination
proof (relation "measure (\<lambda>(word, s). length s)")
  fix word s :: string and c r p
  assume s: "s = c # r" and p: "find (has_prefix s) space_seqs = Some p"
  then have "p \<noteq> []" using space_seqs_nonempty find_SomeD by metis
  then show "(([], drop (length p) s), word, s) \<in> measure (\<lambda>(word, s). length s)" using s by simp
qed auto

declare scan_fields.simps [simp del]

definition go_fields :: "string \<Rightarrow> string list" where
  "go_fields s = scan_fields [] s"

definition cut_at :: "char \<Rightarrow> string \<Rightarrow> string \<times> string" where
  "cut_at c s = (takeWhile (\<lambda>x. x \<noteq> c) s, drop 1 (dropWhile (\<lambda>x. x \<noteq> c) s))"

lemma scan_fields_Nil: "scan_fields word [] = (if word = [] then [] else [rev word])"
  by (subst scan_fields.simps) simp

lemma scan_fields_space:
  "s \<noteq> [] \<Longrightarrow> find (has_prefix s) space_seqs = Some p \<Longrightarrow>
     scan_fields word s = (if word = [] then [] else [rev word]) @ scan_fields [] (drop (length p) s)"
  by (subst scan_fields.simps) (auto split: list.splits)

lemma scan_fields_char:
  "find (has_prefix (c # r)) space_seqs = None \<Longrightarrow> scan_fields word (c # r) = scan_fields (c # word) r"
  by (subst scan_fields.simps) simp

end
