(* ===== verification/Journal.thy ===== *)
theory Journal
  imports Complex_Main JsonTree GoStrings
begin

text \<open>
  Log snapshots, \<^verbatim>\<open>src/internal/journal\<close>: the normalization of one journalctl record, the fixed
  invocation of the child process and the unit name in it, the single process slot, the bounded read
  of its output and the classification of what went wrong.

  What the operating system, systemd and the child answer is an argument: the files behind the
  executable's path, the canonical name of a unit, the records of standard output with the number of
  bytes read around each, standard error, the exit and the state of the two contexts.  Records are
  document trees; the 64-bit float of a number literal, if it has one, is an argument.
\<close>

section \<open>Normalizing a record\<close>

type_synonym journal_record = "string \<rightharpoonup> jdoc"

record journal_entry =
  je_Cursor :: string
  je_TimestampUS :: "64 word"
  je_Unit :: string
  je_Identifier :: "string option"
  je_PID :: "nat option"
  je_Priority :: "nat option"
  je_Message :: "string option"
  je_MessageEncoding :: "string option"
  je_MessageTruncated :: bool

definition unitFields :: "string list" where
  "unitFields = [''_SYSTEMD_UNIT'', ''UNIT'', ''OBJECT_SYSTEMD_UNIT'', ''COREDUMP_UNIT'']"

definition scalarString :: "jdoc option \<Rightarrow> string option" where
  "scalarString field = (case field of Some d \<Rightarrow> (case shape d of SStr s \<Rightarrow> Some s | _ \<Rightarrow> None) | None \<Rightarrow> None)"

definition isDecimalDigits :: "string \<Rightarrow> bool" where
  "isDecimalDigits v \<longleftrightarrow> v \<noteq> [] \<and> list_all digit v"

text \<open>The first trusted field that is present, not null and not empty; one of another shape is an error.\<close>

fun unitOf_fields :: "journal_record \<Rightarrow> string \<Rightarrow> string list \<Rightarrow> string + string" where
  "unitOf_fields rec fallback [] = Inr fallback"
| "unitOf_fields rec fallback (field # rest) =
     (case rec field of
        None \<Rightarrow> unitOf_fields rec fallback rest
      | Some d \<Rightarrow>
          if shape d = SNull then unitOf_fields rec fallback rest
          else case scalarString (Some d) of
            None \<Rightarrow> Inl (''trusted field '' @ field @ '' is not a scalar string'')
          | Some v \<Rightarrow> if v \<noteq> [] then Inr v else unitOf_fields rec fallback rest)"

definition unitOf :: "journal_record \<Rightarrow> string \<Rightarrow> string + string" where
  "unitOf rec fallback = unitOf_fields rec fallback unitFields"

definition timestampMicroseconds :: "jdoc option \<Rightarrow> string + 64 word" where
  "timestampMicroseconds field =
     (case scalarString field of
        None \<Rightarrow> Inl ''no usable __REALTIME_TIMESTAMP''
      | Some v \<Rightarrow>
          if \<not> isDecimalDigits v then Inl ''no usable __REALTIME_TIMESTAMP''
          else if 2 ^ 64 \<le> decimal_value v then Inl ''__REALTIME_TIMESTAMP does not fit an unsigned 64-bit value''
          else Inr (of_nat (decimal_value v)))"

definition optionalNumber :: "jdoc option \<Rightarrow> nat \<Rightarrow> nat \<Rightarrow> nat option" where
  "optionalNumber field low high =
     (case scalarString field of
        None \<Rightarrow> None
      | Some v \<Rightarrow>
          if \<not> isDecimalDigits v then None
          else if 2 ^ 63 \<le> decimal_value v \<or> decimal_value v < low \<or> high < decimal_value v then None
          else Some (decimal_value v))"

record journal_message =
  jm_text :: "string option"
  jm_encoding :: "string option"
  jm_truncated :: bool

definition textMessage :: "string \<Rightarrow> journal_message" where
  "textMessage s = \<lparr>jm_text = Some s, jm_encoding = Some ''utf-8'', jm_truncated = False\<rparr>"

text \<open>\<^verbatim>\<open>base64.StdEncoding.EncodeToString\<close>.\<close>

definition base64_char :: "nat \<Rightarrow> char" where
  "base64_char n = (if n < 26 then char_of (65 + n) else if n < 52 then char_of (71 + n)
     else if n < 62 then char_of (n - 4) else if n = 62 then CHR ''+'' else CHR 0x2F)"

fun base64_encode :: "nat list \<Rightarrow> string" where
  "base64_encode [] = []"
| "base64_encode [a] = [base64_char (a div 4), base64_char (16 * (a mod 4)), CHR ''='', CHR ''='']"
| "base64_encode [a, b] =
     [base64_char (a div 4), base64_char (16 * (a mod 4) + b div 16), base64_char (4 * (b mod 16)), CHR ''='']"
| "base64_encode (a # b # c # r) =
     base64_char (a div 4) # base64_char (16 * (a mod 4) + b div 16) # base64_char (4 * (b mod 16) + c div 64) #
     base64_char (c mod 64) # base64_encode r"

text \<open>A number of a byte array: its float must be whole and fit a byte.\<close>

definition byte_of :: "(string \<Rightarrow> rat option) \<Rightarrow> string \<Rightarrow> nat option" where
  "byte_of fl n =
     (case fl n of
        None \<Rightarrow> None
      | Some q \<Rightarrow> if of_int \<lfloor>q\<rfloor> \<noteq> q \<or> q < 0 \<or> 255 < q then None else Some (nat \<lfloor>q\<rfloor>))"

fun join_texts :: "jdoc list \<Rightarrow> string list option" where
  "join_texts [] = Some []"
| "join_texts (d # ds) = (case shape d of SStr s \<Rightarrow> map_option ((#) s) (join_texts ds) | _ \<Rightarrow> None)"

fun collect_bytes :: "(string \<Rightarrow> rat option) \<Rightarrow> jdoc list \<Rightarrow> string + nat list" where
  "collect_bytes fl [] = Inr []"
| "collect_bytes fl (d # ds) =
     (case shape d of
        SNum n \<Rightarrow>
          (case byte_of fl n of
             None \<Rightarrow> Inl ''MESSAGE contains a value outside a byte range''
           | Some b \<Rightarrow> (case collect_bytes fl ds of Inl e \<Rightarrow> Inl e | Inr bs \<Rightarrow> Inr (b # bs)))
      | _ \<Rightarrow> Inl ''MESSAGE mixes bytes with other values'')"

definition repeatedMessage :: "(string \<Rightarrow> rat option) \<Rightarrow> jdoc list \<Rightarrow> string + journal_message" where
  "repeatedMessage fl values =
     (case values of
        [] \<Rightarrow> Inl ''MESSAGE is an empty array''
      | first # _ \<Rightarrow>
          (case shape first of
             SStr _ \<Rightarrow>
               (case join_texts values of
                  None \<Rightarrow> Inl ''MESSAGE mixes strings with other values''
                | Some texts \<Rightarrow> Inr (textMessage (join [CHR 0x0A] texts)))
           | SNum _ \<Rightarrow>
               (case collect_bytes fl values of
                  Inl e \<Rightarrow> Inl e
                | Inr bytes \<Rightarrow> Inr \<lparr>jm_text = Some (base64_encode bytes), jm_encoding = Some ''base64'', jm_truncated = False\<rparr>)
           | _ \<Rightarrow> Inl ''MESSAGE is an array of neither strings nor bytes''))"

text \<open>Decoding into \<^verbatim>\<open>any\<close> fails on a number without a finite float, at any depth.\<close>

fun floats_ok :: "(string \<Rightarrow> rat option) \<Rightarrow> jdoc \<Rightarrow> bool" and shape_floats_ok :: "(string \<Rightarrow> rat option) \<Rightarrow> jshape \<Rightarrow> bool" where
  "floats_ok fl (JDoc r s) \<longleftrightarrow> shape_floats_ok fl s"
| "shape_floats_ok fl (SNum n) \<longleftrightarrow> fl n \<noteq> None"
| "shape_floats_ok fl (SArr ds) \<longleftrightarrow> list_all (floats_ok fl) ds"
| "shape_floats_ok fl (SObj kvs) \<longleftrightarrow> list_all (\<lambda>kv. floats_ok fl (snd kv)) kvs"
| "shape_floats_ok fl SNull \<longleftrightarrow> True"
| "shape_floats_ok fl (SBool b) \<longleftrightarrow> True"
| "shape_floats_ok fl (SStr s) \<longleftrightarrow> True"

definition messageOf :: "(string \<Rightarrow> rat option) \<Rightarrow> journal_record \<Rightarrow> string + journal_message" where
  "messageOf fl rec =
     (case rec ''MESSAGE'' of
        None \<Rightarrow> Inr (textMessage [])
      | Some d \<Rightarrow>
          if shape d = SNull then Inr \<lparr>jm_text = None, jm_encoding = None, jm_truncated = True\<rparr>
          else if \<not> floats_ok fl d then Inl ''MESSAGE is not valid JSON''
          else case shape d of
            SStr s \<Rightarrow> Inr (textMessage s)
          | SArr ds \<Rightarrow> repeatedMessage fl ds
          | _ \<Rightarrow> Inl ''MESSAGE is neither a string, an array, nor null'')"

definition normalize :: "(string \<Rightarrow> rat option) \<Rightarrow> journal_record \<Rightarrow> string \<Rightarrow> string + journal_entry" where
  "normalize fl rec fallback =
     (case scalarString (rec ''__CURSOR'') of
        None \<Rightarrow> Inl ''no usable __CURSOR''
      | Some cursor \<Rightarrow>
          if cursor = [] then Inl ''no usable __CURSOR''
          else case timestampMicroseconds (rec ''__REALTIME_TIMESTAMP'') of
            Inl e \<Rightarrow> Inl e
          | Inr timestamp \<Rightarrow>
              (case unitOf rec fallback of
                 Inl e \<Rightarrow> Inl e
               | Inr unit \<Rightarrow>
                   (case messageOf fl rec of
                      Inl e \<Rightarrow> Inl e
                    | Inr m \<Rightarrow> Inr \<lparr>je_Cursor = cursor, je_TimestampUS = timestamp, je_Unit = unit,
                        je_Identifier = scalarString (rec ''SYSLOG_IDENTIFIER''),
                        je_PID = optionalNumber (rec ''_PID'') 0 (2 ^ 63 - 1),
                        je_Priority = optionalNumber (rec ''PRIORITY'') 0 7,
                        je_Message = jm_text m, je_MessageEncoding = jm_encoding m, je_MessageTruncated = jm_truncated m\<rparr>)))"

section \<open>The unit and the executable\<close>

definition validUnitChar :: "char \<Rightarrow> bool" where
  "validUnitChar c \<longleftrightarrow> (let n = (of_char c :: nat) in 97 \<le> n \<and> n \<le> 122 \<or> 65 \<le> n \<and> n \<le> 90 \<or> 48 \<le> n \<and> n \<le> 57) \<or>
     c \<in> set [CHR '':'', CHR ''-'', CHR ''_'', CHR ''.'', CHR ''@'', CHR 0x5C]"

datatype unit_problem = UnitEmpty | UnitTooLong | UnitNotService | UnitDash | UnitTemplate | UnitChar

definition validUnitName :: "string \<Rightarrow> unit_problem option" where
  "validUnitName name =
     (if trim_space name = [] then Some UnitEmpty
      else if 255 < length name then Some UnitTooLong
      else if \<not> has_suffix name ''.service'' then Some UnitNotService
      else if has_prefix name ''-'' then Some UnitDash
      else if has_suffix name ''@.service'' then Some UnitTemplate
      else if \<not> list_all validUnitChar name then Some UnitChar
      else None)"

datatype resolve_error = ConfiguredInvalid unit_problem | QueryFailed | CanonicalInvalid unit_problem

definition ResolveXrayUnit :: "string \<Rightarrow> (string \<Rightarrow> string option) \<Rightarrow> resolve_error + string" where
  "ResolveXrayUnit configured canonical_id =
     (case validUnitName configured of
        Some p \<Rightarrow> Inl (ConfiguredInvalid p)
      | None \<Rightarrow>
          (case canonical_id configured of
             None \<Rightarrow> Inl QueryFailed
           | Some i \<Rightarrow> (case validUnitName i of Some p \<Rightarrow> Inl (CanonicalInvalid p) | None \<Rightarrow> Inr i)))"

text \<open>What \<^verbatim>\<open>Stat\<close> tells of the resolved file; the owner is absent on a platform without POSIX ownership.\<close>

record file_info =
  fi_regular :: bool
  fi_perm :: "32 word"
  fi_owner :: "(int \<times> int) option"

unbundle bit_operations_syntax

definition executableBy :: "file_info \<Rightarrow> int \<Rightarrow> int \<Rightarrow> int list \<Rightarrow> bool" where
  "executableBy info euid egid groups =
     (case fi_owner info of
        None \<Rightarrow> fi_perm info AND 73 \<noteq> 0
      | Some (uid, gid) \<Rightarrow>
          if euid = 0 then fi_perm info AND 73 \<noteq> 0
          else if uid = euid then fi_perm info AND 64 \<noteq> 0
          else if gid = egid \<or> gid \<in> set groups then fi_perm info AND 8 \<noteq> 0
          else fi_perm info AND 1 \<noteq> 0)"

record exec_env =
  xe_resolve :: "string \<Rightarrow> string option"
  xe_stat :: "string \<Rightarrow> file_info option"
  xe_euid :: int
  xe_egid :: int
  xe_groups :: "int list"

definition ValidateExecutable :: "exec_env \<Rightarrow> string \<Rightarrow> string option" where
  "ValidateExecutable X path =
     (if path = [] then Some ''no path is configured''
      else if \<not> has_prefix path ''/'' then Some (path @ '' is not an absolute path'')
      else case xe_resolve X path of
        None \<Rightarrow> Some (path @ '' cannot be resolved'')
      | Some resolved \<Rightarrow>
          (case xe_stat X resolved of
             None \<Rightarrow> Some (path @ '' cannot be read'')
           | Some info \<Rightarrow>
               if \<not> fi_regular info then Some (path @ '' is not a regular file'')
               else if \<not> executableBy info (xe_euid X) (xe_egid X) (xe_groups X)
               then Some (path @ '' is not executable by this user'')
               else None))"

section \<open>The invocation\<close>

definition SourcePanel :: string where "SourcePanel = ''panel''"
definition SourceXray :: string where "SourceXray = ''xray''"
definition FilterAll :: string where "FilterAll = ''all''"
definition FilterSystem :: string where "FilterSystem = ''system''"
definition PanelUnit :: string where "PanelUnit = ''xform.service''"
definition namespace :: string where "namespace = ''xform''"

definition accessRecordPattern :: string where
  "accessRecordPattern = ''^(?![0-9]{4}/[0-9]{2}/[0-9]{2} [0-9]{2}:[0-9]{2}:[0-9]{2}('' @ [CHR 0x5C] @ ''.[0-9]+)? from )''"

definition outputFields :: string where
  "outputFields = ''__CURSOR,__REALTIME_TIMESTAMP,_SYSTEMD_UNIT,UNIT,OBJECT_SYSTEMD_UNIT,COREDUMP_UNIT,SYSLOG_IDENTIFIER,_PID,PRIORITY,MESSAGE''"

record journal_limits =
  li_entries :: nat
  li_stdoutBytes :: nat
  li_stderrBytes :: nat

definition contractLimits :: journal_limits where
  "contractLimits = \<lparr>li_entries = 500, li_stdoutBytes = 8 * 2 ^ 20, li_stderrBytes = 64 * 2 ^ 10\<rparr>"

definition arguments :: "string \<Rightarrow> nat \<Rightarrow> string \<Rightarrow> string list option" where
  "arguments unit entries filter0 =
     (let args = [''--system'', ''--namespace='' @ namespace, ''--unit='' @ unit];
          tail = [''--lines='' @ decimal entries, ''--reverse'', ''--output=json'', ''--output-fields='' @ outputFields, ''--no-pager''] in
      if filter0 = FilterAll then Some (args @ tail)
      else if filter0 = FilterSystem then Some (args @ [''--grep='' @ accessRecordPattern] @ tail)
      else None)"

definition fixedEnvironment :: "string list" where
  "fixedEnvironment = [''LC_ALL=C'', ''LANG=C'', ''SYSTEMD_COLORS=0'']"

record child_command =
  cc_Path :: string
  cc_Args :: "string list"
  cc_Env :: "string list"

text \<open>\<open>rd_slot\<close> is the fill of the one-place channel.\<close>

record reader =
  rd_executable :: string
  rd_xrayUnit :: string
  rd_limits :: journal_limits
  rd_slot :: bool

definition NewReader :: "string \<Rightarrow> string \<Rightarrow> reader" where
  "NewReader executable xrayUnit =
     \<lparr>rd_executable = executable, rd_xrayUnit = xrayUnit, rd_limits = contractLimits, rd_slot = False\<rparr>"

definition unitFor :: "reader \<Rightarrow> string \<Rightarrow> string option" where
  "unitFor r source =
     (if source = SourcePanel then Some PanelUnit else if source = SourceXray then Some (rd_xrayUnit r) else None)"

datatype journal_reason =
    ReasonSnapshotInProgress
  | ReasonJournalctlUnavailable
  | ReasonAccessDenied
  | ReasonTimeout
  | ReasonOutputTooLarge
  | ReasonMalformedOutput
  | ReasonCommandFailed

datatype journal_error = UnknownSource string | UnknownFilter string | Failure journal_reason string | CallerGone string

section \<open>Reading the output\<close>

text \<open>
  One turn of the loop: the bytes read when \<^verbatim>\<open>More\<close> answered that a value follows, what \<^verbatim>\<open>Decode\<close>
  returned, and the bytes read by then.  A decode into a map accepts an object or null.
\<close>

record stream_turn =
  tn_more :: nat
  tn_value :: "jdoc option"
  tn_after :: nat

definition decode_record :: "jdoc option \<Rightarrow> journal_record option" where
  "decode_record v =
     (case v of
        None \<Rightarrow> None
      | Some d \<Rightarrow> (case shape d of SObj kvs \<Rightarrow> Some (map_of (rev kvs)) | SNull \<Rightarrow> Some Map.empty | _ \<Rightarrow> None))"

definition stdoutOverflow :: "journal_limits \<Rightarrow> nat \<Rightarrow> journal_error option" where
  "stdoutOverflow l count =
     (if li_stdoutBytes l < count
      then Some (Failure ReasonOutputTooLarge (''stdout exceeded '' @ decimal (li_stdoutBytes l) @ '' bytes'')) else None)"

fun read_loop ::
  "(string \<Rightarrow> rat option) \<Rightarrow> journal_limits \<Rightarrow> string \<Rightarrow> stream_turn list \<Rightarrow> nat \<Rightarrow> journal_entry list \<Rightarrow> journal_error + journal_entry list" where
  "read_loop fl l unit [] final entries =
     (case stdoutOverflow l final of Some e \<Rightarrow> Inl e | None \<Rightarrow> Inr entries)"
| "read_loop fl l unit (t # ts) final entries =
     (case stdoutOverflow l (tn_more t) of
        Some e \<Rightarrow> Inl e
      | None \<Rightarrow>
          if length entries = li_entries l
          then Inl (Failure ReasonMalformedOutput (''journalctl returned more than '' @ decimal (li_entries l) @ '' records''))
          else case decode_record (tn_value t) of
            None \<Rightarrow>
              (case stdoutOverflow l (tn_after t) of
                 Some e \<Rightarrow> Inl e
               | None \<Rightarrow> Inl (Failure ReasonMalformedOutput (''record '' @ decimal (length entries + 1) @ '' is not a JSON object'')))
          | Some rec \<Rightarrow>
              (case normalize fl rec unit of
                 Inl e \<Rightarrow> Inl (Failure ReasonMalformedOutput (''record '' @ decimal (length entries + 1) @ '': '' @ e))
               | Inr entry \<Rightarrow> read_loop fl l unit ts final (entries @ [entry])))"

definition readCapped :: "string \<Rightarrow> bool \<Rightarrow> nat \<Rightarrow> string \<times> bool" where
  "readCapped stream failed limit =
     (let t = take (limit + 1) stream in
      if failed then (t, limit < length t)
      else if limit < length t then (take limit t, True)
      else (t, False))"

section \<open>Classification\<close>

definition deniedAccess :: "string \<Rightarrow> bool" where
  "deniedAccess stderr \<longleftrightarrow>
     contains_text (to_lower stderr) ''permission denied'' \<or> contains_text (to_lower stderr) ''insufficient permissions''"

datatype context_state = ContextLive | ContextDeadline | ContextCancelled

definition classify ::
  "string option \<Rightarrow> context_state \<Rightarrow> journal_error option \<Rightarrow> bool \<Rightarrow> string \<times> bool \<Rightarrow> journal_error option" where
  "classify callerErr run collectErr waitFailed stderr =
     (case callerErr of
        Some e \<Rightarrow> Some (CallerGone e)
      | None \<Rightarrow>
          if collectErr = None \<and> \<not> waitFailed \<and> run = ContextLive \<and> \<not> snd stderr then None
          else if deniedAccess (fst stderr) then
            Some (Failure ReasonAccessDenied (''journalctl could not open the '' @ namespace @ '' namespace''))
          else if run = ContextDeadline then Some (Failure ReasonTimeout ''journalctl did not finish within the deadline'')
          else if snd stderr then Some (Failure ReasonOutputTooLarge ''stderr exceeded its cap'')
          else case collectErr of
            Some e \<Rightarrow> Some e
          | None \<Rightarrow> Some (Failure ReasonCommandFailed ''journalctl exited non-zero''))"

section \<open>Collect\<close>

text \<open>
  The first half takes the slot and starts the child; the second reads it to its end and frees the
  slot.  Every other call falls between the two or outside them.
\<close>

record start_env =
  se_exec :: exec_env
  se_starts :: bool

definition Collect_start :: "start_env \<Rightarrow> string \<Rightarrow> string \<Rightarrow> reader \<Rightarrow> reader \<times> (journal_error + child_command)" where
  "Collect_start E source filter0 r =
     (case unitFor r source of
        None \<Rightarrow> (r, Inl (UnknownSource source))
      | Some unit \<Rightarrow>
          (case arguments unit (li_entries (rd_limits r)) filter0 of
             None \<Rightarrow> (r, Inl (UnknownFilter filter0))
           | Some args \<Rightarrow>
               if rd_slot r then (r, Inl (Failure ReasonSnapshotInProgress ''another snapshot is already running''))
               else (case ValidateExecutable (se_exec E) (rd_executable r) of
                   Some e \<Rightarrow> (r, Inl (Failure ReasonJournalctlUnavailable (''journalctl is no longer usable: '' @ e)))
                 | None \<Rightarrow>
                     if \<not> se_starts E then (r, Inl (Failure ReasonJournalctlUnavailable ''journalctl did not start''))
                     else (r\<lparr>rd_slot := True\<rparr>, Inr \<lparr>cc_Path = rd_executable r, cc_Args = args, cc_Env = fixedEnvironment\<rparr>))))"

record child_run =
  cr_turns :: "stream_turn list"
  cr_count :: nat
  cr_stderr :: string
  cr_stderrFailed :: bool
  cr_stderrLate :: bool
  cr_waitFailed :: bool
  cr_caller :: "string option"
  cr_context :: context_state
  cr_clock :: int

definition awaitStderr :: "journal_limits \<Rightarrow> child_run \<Rightarrow> string \<times> bool" where
  "awaitStderr l C =
     (if cr_stderrLate C then ([], False) else readCapped (cr_stderr C) (cr_stderrFailed C) (li_stderrBytes l))"

record journal_snapshot =
  sp_CapturedAt :: int
  sp_Source :: string
  sp_Filter :: string
  sp_Unit :: string
  sp_Limit :: nat
  sp_Entries :: "journal_entry list"

definition Collect_finish ::
  "(string \<Rightarrow> rat option) \<Rightarrow> child_run \<Rightarrow> string \<Rightarrow> string \<Rightarrow> string \<Rightarrow> reader \<Rightarrow> reader \<times> (journal_error + journal_snapshot)" where
  "Collect_finish fl C source filter0 unit r =
     (let l = rd_limits r; collected = read_loop fl l unit (cr_turns C) (cr_count C) [];
          collectErr = (case collected of Inl e \<Rightarrow> Some e | Inr _ \<Rightarrow> None);
          entries = (case collected of Inl _ \<Rightarrow> [] | Inr es \<Rightarrow> es);
          r' = r\<lparr>rd_slot := False\<rparr> in
      case classify (cr_caller C) (cr_context C) collectErr (cr_waitFailed C) (awaitStderr l C) of
        Some e \<Rightarrow> (r', Inl e)
      | None \<Rightarrow> (r', Inr \<lparr>sp_CapturedAt = cr_clock C, sp_Source = source, sp_Filter = filter0, sp_Unit = unit,
          sp_Limit = li_entries l, sp_Entries = entries\<rparr>))"


section \<open>Calls in sequence\<close>

text \<open>
  Calls interleave: a call begins, and one that started a child ends when that child does.  The state
  is the reader, the calls whose child is alive, and every command started so far.
\<close>

record live_call =
  lc_source :: string
  lc_filter :: string
  lc_unit :: string

datatype journal_event = Begin start_env string string | End nat child_run

type_synonym journal_state = "reader \<times> live_call list \<times> child_command list"

definition journal_step :: "(string \<Rightarrow> rat option) \<Rightarrow> journal_event \<Rightarrow> journal_state \<Rightarrow> journal_state" where
  "journal_step fl ev = (\<lambda>(r, live, started).
     case ev of
       Begin E source filter0 \<Rightarrow>
         (case Collect_start E source filter0 r of
            (r', Inl _) \<Rightarrow> (r', live, started)
          | (r', Inr command) \<Rightarrow>
              (r', live @ [\<lparr>lc_source = source, lc_filter = filter0, lc_unit = (case unitFor r source of None \<Rightarrow> [] | Some u \<Rightarrow> u)\<rparr>],
               started @ [command]))
     | End n C \<Rightarrow>
         if n < length live
         then (fst (Collect_finish fl C (lc_source (live ! n)) (lc_filter (live ! n)) (lc_unit (live ! n)) r),
               take n live @ drop (n + 1) live, started)
         else (r, live, started))"

text \<open>A command the reader may start: a fixed argument list over one of two units.\<close>

definition fixed_command :: "string \<Rightarrow> string \<Rightarrow> child_command \<Rightarrow> bool" where
  "fixed_command executable xray c \<longleftrightarrow> cc_Path c = executable \<and> has_prefix executable ''/'' \<and> cc_Env c = fixedEnvironment \<and>
     (\<exists>unit \<in> {PanelUnit, xray}. \<exists>filter0 \<in> {FilterAll, FilterSystem}. arguments unit 500 filter0 = Some (cc_Args c))"

lemma Collect_start_cases:
  assumes "Collect_start E source filter0 r = (r', res)"
  shows "(case res of
      Inl _ \<Rightarrow> r' = r
    | Inr c \<Rightarrow> \<not> rd_slot r \<and> r' = r\<lparr>rd_slot := True\<rparr> \<and> cc_Path c = rd_executable r \<and> cc_Env c = fixedEnvironment \<and>
        has_prefix (rd_executable r) ''/'' \<and> (\<exists>unit. unitFor r source = Some unit \<and>
        arguments unit (li_entries (rd_limits r)) filter0 = Some (cc_Args c)))"
  using assms unfolding Collect_start_def
  by (auto simp: ValidateExecutable_def split: option.splits if_splits)

lemma Collect_finish_reader: "fst (Collect_finish fl C source filter0 unit r) = r\<lparr>rd_slot := False\<rparr>"
  by (simp add: Collect_finish_def Let_def split: option.split)

definition journal_inv :: "string \<Rightarrow> string \<Rightarrow> journal_state \<Rightarrow> bool" where
  "journal_inv executable xray = (\<lambda>(r, live, started).
     rd_executable r = executable \<and> rd_xrayUnit r = xray \<and> rd_limits r = contractLimits \<and>
     length live \<le> 1 \<and> (rd_slot r \<longleftrightarrow> live \<noteq> []) \<and> list_all (fixed_command executable xray) started)"

lemma arguments_filter: "arguments unit n f = Some args \<Longrightarrow> f \<in> {FilterAll, FilterSystem}"
  by (auto simp: arguments_def Let_def split: if_splits)

lemma journal_step_inv:
  assumes "journal_inv executable xray st"
  shows "journal_inv executable xray (journal_step fl ev st)"
proof -
  obtain r live started where st: "st = (r, live, started)" by (cases st)
  note i = assms [unfolded st journal_inv_def prod.case]
  show ?thesis
  proof (cases ev)
    case (Begin E source filter0)
    obtain r' res where c: "Collect_start E source filter0 r = (r', res)" by (cases "Collect_start E source filter0 r")
    note s = Collect_start_cases [OF c]
    show ?thesis
    proof (cases res)
      case (Inl e)
      then show ?thesis using i s c by (simp add: Begin st journal_step_def journal_inv_def)
    next
      case (Inr command)
      then obtain unit where u: "unitFor r source = Some unit"
          "arguments unit (li_entries (rd_limits r)) filter0 = Some (cc_Args command)" using s by auto
      have "unit \<in> {PanelUnit, xray}" using u(1) i by (auto simp: unitFor_def split: if_splits)
      then have "fixed_command executable xray command"
        using s Inr i u arguments_filter [OF u(2)] by (auto simp: fixed_command_def contractLimits_def)
      then show ?thesis using i s c Inr by (auto simp: Begin st journal_step_def journal_inv_def)
    qed
  next
    case (End n C)
    then show ?thesis using i
      by (auto simp: st journal_step_def journal_inv_def Collect_finish_reader)
  qed
qed

lemma valid_unit:
  assumes "validUnitName u = None"
  shows "list_all validUnitChar u \<and> \<not> has_prefix u ''-'' \<and> has_suffix u ''.service'' \<and> length u \<le> 255"
  using assms unfolding validUnitName_def by (simp split: if_splits)

lemma panel_unit_valid: "validUnitName PanelUnit = None"
  by code_simp

lemma arguments_options:
  assumes "arguments unit n f = Some args"
  shows "list_all (\<lambda>a. has_prefix a ''--'') args \<and> ''--all'' \<notin> set args \<and> ''--unit='' @ unit \<in> set args \<and>
    filter (\<lambda>a. has_prefix a ''--unit'') args = [''--unit='' @ unit]"
  using assms unfolding arguments_def Let_def by (auto simp: has_prefix_def split: if_splits)

section \<open>The read\<close>

lemma read_loop_appends:
  "read_loop fl l unit ts final es = Inr out \<longleftrightarrow>
   (final \<le> li_stdoutBytes l \<and> (\<forall>t \<in> set ts. tn_more t \<le> li_stdoutBytes l) \<and>
    (ts \<noteq> [] \<longrightarrow> \<not> (length es \<le> li_entries l \<and> li_entries l < length es + length ts)) \<and>
    (\<exists>more. out = es @ more \<and> list_all2 (\<lambda>t e. \<exists>rec. decode_record (tn_value t) = Some rec \<and> normalize fl rec unit = Inr e) ts more))"
proof (induction ts arbitrary: es)
  case Nil
  then show ?case by (auto simp: stdoutOverflow_def)
next
  case (Cons t ts)
  show ?case
  proof (cases "li_stdoutBytes l < tn_more t \<or> length es = li_entries l")
    case True
    then show ?thesis by (auto simp: stdoutOverflow_def)
  next
    case False
    then have n: "stdoutOverflow l (tn_more t) = None" "length es \<noteq> li_entries l" "tn_more t \<le> li_stdoutBytes l"
      by (auto simp: stdoutOverflow_def)
    show ?thesis
    proof (cases "\<exists>rec e. decode_record (tn_value t) = Some rec \<and> normalize fl rec unit = Inr e")
      case True
      then obtain rec e where d: "decode_record (tn_value t) = Some rec" "normalize fl rec unit = Inr e" by blast
      have "read_loop fl l unit (t # ts) final es = Inr out \<longleftrightarrow> read_loop fl l unit ts final (es @ [e]) = Inr out"
        using n d by simp
      also have "\<dots> \<longleftrightarrow> (final \<le> li_stdoutBytes l \<and> (\<forall>t \<in> set ts. tn_more t \<le> li_stdoutBytes l) \<and>
          (ts \<noteq> [] \<longrightarrow> \<not> (length (es @ [e]) \<le> li_entries l \<and> li_entries l < length (es @ [e]) + length ts)) \<and>
          (\<exists>more. out = (es @ [e]) @ more \<and> list_all2 (\<lambda>t e. \<exists>rec. decode_record (tn_value t) = Some rec \<and> normalize fl rec unit = Inr e) ts more))"
        by (rule Cons.IH)
      finally show ?thesis using n d by (auto simp: list_all2_Cons1)
    next
      case False
      then have "read_loop fl l unit (t # ts) final es \<noteq> Inr out"
        using n by (auto split: option.splits sum.splits)
      then show ?thesis using False by (auto simp: list_all2_Cons1)
    qed
  qed
qed


section \<open>Binary messages\<close>

text \<open>The reference reading of base64: groups of four characters, the last one padded.\<close>

definition base64_value :: "char \<Rightarrow> nat" where
  "base64_value c = (let n = of_char c in
     if 65 \<le> n \<and> n \<le> 90 then n - 65 else if 97 \<le> n \<and> n \<le> 122 then n - 71
     else if 48 \<le> n \<and> n \<le> 57 then n + 4 else if c = CHR ''+'' then 62 else 63)"

fun base64_read :: "string \<Rightarrow> nat list option" where
  "base64_read [] = Some []"
| "base64_read (p # q # s # t # r) =
     (let a = base64_value p; b = base64_value q; c = base64_value s; d = base64_value t in
      if t = CHR ''='' \<and> s = CHR ''='' then (if r = [] then Some [4 * a + b div 16] else None)
      else if t = CHR ''='' then (if r = [] then Some [4 * a + b div 16, 16 * (b mod 16) + c div 4] else None)
      else map_option (\<lambda>bs. [4 * a + b div 16, 16 * (b mod 16) + c div 4, 64 * (c mod 4) + d] @ bs) (base64_read r))"
| "base64_read _ = None"

lemma base64_char_value: "n < 64 \<Longrightarrow> base64_value (base64_char n) = n \<and> base64_char n \<noteq> CHR ''=''"
proof -
  assume "n < 64"
  then have "of_char (base64_char n) = (if n < 26 then 65 + n else if n < 52 then 71 + n else if n < 62 then n - 4 else if n = 62 then 43 else 47)"
    by (auto simp: base64_char_def)
  note v = this
  have "of_char (base64_char n) \<noteq> (of_char (CHR ''='') :: nat)" using v \<open>n < 64\<close> by (auto split: if_splits)
  then have "base64_char n \<noteq> CHR ''=''" by metis
  then show ?thesis using v \<open>n < 64\<close>
    by (auto simp: base64_value_def Let_def base64_char_def split: if_splits)
qed

lemma split_digits: "y < k \<Longrightarrow> (k * x + y) div k = x \<and> (k * x + y) mod k = (y :: nat)"
  by (cases "k = 0") simp_all

lemma sextets:
  assumes "a < 256" "b < 256" "c < (256 :: nat)"
  shows "a div 4 < 64" "16 * (a mod 4) + b div 16 < 64" "4 * (b mod 16) + c div 64 < 64" "c mod 64 < 64"
    "4 * (a div 4) + (16 * (a mod 4) + b div 16) div 16 = a"
    "16 * ((16 * (a mod 4) + b div 16) mod 16) + (4 * (b mod 16) + c div 64) div 4 = b"
    "64 * ((4 * (b mod 16) + c div 64) mod 4) + c mod 64 = c"
proof -
  have d: "a div 4 < 64" "b div 16 < 16" "c div 64 < 4" using assms by (auto intro: less_mult_imp_div_less)
  have m: "a mod 4 < 4" "b mod 16 < 16" by simp_all
  show "a div 4 < 64" "16 * (a mod 4) + b div 16 < 64" "4 * (b mod 16) + c div 64 < 64" "c mod 64 < 64"
    using d m by simp_all
  show "4 * (a div 4) + (16 * (a mod 4) + b div 16) div 16 = a"
    using split_digits [OF d(2), of "a mod 4"] mult_div_mod_eq [of 4 a] by simp
  show "16 * ((16 * (a mod 4) + b div 16) mod 16) + (4 * (b mod 16) + c div 64) div 4 = b"
    using split_digits [OF d(2), of "a mod 4"] split_digits [OF d(3), of "b mod 16"] mult_div_mod_eq [of 16 b] by (simp only:)
  show "64 * ((4 * (b mod 16) + c div 64) mod 4) + c mod 64 = c"
    using split_digits [OF d(3), of "b mod 16"] mult_div_mod_eq [of 64 c] by (simp only:)
qed

lemma base64_reads_back: "\<forall>b \<in> set bs. b < 256 \<Longrightarrow> base64_read (base64_encode bs) = Some bs"
proof (induction bs rule: base64_encode.induct)
  case (2 a)
  then have "a < 256" by simp
  from sextets [OF this, of 0 0] show ?case by (simp add: base64_char_value)
next
  case (3 a b)
  then have "a < 256" "b < 256" by simp_all
  from sextets [OF this, of 0] show ?case by (simp add: base64_char_value Let_def del: mult_Suc)
next
  case (4 a b c r)
  then have h: "a < 256" "b < 256" "c < 256" and r: "base64_read (base64_encode r) = Some r" by simp_all
  note s = sextets [OF h]
  note v = base64_char_value [OF s(1)] base64_char_value [OF s(2)] base64_char_value [OF s(3)] base64_char_value [OF s(4)]
  have "base64_read (base64_encode (a # b # c # r)) =
      Some ([4 * (a div 4) + (16 * (a mod 4) + b div 16) div 16, 16 * ((16 * (a mod 4) + b div 16) mod 16) + (4 * (b mod 16) + c div 64) div 4,
        64 * ((4 * (b mod 16) + c div 64) mod 4) + c mod 64] @ r)"
    using v unfolding base64_encode.simps base64_read.simps Let_def by (simp only: r option.map simp_thms if_False)
  then show ?case unfolding s(5-7) by simp
qed simp

lemma byte_of_range: "byte_of fl n = Some b \<Longrightarrow> b < 256"
  by (auto simp: byte_of_def split: option.splits if_splits)

lemma collect_bytes_numbers:
  "list_all2 (\<lambda>d b. \<exists>n. shape d = SNum n \<and> byte_of fl n = Some b) ds bs \<Longrightarrow> collect_bytes fl ds = Inr bs \<and> (\<forall>b \<in> set bs. b < 256)"
proof (induction ds bs rule: list_all2_induct)
  case (Cons d ds b bs)
  then show ?case by (auto dest: byte_of_range)
qed simp

section \<open>Properties\<close>

text \<open>
  C39. Whatever calls arrive and however they interleave, at most one child runs, the slot is taken
  exactly while it does, and every child ever started is the validated absolute executable with the
  fixed environment and a fixed argument list: options only, never \<^verbatim>\<open>--all\<close>, and a single unit, the
  panel's or the one systemd resolved, whose name has no character of a pattern and no leading dash.
\<close>

theorem journal_reads_only_fixed_units:
  assumes "ResolveXrayUnit configured canonical_id = Inr xray"
    and run: "fold (journal_step fl) evs (NewReader executable xray, [], []) = (r, live, started)"
  shows "length live \<le> 1 \<and> (rd_slot r \<longleftrightarrow> live \<noteq> []) \<and>
    (\<forall>c \<in> set started. cc_Path c = executable \<and> has_prefix executable ''/'' \<and> cc_Env c = fixedEnvironment \<and>
      list_all (\<lambda>a. has_prefix a ''--'') (cc_Args c) \<and> ''--all'' \<notin> set (cc_Args c) \<and>
      (\<exists>unit \<in> {PanelUnit, xray}. filter (\<lambda>a. has_prefix a ''--unit'') (cc_Args c) = [''--unit='' @ unit] \<and>
        list_all validUnitChar unit \<and> \<not> has_prefix unit ''-'' \<and> has_suffix unit ''.service''))"
proof -
  have "journal_inv executable xray (fold (journal_step fl) evs st)" if "journal_inv executable xray st" for st
    using that by (induction evs arbitrary: st) (simp_all add: journal_step_inv)
  moreover have "journal_inv executable xray (NewReader executable xray, [], [])"
    by (simp add: journal_inv_def NewReader_def)
  ultimately have inv: "journal_inv executable xray (r, live, started)" using run by metis
  have units: "validUnitName u = None" if "u \<in> {PanelUnit, xray}" for u
    using that assms(1) panel_unit_valid by (auto simp: ResolveXrayUnit_def split: option.splits)
  have "cc_Path c = executable \<and> has_prefix executable ''/'' \<and> cc_Env c = fixedEnvironment \<and>
      list_all (\<lambda>a. has_prefix a ''--'') (cc_Args c) \<and> ''--all'' \<notin> set (cc_Args c) \<and>
      (\<exists>unit \<in> {PanelUnit, xray}. filter (\<lambda>a. has_prefix a ''--unit'') (cc_Args c) = [''--unit='' @ unit] \<and>
        list_all validUnitChar unit \<and> \<not> has_prefix unit ''-'' \<and> has_suffix unit ''.service'')"
    if c: "c \<in> set started" for c
  proof -
    have "fixed_command executable xray c" using inv c by (auto simp: journal_inv_def list_all_iff)
    then obtain unit f where u: "unit \<in> {PanelUnit, xray}" "arguments unit 500 f = Some (cc_Args c)"
        "cc_Path c = executable" "has_prefix executable ''/''" "cc_Env c = fixedEnvironment"
      by (auto simp only: fixed_command_def)
    then show ?thesis using arguments_options [OF u(2)] valid_unit [OF units [OF u(1)]] by blast
  qed
  then show ?thesis using inv by (simp add: journal_inv_def)
qed


text \<open>
  An entry reports the message of its record whole: none as the empty text, an elided one as
  truncated and absent, a string as it is, repeated strings joined by line feeds, and a byte array
  as base64 that decodes to exactly those bytes.
\<close>

lemma entry_reports_the_message:
  assumes "normalize fl rec fallback = Inr e"
  shows "case rec ''MESSAGE'' of
      None \<Rightarrow> je_Message e = Some [] \<and> je_MessageEncoding e = Some ''utf-8'' \<and> \<not> je_MessageTruncated e
    | Some d \<Rightarrow> (case shape d of
        SNull \<Rightarrow> je_Message e = None \<and> je_MessageTruncated e
      | SStr s \<Rightarrow> je_Message e = Some s \<and> je_MessageEncoding e = Some ''utf-8''
      | SArr ds \<Rightarrow>
          (\<forall>texts. list_all2 (\<lambda>x s. shape x = SStr s) ds texts \<longrightarrow>
             je_Message e = Some (join [CHR 0x0A] texts) \<and> je_MessageEncoding e = Some ''utf-8'') \<and>
          (\<forall>bytes. list_all2 (\<lambda>x b. \<exists>n. shape x = SNum n \<and> byte_of fl n = Some b) ds bytes \<longrightarrow>
             je_MessageEncoding e = Some ''base64'' \<and> Option.bind (je_Message e) base64_read = Some bytes)
      | _ \<Rightarrow> False)"
proof -
  obtain m where m: "messageOf fl rec = Inr m" "je_Message e = jm_text m" "je_MessageEncoding e = jm_encoding m"
      "je_MessageTruncated e = jm_truncated m"
    using assms unfolding normalize_def by (auto split: option.splits sum.splits if_splits)
  have texts: "join_texts ds = Some ts" if "list_all2 (\<lambda>x s. shape x = SStr s) ds ts" for ds ts
    using that by (induction ds ts rule: list_all2_induct) simp_all
  show ?thesis
  proof (cases "rec ''MESSAGE''")
    case None
    then show ?thesis using m by (auto simp: messageOf_def textMessage_def)
  next
    case (Some d)
    show ?thesis
    proof (cases "shape d")
      case (SArr ds)
      then have r: "repeatedMessage fl ds = Inr m" using m(1) Some by (auto simp: messageOf_def split: if_splits)
      then have ne: "ds \<noteq> []" by (auto simp: repeatedMessage_def)
      have "je_Message e = Some (join [CHR 0x0A] ts) \<and> je_MessageEncoding e = Some ''utf-8''"
        if t: "list_all2 (\<lambda>x s. shape x = SStr s) ds ts" for ts
        using r m ne texts [OF t] t by (cases ds) (auto simp: repeatedMessage_def textMessage_def list_all2_Cons1)
      moreover have "je_MessageEncoding e = Some ''base64'' \<and> Option.bind (je_Message e) base64_read = Some bs"
        if b: "list_all2 (\<lambda>x b. \<exists>n. shape x = SNum n \<and> byte_of fl n = Some b) ds bs" for bs
        using r m ne collect_bytes_numbers [OF b] base64_reads_back [of bs] b
        by (cases ds) (auto simp: repeatedMessage_def list_all2_Cons1)
      ultimately show ?thesis using Some SArr by simp
    qed (use m Some in \<open>auto simp: messageOf_def textMessage_def split: if_splits\<close>)
  qed
qed


section \<open>Examples\<close>

definition ex_exec :: exec_env where
  "ex_exec = \<lparr>xe_resolve = Some, xe_stat = (\<lambda>_. Some \<lparr>fi_regular = True, fi_perm = 1, fi_owner = None\<rparr>), xe_euid = 1, xe_egid = 1, xe_groups = []\<rparr>"

definition ex_begin :: "string \<Rightarrow> journal_event" where
  "ex_begin source = Begin \<lparr>se_exec = ex_exec, se_starts = True\<rparr> source FilterAll"

theorem journal_reads_only_fixed_units_witness:
  "\<exists>r live started. fold (journal_step (\<lambda>_. None)) [ex_begin SourceXray, ex_begin SourcePanel]
      (NewReader ''/j'' ''x.service'', [], []) = (r, live, started) \<and> length started = 1 \<and> length live \<le> 1"
proof -
  have v: "ResolveXrayUnit ''x.service'' Some = Inr ''x.service''" by code_simp
  obtain r live started where s: "fold (journal_step (\<lambda>_. None)) [ex_begin SourceXray, ex_begin SourcePanel]
      (NewReader ''/j'' ''x.service'', [], []) = (r, live, started)"
    by (cases "fold (journal_step (\<lambda>_. None)) [ex_begin SourceXray, ex_begin SourcePanel] (NewReader ''/j'' ''x.service'', [], [])") auto
  have "length started = 1"
    using s by (auto simp: journal_step_def ex_begin_def Collect_start_def unitFor_def SourceXray_def SourcePanel_def NewReader_def
        arguments_def Let_def ValidateExecutable_def ex_exec_def executableBy_def has_prefix_def)
  then show ?thesis using journal_reads_only_fixed_units [OF v s] s by blast
qed

definition ex_line :: journal_record where
  "ex_line = [''__CURSOR'' \<mapsto> JDoc [] (SStr ''c''), ''__REALTIME_TIMESTAMP'' \<mapsto> JDoc [] (SStr ''5''),
     ''MESSAGE'' \<mapsto> JDoc [] (SArr [JDoc [] (SNum ''7'')])]"

definition ex_floats :: "string \<Rightarrow> rat option" where
  "ex_floats n = (if n = ''7'' then Some 7 else None)"

lemma entry_reports_the_message_witness:
  "\<exists>e. normalize ex_floats ex_line ''u'' = Inr e \<and> Option.bind (je_Message e) base64_read = Some [7]"
proof -
  have b: "byte_of ex_floats ''7'' = Some 7" by (simp add: byte_of_def ex_floats_def)
  obtain e where e: "normalize ex_floats ex_line ''u'' = Inr e"
    using b by (simp add: normalize_def ex_line_def scalarString_def timestampMicroseconds_def isDecimalDigits_def digit_def
        decimal_value_def hex_digit_value_def unitOf_def unitFields_def messageOf_def repeatedMessage_def ex_floats_def)
  have "list_all2 (\<lambda>x b. \<exists>n. shape x = SNum n \<and> byte_of ex_floats n = Some b) [JDoc [] (SNum ''7'')] [7]"
    using b by simp
  then show ?thesis using entry_reports_the_message [OF e] e by (auto simp: ex_line_def)
qed

end
