(* ===== verification/XrayGrpc.thy ===== *)
theory XrayGrpc
  imports Collector Status GoStrings
begin

text \<open>
  The client of xray's loopback gRPC API, \<^verbatim>\<open>src/internal/xraygrpc/xraygrpc.go\<close> and
  \<^verbatim>\<open>src/internal/xraygrpc/handler.go\<close>: the raw counters behind the users table and the status row,
  the online set, and the two pushes of the apply path.

  The server is outside the repository: one query takes its answers (\<open>stats_service\<close>), an error as a
  gRPC code and its text; \<^verbatim>\<open>GetStatsOnlineIpList\<close> is called once per online entry, so its answer may
  depend on the number of the call.  Counter values are 64-bit signed, sums wrap at 64 bits.  A map in
  an answer is the list of its entries in the order Go ranges over it.  Row types are those of the
  users collector and of the status collector, which the Go code shares as aliases.
\<close>

section \<open>The server's answers\<close>

datatype grpc_code = Unimplemented | CodeNotFound | OtherCode

type_synonym grpc_error = "grpc_code \<times> string"

record sys_stats =
  sys_Alloc :: u64
  sys_NumGoroutine :: nat

record stats_service =
  st_Dial :: "string option"
  st_GetSysStats :: "grpc_error + sys_stats"
  st_QueryStats :: "grpc_error + (string \<times> int) list"
  st_GetAllOnlineUsers :: "grpc_error + string list"
  st_GetStatsOnlineIpList :: "nat \<Rightarrow> string \<Rightarrow> grpc_error + (string \<times> int) list"

section \<open>Counter names\<close>

definition direction :: "string \<Rightarrow> bool \<times> bool" where
  "direction part =
     (if part = ''uplink'' then (True, True) else if part = ''downlink'' then (False, True) else (False, False))"

definition inboundTraffic :: "string \<Rightarrow> bool \<times> bool" where
  "inboundTraffic name =
     (let parts = split_on ''>>>'' name in
      if length parts \<noteq> 4 \<or> parts ! 0 \<noteq> ''inbound'' \<or> parts ! 1 = ''api'' \<or> parts ! 2 \<noteq> ''traffic''
      then (False, False) else direction (parts ! 3))"

definition userTraffic :: "string \<Rightarrow> string \<times> bool \<times> bool" where
  "userTraffic name =
     (let parts = split_on ''>>>'' name in
      if length parts \<noteq> 4 \<or> parts ! 0 \<noteq> ''user'' \<or> parts ! 2 \<noteq> ''traffic'' then ([], False, False)
      else (parts ! 1, direction (parts ! 3)))"

definition onlineStatName :: "string \<Rightarrow> string \<times> string" where
  "onlineStatName entry =
     (let rest = drop (length ''user>>>'') entry in
      if has_prefix entry ''user>>>'' \<and> has_suffix rest ''>>>online''
      then (take (length rest - length ''>>>online'') rest, entry)
      else (entry, ''user>>>'' @ entry @ ''>>>online''))"

section \<open>The queries\<close>

definition connect :: "stats_service \<Rightarrow> string option" where
  "connect srv = map_option (\<lambda>err. ''connect to xray stats API: '' @ err) (st_Dial srv)"

definition counted :: "int \<Rightarrow> u64" where
  "counted v = of_int (max v 0)"

definition add_inbound :: "string \<times> int \<Rightarrow> runtime_stats \<Rightarrow> runtime_stats" where
  "add_inbound counter stats =
     (case inboundTraffic (fst counter) of (uplink, ok) \<Rightarrow>
        if \<not> ok then stats
        else if uplink then runtime_stats.rt_UpBytes_update (\<lambda>n. n + counted (snd counter)) stats
        else runtime_stats.rt_DownBytes_update (\<lambda>n. n + counted (snd counter)) stats)"

text \<open>The set of IPs over the online entries; \<^const>\<open>None\<close> is a server that cannot list them.\<close>

fun online_ips :: "stats_service \<Rightarrow> nat \<Rightarrow> string list \<Rightarrow> string list \<Rightarrow> string list option" where
  "online_ips srv i [] ips = Some ips"
| "online_ips srv i (entry # rest) ips =
     (case st_GetStatsOnlineIpList srv i (snd (onlineStatName entry)) of
        Inl (code, _) \<Rightarrow> if code = Unimplemented then None else online_ips srv (i + 1) rest ips
      | Inr list \<Rightarrow> online_ips srv (i + 1) rest (append_missing ips (map fst list)))"

definition onlineCounts :: "stats_service \<Rightarrow> runtime_stats \<Rightarrow> string option \<times> runtime_stats" where
  "onlineCounts srv stats =
     (case st_GetAllOnlineUsers srv of
        Inl (code, err) \<Rightarrow> if code = Unimplemented then (None, stats) else (Some (''get online users: '' @ err), stats)
      | Inr users \<Rightarrow>
          (None, stats\<lparr>rt_OnlineUsers := Some (int (length users)),
             rt_OnlineIPs := map_option (\<lambda>ips. int (length ips)) (online_ips srv 0 users [])\<rparr>))"

definition QueryRuntime :: "stats_service \<Rightarrow> string + runtime_stats" where
  "QueryRuntime srv =
     (case connect srv of
        Some err \<Rightarrow> Inl err
      | None \<Rightarrow>
          (case st_GetSysStats srv of
             Inl (_, err) \<Rightarrow> Inl (''get sys stats: '' @ err)
           | Inr sys \<Rightarrow>
               (case st_QueryStats srv of
                  Inl (_, err) \<Rightarrow> Inl (''query stats: '' @ err)
                | Inr counters \<Rightarrow>
                    (case onlineCounts srv (fold add_inbound counters
                        (runtime_stats.make 0 0 (sys_Alloc sys) (sys_NumGoroutine sys) None None)) of
                       (Some err, _) \<Rightarrow> Inl err
                     | (None, stats) \<Rightarrow> Inr stats))))"

text \<open>The map by email and the order in which emails were first seen.\<close>

definition add_user_counter ::
  "string \<times> int \<Rightarrow> raw_traffic gomap \<times> string list \<Rightarrow> raw_traffic gomap \<times> string list" where
  "add_user_counter counter = (\<lambda>(byEmail, order).
     case userTraffic (fst counter) of (email, uplink, ok) \<Rightarrow>
       if \<not> ok then (byEmail, order)
       else
         let user = (case map_of byEmail email of None \<Rightarrow> raw_traffic.make email 0 0 | Some u \<Rightarrow> u);
             order' = (if has_key byEmail email then order else order @ [email]);
             user' = (if uplink then raw_traffic.rt_UpBytes_update (\<lambda>n. n + counted (snd counter)) user
                      else raw_traffic.rt_DownBytes_update (\<lambda>n. n + counted (snd counter)) user)
         in (AList.update email user' byEmail, order'))"

definition QueryUserTraffic :: "stats_service \<Rightarrow> string + raw_traffic list" where
  "QueryUserTraffic srv =
     (case connect srv of
        Some err \<Rightarrow> Inl err
      | None \<Rightarrow>
          (case st_QueryStats srv of
             Inl (_, err) \<Rightarrow> Inl (''query stats: '' @ err)
           | Inr counters \<Rightarrow>
               (case fold add_user_counter counters ([], []) of (byEmail, order) \<Rightarrow>
                  Inr (map (\<lambda>email. the (map_of byEmail email)) order))))"

definition presence_of :: "string \<Rightarrow> (string \<times> int) list \<Rightarrow> presence" where
  "presence_of email list =
     \<lparr>ps_Email = email, ps_IPs = sort (map fst list), ps_LastSeen = foldl (\<lambda>m entry. max m (snd entry)) 0 list\<rparr>"

text \<open>The loop over the online entries: the rows, or the error that fails the poll.\<close>

fun presence_loop :: "stats_service \<Rightarrow> nat \<Rightarrow> string list \<Rightarrow> presence list \<Rightarrow> string + presence list" where
  "presence_loop srv i [] rows = Inr rows"
| "presence_loop srv i (entry # rest) rows =
     (case onlineStatName entry of (email, name) \<Rightarrow>
        (case st_GetStatsOnlineIpList srv i name of
           Inl (Unimplemented, _) \<Rightarrow>
             presence_loop srv (i + 1) rest (rows @ [\<lparr>ps_Email = email, ps_IPs = [], ps_LastSeen = 0\<rparr>])
         | Inl (CodeNotFound, _) \<Rightarrow> presence_loop srv (i + 1) rest rows
         | Inl (OtherCode, err) \<Rightarrow> Inl (''get online IP list for '' @ email @ '': '' @ err)
         | Inr list \<Rightarrow> presence_loop srv (i + 1) rest (rows @ [presence_of email list])))"

definition QueryPresence :: "stats_service \<Rightarrow> presence list \<times> bool \<times> string option" where
  "QueryPresence srv =
     (case connect srv of
        Some err \<Rightarrow> ([], False, Some err)
      | None \<Rightarrow>
          (case st_GetAllOnlineUsers srv of
             Inl (code, err) \<Rightarrow>
               if code = Unimplemented then ([], False, None) else ([], False, Some (''get online users: '' @ err))
           | Inr users \<Rightarrow>
               (case presence_loop srv 0 users [] of
                  Inl err \<Rightarrow> ([], True, Some err)
                | Inr rows \<Rightarrow> (rows, True, None))))"

section \<open>The pushes\<close>

record managed_user =
  mu_Email :: string
  mu_ID :: string
  mu_Flow :: string

text \<open>The operation inside the request; the level of an added user is always 0.\<close>

datatype inbound_operation = AddUserOperation nat string string string | RemoveUserOperation string

text \<open>
  The handler service is a state \<open>'x\<close> that \<^verbatim>\<open>AlterInbound\<close> changes and answers, an error as its text.
\<close>

type_synonym 'x alter = "'x \<Rightarrow> string \<Rightarrow> inbound_operation \<Rightarrow> string option \<times> 'x"

definition HandlerClient_AddUser ::
  "string option \<Rightarrow> 'x alter \<Rightarrow> string \<Rightarrow> managed_user \<Rightarrow> 'x \<Rightarrow> string option \<times> 'x" where
  "HandlerClient_AddUser dial alter tag user x =
     (case dial of
        Some err \<Rightarrow> (Some (''connect to xray handler API: '' @ err), x)
      | None \<Rightarrow>
          (case alter x tag (AddUserOperation 0 (mu_Email user) (mu_ID user) (mu_Flow user)) of
             (None, x') \<Rightarrow> (None, x')
           | (Some err, x') \<Rightarrow>
               (if contains_text err ''already exists'' then None
                else Some (''add '' @ mu_Email user @ '' to inbound '' @ tag @ '': '' @ err), x')))"

definition HandlerClient_RemoveUser ::
  "string option \<Rightarrow> 'x alter \<Rightarrow> string \<Rightarrow> string \<Rightarrow> 'x \<Rightarrow> string option \<times> 'x" where
  "HandlerClient_RemoveUser dial alter tag email x =
     (case dial of
        Some err \<Rightarrow> (Some (''connect to xray handler API: '' @ err), x)
      | None \<Rightarrow>
          (case alter x tag (RemoveUserOperation email) of
             (None, x') \<Rightarrow> (None, x')
           | (Some err, x') \<Rightarrow>
               (if contains_text err ''not found'' then None
                else Some (''remove '' @ email @ '' from inbound '' @ tag @ '': '' @ err), x')))"

section \<open>Which names count\<close>

definition user_counter :: "string \<Rightarrow> bool \<Rightarrow> string" where
  "user_counter email up = ''user>>>'' @ email @ ''>>>traffic>>>'' @ (if up then ''uplink'' else ''downlink'')"

definition inbound_counter :: "string \<Rightarrow> bool \<Rightarrow> string" where
  "inbound_counter tag up = ''inbound>>>'' @ tag @ ''>>>traffic>>>'' @ (if up then ''uplink'' else ''downlink'')"

text \<open>A word in front of a separator is read whole when the separator starts no earlier.\<close>

definition whole :: "string \<Rightarrow> bool" where
  "whole w \<longleftrightarrow> \<not> contains_text (w @ ''>>'') ''>>>''"

lemma direction_ok: "direction part = (up, True) \<longleftrightarrow> part = (if up then ''uplink'' else ''downlink'')"
  by (auto simp: direction_def)

lemma split_four:
  "split_on ''>>>'' name = [a, b, c, d] \<longleftrightarrow>
     name = a @ ''>>>'' @ b @ ''>>>'' @ c @ ''>>>'' @ d \<and> whole a \<and> whole b \<and> whole c \<and> \<not> contains_text d ''>>>''"
  (is "?l \<longleftrightarrow> ?r")
proof
  assume l: ?l
  have "name = a @ ''>>>'' @ b @ ''>>>'' @ c @ ''>>>'' @ d" using join_split_on [of "''>>>''" name] l by simp
  moreover have "whole a \<and> whole b \<and> whole c"
    using split_on_parts [of "''>>>''" _ name] l by (simp add: whole_def)
  moreover have "\<not> contains_text d ''>>>''" using split_on_last [of "''>>>''" name] l by simp
  ultimately show ?r by blast
next
  assume r: ?r
  have step: "split_on ''>>>'' (w @ ''>>>'' @ rest) = w # split_on ''>>>'' rest" if "whole w" for w rest
    using split_on_first [of "''>>>''" w rest] that by (simp add: whole_def)
  have "split_on ''>>>'' d = [d]" using r by (intro split_on_whole) auto
  then show ?l using r by (simp only: step)
qed

lemma bracket_word: "CHR ''>'' \<notin> set w \<Longrightarrow> whole w"
proof -
  assume clean: "CHR ''>'' \<notin> set w"
  have "\<not> contains_text ''>>'' ''>>>''" by (simp add: has_prefix_def)
  then show "whole w" using clean by (induction w) (auto simp: whole_def has_prefix_def)
qed

lemma four_parts: "length xs = 4 \<Longrightarrow> \<exists>a b c d. xs = [a, b, c, d]"
  by (auto simp: numeral_eq_Suc length_Suc_conv)

lemma counter_name_iff:
  assumes "whole kind"
  shows "(\<exists>d. split_on ''>>>'' name = [kind, e, ''traffic'', d] \<and> direction d = (up, True)) \<longleftrightarrow>
     name = kind @ ''>>>'' @ e @ ''>>>traffic>>>'' @ (if up then ''uplink'' else ''downlink'') \<and> whole e"
proof -
  have "whole ''traffic''" by (rule bracket_word) simp
  moreover have "\<not> contains_text (if up then ''uplink'' else ''downlink'') ''>>>''" by (simp add: has_prefix_def)
  ultimately show ?thesis using assms by (auto simp: split_four direction_ok)
qed

lemma user_counter_iff: "userTraffic name = (e, up, True) \<longleftrightarrow> name = user_counter e up \<and> whole e"
proof -
  have user: "whole ''user''" by (rule bracket_word) simp
  have "userTraffic name = (e, up, True) \<longleftrightarrow>
      (\<exists>d. split_on ''>>>'' name = [''user'', e, ''traffic'', d] \<and> direction d = (up, True))"
    by (auto simp: userTraffic_def Let_def split: if_splits dest!: four_parts)
  then show ?thesis using counter_name_iff [OF user, of name e up] by (simp add: user_counter_def)
qed

lemma inbound_counter_iff:
  "inboundTraffic name = (up, True) \<longleftrightarrow> (\<exists>tag. name = inbound_counter tag up \<and> whole tag \<and> tag \<noteq> ''api'')"
proof -
  have inb: "whole ''inbound''" by (rule bracket_word) simp
  have "inboundTraffic name = (up, True) \<longleftrightarrow>
      (\<exists>tag. tag \<noteq> ''api'' \<and> (\<exists>d. split_on ''>>>'' name = [''inbound'', tag, ''traffic'', d] \<and> direction d = (up, True)))"
    by (auto simp: inboundTraffic_def Let_def split: if_splits dest!: four_parts)
  then show ?thesis unfolding counter_name_iff [OF inb] by (auto simp: inbound_counter_def)
qed

lemma onlineStatName_reads: "onlineStatName (''user>>>'' @ e @ ''>>>online'') = (e, ''user>>>'' @ e @ ''>>>online'')"
  by (simp add: onlineStatName_def Let_def has_prefix_def has_suffix_def)

section \<open>The counters by user\<close>

definition counter_email :: "string \<times> int \<Rightarrow> string list" where
  "counter_email counter = (case userTraffic (fst counter) of (e, _, ok) \<Rightarrow> if ok then [e] else [])"

definition user_sum :: "bool \<Rightarrow> string \<Rightarrow> (string \<times> int) list \<Rightarrow> u64" where
  "user_sum up e counters = sum_list (map (counted \<circ> snd) (filter (\<lambda>c. fst c = user_counter e up) counters))"

definition user_emails :: "(string \<times> int) list \<Rightarrow> string list" where
  "user_emails counters = concat (map counter_email counters)"

definition traffic_row :: "(string \<times> int) list \<Rightarrow> string \<Rightarrow> raw_traffic" where
  "traffic_row counters e = raw_traffic.make e (user_sum True e counters) (user_sum False e counters)"

lemma user_counter_inj:
  assumes "user_counter e up = user_counter e' up'" and "whole e" and "whole e'"
  shows "e = e' \<and> up = up'"
  using assms user_counter_iff [of "user_counter e up" e up] user_counter_iff [of "user_counter e up" e' up'] by simp

lemma user_emails_iff:
  "e \<in> set (user_emails counters) \<longleftrightarrow> whole e \<and> (\<exists>up. user_counter e up \<in> fst ` set counters)"
proof -
  have "e \<in> set (counter_email c) \<longleftrightarrow> whole e \<and> (\<exists>up. user_counter e up = fst c)" for c
  proof -
    obtain e' up' ok where u: "userTraffic (fst c) = (e', up', ok)" by (metis prod_cases3)
    show ?thesis
    proof (cases ok)
      case True
      then have "fst c = user_counter e' up'" "whole e'" using u user_counter_iff by auto
      then show ?thesis using u True user_counter_inj by (auto simp: counter_email_def)
    next
      case False
      then have "user_counter e up \<noteq> fst c" if "whole e" for up
        using u user_counter_iff [of "fst c" e up] that by auto
      then show ?thesis using u False by (auto simp: counter_email_def)
    qed
  qed
  then show ?thesis by (auto simp: user_emails_def)
qed

lemma counter_ends: "user_counter e True \<noteq> user_counter e False" "user_counter e False \<noteq> user_counter e True"
  by (simp_all add: user_counter_def)

lemma user_sum_snoc:
  "user_sum up e (cs @ [c]) = user_sum up e cs + (if fst c = user_counter e up then counted (snd c) else 0)"
  by (simp add: user_sum_def)

lemma user_sum_absent: "whole e \<Longrightarrow> e \<notin> set (user_emails cs) \<Longrightarrow> user_sum up e cs = 0"
proof -
  assume "whole e" and "e \<notin> set (user_emails cs)"
  then have "filter (\<lambda>c. fst c = user_counter e up) cs = []" by (force simp: user_emails_iff filter_empty_conv)
  then show ?thesis by (simp add: user_sum_def)
qed

lemma fold_user_counters:
  "fold add_user_counter cs ([], []) = (m, order) \<Longrightarrow>
     order = dedupe_from [] (user_emails cs) \<and>
     (\<forall>e. map_of m e = (if e \<in> set (user_emails cs) then Some (traffic_row cs e) else None))"
proof (induction cs arbitrary: m order rule: rev_induct)
  case Nil
  then show ?case by (simp add: user_emails_def)
next
  case (snoc c cs)
  obtain m0 order0 where f: "fold add_user_counter cs ([], []) = (m0, order0)" by fastforce
  then have ih: "order0 = dedupe_from [] (user_emails cs)"
      "\<And>e. map_of m0 e = (if e \<in> set (user_emails cs) then Some (traffic_row cs e) else None)"
    using snoc.IH by auto
  have step: "(m, order) = add_user_counter c (m0, order0)" using snoc.prems f by simp
  have emails: "user_emails (cs @ [c]) = user_emails cs @ counter_email c" by (simp add: user_emails_def)
  obtain e up ok where u: "userTraffic (fst c) = (e, up, ok)" by (metis prod_cases3)
  show ?case
  proof (cases ok)
    case False
    then have "fst c \<noteq> user_counter e' up'" if "whole e'" for e' up'
      using u user_counter_iff [of "fst c" e' up'] that by auto
    then have same: "traffic_row (cs @ [c]) e' = traffic_row cs e'" if "whole e'" for e'
      using that by (simp add: traffic_row_def user_sum_snoc)
    have "counter_email c = []" using u False by (simp add: counter_email_def)
    then show ?thesis using step u False ih same
      by (auto simp: add_user_counter_def emails user_emails_iff)
  next
    case True
    then have name: "fst c = user_counter e up" and we: "whole e" using u user_counter_iff by auto
    have ce: "counter_email c = [e]" using u True by (simp add: counter_email_def)
    have other: "traffic_row (cs @ [c]) e' = traffic_row cs e'" if "whole e'" "e' \<noteq> e" for e'
    proof -
      have "fst c \<noteq> user_counter e' up'" for up' using that name we user_counter_inj by metis
      then show ?thesis by (simp add: traffic_row_def user_sum_snoc)
    qed
    have this_row: "traffic_row (cs @ [c]) e = (if up then raw_traffic.rt_UpBytes_update (\<lambda>n. n + counted (snd c)) (traffic_row cs e)
        else raw_traffic.rt_DownBytes_update (\<lambda>n. n + counted (snd c)) (traffic_row cs e))"
      using name by (cases up) (simp_all add: traffic_row_def user_sum_snoc raw_traffic.make_def counter_ends)
    have zero: "traffic_row cs e = raw_traffic.make e 0 0" if "e \<notin> set (user_emails cs)"
      using that we by (simp add: traffic_row_def user_sum_absent)
    have mapped: "map_of m = (map_of m0)(e \<mapsto> traffic_row (cs @ [c]) e)"
      using step u True ih(2) [of e] zero this_row by (auto simp: add_user_counter_def Let_def split: if_splits)
    have "order = order0 @ (if e \<in> set (user_emails cs) then [] else [e])"
      using step u True ih(2) [of e] by (auto simp: add_user_counter_def Let_def split: if_splits)
    then show ?thesis using ih mapped ce other
      by (auto simp: emails dedupe_from_snoc user_emails_iff)
  qed
qed

text \<open>
  C26. The users' traffic a poll reads is determined by the counters alone: a failed dial or query is
  passed on as an error, and otherwise there is exactly one row per user, in the order the users
  first appear, whose two totals are the sums (at 64 bits) of the non-negative values of the counters
  named \<^verbatim>\<open>user>>>EMAIL>>>traffic>>>uplink\<close> and \<^verbatim>\<open>downlink\<close>.  A user has a row exactly when one of the two
  counters is there and \<^verbatim>\<open>>>>\<close> starts nowhere earlier in the name than behind the email.
\<close>

theorem user_rows_by_email:
  "QueryUserTraffic srv =
     (case connect srv of
        Some err \<Rightarrow> Inl err
      | None \<Rightarrow>
          (case st_QueryStats srv of
             Inl (_, err) \<Rightarrow> Inl (''query stats: '' @ err)
           | Inr counters \<Rightarrow> Inr (map (traffic_row counters) (dedupe_from [] (user_emails counters))))) \<and>
   (e \<in> set (user_emails counters) \<longleftrightarrow> whole e \<and> (\<exists>up. user_counter e up \<in> fst ` set counters))"
proof -
  have rows: "(case fold add_user_counter cs ([], []) of (m, order) \<Rightarrow> map (\<lambda>e. the (map_of m e)) order) =
      map (traffic_row cs) (dedupe_from [] (user_emails cs))" for cs
  proof -
    obtain m order where f: "fold add_user_counter cs ([], []) = (m, order)" by fastforce
    from fold_user_counters [OF f] show ?thesis by (auto simp: f set_dedupe_from)
  qed
  have "(case fold add_user_counter cs ([], []) of (m, order) \<Rightarrow> Inr (map (\<lambda>e. the (map_of m e)) order)) =
      (Inr (map (traffic_row cs) (dedupe_from [] (user_emails cs))) :: string + raw_traffic list)" for cs
    using rows [of cs] by (cases "fold add_user_counter cs ([], [])") simp
  then show ?thesis
    by (auto simp: QueryUserTraffic_def user_emails_iff split: option.split sum.split)
qed

text \<open>A user whose email ends in the separator's own character is online but never counted.\<close>

lemma bracket_email_uncounted:
  "userTraffic (user_counter ''bob>'' True) = ([], False, False) \<and>
   onlineStatName ''user>>>bob>>>>online'' = (''bob>'', ''user>>>bob>>>>online'')"
  by (code_simp)

section \<open>The online set\<close>

text \<open>What the server answers for the users, in the order of the calls.\<close>

definition ip_answers :: "stats_service \<Rightarrow> nat \<Rightarrow> string list \<Rightarrow> (string \<times> (grpc_error + (string \<times> int) list)) list" where
  "ip_answers srv i users =
     map (\<lambda>(j, entry). case onlineStatName entry of (email, name) \<Rightarrow> (email, st_GetStatsOnlineIpList srv j name))
       (zip [i..<i + length users] users)"

fun answered :: "grpc_code \<Rightarrow> string \<times> (grpc_error + (string \<times> int) list) \<Rightarrow> bool" where
  "answered code (_, Inl (c, _)) \<longleftrightarrow> c = code"
| "answered code (_, Inr _) \<longleftrightarrow> False"

fun presence_row :: "string \<times> (grpc_error + (string \<times> int) list) \<Rightarrow> presence list" where
  "presence_row (email, Inl (c, _)) =
     (if c = Unimplemented then [\<lparr>ps_Email = email, ps_IPs = [], ps_LastSeen = 0\<rparr>] else [])"
| "presence_row (email, Inr list) = [presence_of email list]"

fun ips_of :: "string \<times> (grpc_error + (string \<times> int) list) \<Rightarrow> string list" where
  "ips_of (_, Inl _) = []"
| "ips_of (_, Inr list) = map fst list"

lemma ip_answers_Nil [simp]: "ip_answers srv i [] = []"
  by (simp add: ip_answers_def)

lemma ip_answers_Cons:
  "ip_answers srv i (entry # rest) =
     (fst (onlineStatName entry), st_GetStatsOnlineIpList srv i (snd (onlineStatName entry))) # ip_answers srv (i + 1) rest"
  by (simp add: ip_answers_def upt_conv_Cons split_beta del: upt_Suc)

lemma presence_loop_cases:
  "(if list_ex (answered OtherCode) (ip_answers srv i users)
    then (\<exists>err. presence_loop srv i users rows = Inl err)
    else presence_loop srv i users rows = Inr (rows @ concat (map presence_row (ip_answers srv i users))))"
proof (induction users arbitrary: i rows)
  case Nil
  then show ?case by simp
next
  case (Cons entry rest)
  obtain email name where n: "onlineStatName entry = (email, name)" by fastforce
  show ?case
  proof (cases "st_GetStatsOnlineIpList srv i name")
    case (Inl err)
    then show ?thesis
      using Cons.IH [of "i + 1"] n
      by (cases err; cases "fst err") (auto simp: ip_answers_Cons)
  next
    case (Inr list)
    then show ?thesis using Cons.IH [of "i + 1"] n by (auto simp: ip_answers_Cons)
  qed
qed

lemma online_ips_cases:
  "online_ips srv i users ips =
     (if list_ex (answered Unimplemented) (ip_answers srv i users) then None
      else Some (append_missing ips (concat (map ips_of (ip_answers srv i users)))))"
proof (induction users arbitrary: i ips)
  case Nil
  then show ?case by simp
next
  case (Cons entry rest)
  then show ?case
    by (cases "st_GetStatsOnlineIpList srv i (snd (onlineStatName entry))")
      (auto simp: ip_answers_Cons append_missing_append)
qed

lemma foldl_max: "foldl (\<lambda>m entry. max m (snd entry)) n list = Max (insert n (snd ` set list))" for n :: int
proof (induction list arbitrary: n)
  case (Cons a list)
  have "Max (insert (max n (snd a)) (snd ` set list)) = Max (insert n (snd ` set (a # list)))"
    by (cases "list = []") (simp_all add: max.assoc)
  then show ?case using Cons by simp
qed simp

lemma presence_of_facts:
  "sorted (ps_IPs (presence_of email list)) \<and> mset (ps_IPs (presence_of email list)) = mset (map fst list) \<and>
   ps_LastSeen (presence_of email list) = Max (insert 0 (snd ` set list)) \<and> ps_Email (presence_of email list) = email"
  by (simp add: presence_of_def foldl_max)

lemma length_append_missing: "int (length (append_missing [] xs)) = int (card (set xs))"
  using distinct_card [OF distinct_append_missing [of "[]" xs]] by simp

text \<open>
  The presence of one poll, on every branch.  A server without the online calls is no failure and
  reports nothing; another failure of the user list fails the poll.  Otherwise the poll fails exactly
  when the IP list of some user fails for another reason than that the call is missing or the user is
  gone, and then reports nobody; else it reports, in the server's order, every user except those gone
  in between: from its sorted IPs and the latest of its last-seen times, or without IPs where the
  server cannot list them.
\<close>

lemma presence_is_the_online_set:
  "QueryPresence srv =
     (case connect srv of
        Some err \<Rightarrow> ([], False, Some err)
      | None \<Rightarrow>
          (case st_GetAllOnlineUsers srv of
             Inl (code, err) \<Rightarrow> ([], False, if code = Unimplemented then None else Some (''get online users: '' @ err))
           | Inr users \<Rightarrow>
               if list_ex (answered OtherCode) (ip_answers srv 0 users)
               then ([], True, Some (projl (presence_loop srv 0 users [])))
               else (concat (map presence_row (ip_answers srv 0 users)), True, None))) \<and>
   sorted (ps_IPs (presence_of email list)) \<and> mset (ps_IPs (presence_of email list)) = mset (map fst list) \<and>
   ps_LastSeen (presence_of email list) = Max (insert 0 (snd ` set list))"
proof -
  have "(case presence_loop srv 0 users [] of Inl err \<Rightarrow> ([], True, Some err) | Inr rows \<Rightarrow> (rows, True, None)) =
      (if list_ex (answered OtherCode) (ip_answers srv 0 users)
       then ([], True, Some (projl (presence_loop srv 0 users [])))
       else (concat (map presence_row (ip_answers srv 0 users)), True, None))" for users
    using presence_loop_cases [of srv 0 users "[]"] by (auto split: if_splits)
  then show ?thesis
    using presence_of_facts [of email list] by (auto simp: QueryPresence_def split: option.split sum.split)
qed

section \<open>The runtime reading\<close>

definition inbound_sum :: "bool \<Rightarrow> (string \<times> int) list \<Rightarrow> u64" where
  "inbound_sum up counters = sum_list (map (counted \<circ> snd) (filter (\<lambda>c. inboundTraffic (fst c) = (up, True)) counters))"

lemma inbound_sum_Cons:
  "inbound_sum up (c # cs) = (if inboundTraffic (fst c) = (up, True) then counted (snd c) else 0) + inbound_sum up cs"
  by (simp add: inbound_sum_def)

lemma add_inbound_sums:
  "add_inbound c stats =
     runtime_stats.rt_UpBytes_update (\<lambda>n. n + (if inboundTraffic (fst c) = (True, True) then counted (snd c) else 0))
       (runtime_stats.rt_DownBytes_update (\<lambda>n. n + (if inboundTraffic (fst c) = (False, True) then counted (snd c) else 0)) stats)"
  by (cases stats; cases "inboundTraffic (fst c)") (simp add: add_inbound_def)

lemma fold_inbounds:
  "fold add_inbound counters stats =
     runtime_stats.rt_UpBytes_update (\<lambda>n. n + inbound_sum True counters)
       (runtime_stats.rt_DownBytes_update (\<lambda>n. n + inbound_sum False counters) stats)"
proof (induction counters arbitrary: stats)
  case Nil
  then show ?case by (simp add: inbound_sum_def)
next
  case (Cons c cs)
  have "fold add_inbound (c # cs) stats = fold add_inbound cs (add_inbound c stats)" by simp
  then show ?case unfolding Cons add_inbound_sums by (cases stats) (simp add: inbound_sum_Cons add.assoc)
qed

text \<open>
  The reading behind the status row.  When the dial, the two stats calls and the user list succeed,
  upload and download are the sums (at 64 bits) over the counters of user inbounds, the panel's own
  \<^verbatim>\<open>api\<close> inbound left out; the online users are counted, and the online IPs are the number of distinct
  IPs over the users whose list was answered, unknown exactly when the server cannot list them.
\<close>

lemma runtime_sums_user_inbounds:
  assumes "connect srv = None" and "st_GetSysStats srv = Inr sys" and "st_QueryStats srv = Inr counters"
    and "st_GetAllOnlineUsers srv = Inr users"
  shows "QueryRuntime srv = Inr (runtime_stats.make (inbound_sum True counters) (inbound_sum False counters)
           (sys_Alloc sys) (sys_NumGoroutine sys) (Some (int (length users)))
           (if list_ex (answered Unimplemented) (ip_answers srv 0 users) then None
            else Some (int (card (set (concat (map ips_of (ip_answers srv 0 users)))))))) \<and>
         (inboundTraffic name = (up, True) \<longleftrightarrow> (\<exists>tag. name = inbound_counter tag up \<and> whole tag \<and> tag \<noteq> ''api''))"
  using assms inbound_counter_iff [of name up]
  by (simp add: QueryRuntime_def onlineCounts_def online_ips_cases fold_inbounds length_append_missing
      runtime_stats.make_def)

definition example_service :: stats_service where
  "example_service = \<lparr>st_Dial = None, st_GetSysStats = Inr \<lparr>sys_Alloc = 7, sys_NumGoroutine = 3\<rparr>,
     st_QueryStats = Inr [(''inbound>>>api>>>traffic>>>uplink'', 5), (''inbound>>>vless>>>traffic>>>uplink'', 9),
       (''user>>>bob>>>traffic>>>downlink'', 4)],
     st_GetAllOnlineUsers = Inr [''user>>>bob>>>online''],
     st_GetStatsOnlineIpList = (\<lambda>_ _. Inr [(''10.0.0.9'', 5), (''10.0.0.2'', 8)])\<rparr>"

lemma runtime_sums_user_inbounds_witness:
  "QueryRuntime example_service = Inr (runtime_stats.make 9 0 7 3 (Some 1) (Some 2))"
proof -
  have c: "connect example_service = None" by code_simp
  have s: "st_GetSysStats example_service = Inr \<lparr>sys_Alloc = 7, sys_NumGoroutine = 3\<rparr>" by (simp add: example_service_def)
  have q: "st_QueryStats example_service = Inr [(''inbound>>>api>>>traffic>>>uplink'', 5),
      (''inbound>>>vless>>>traffic>>>uplink'', 9), (''user>>>bob>>>traffic>>>downlink'', 4)]"
    by (simp add: example_service_def)
  have u: "st_GetAllOnlineUsers example_service = Inr [''user>>>bob>>>online'']" by (simp add: example_service_def)
  have "inbound_sum True [(''inbound>>>api>>>traffic>>>uplink'', 5),
      (''inbound>>>vless>>>traffic>>>uplink'', 9), (''user>>>bob>>>traffic>>>downlink'', 4)] = 9" by code_simp
  moreover have "inbound_sum False [(''inbound>>>api>>>traffic>>>uplink'', 5),
      (''inbound>>>vless>>>traffic>>>uplink'', 9), (''user>>>bob>>>traffic>>>downlink'', 4)] = 0" by code_simp
  moreover have "\<not> list_ex (answered Unimplemented) (ip_answers example_service 0 [''user>>>bob>>>online''])" by code_simp
  moreover have "card (set (concat (map ips_of (ip_answers example_service 0 [''user>>>bob>>>online''])))) = 2" by code_simp
  ultimately show ?thesis
    using runtime_sums_user_inbounds [OF c s q u] by simp
qed

end
