(* ===== verification/Push.thy ===== *)
theory Push
  imports Roster XrayGrpc
begin

text \<open>
  The live half of the apply path end to end: the operations that \<^verbatim>\<open>src/internal/roster/service.go\<close>
  plans, pushed through \<^verbatim>\<open>HandlerClient\<close> of \<^verbatim>\<open>src/internal/xraygrpc/handler.go\<close> into a running xray.
  \<open>Roster\<close> takes what a push answers as an argument; here the answer is what the client makes of the
  server's, the server being a state of its own.
\<close>

section \<open>The client as the pusher\<close>

fun push_call :: "'x alter \<Rightarrow> effect \<Rightarrow> 'x \<Rightarrow> string option \<times> 'x" where
  "push_call alter (AddUser tag email cid flow) x =
     HandlerClient_AddUser None alter tag \<lparr>mu_Email = email, mu_ID = cid, mu_Flow = flow\<rparr> x"
| "push_call alter (RemoveUser tag email) x = HandlerClient_RemoveUser None alter tag email x"
| "push_call alter (Rendered plan) x = (None, x)"
| "push_call alter (PurgeNotified email) x = (None, x)"

definition after_calls :: "'x alter \<Rightarrow> 'x \<Rightarrow> effect list \<Rightarrow> 'x" where
  "after_calls alter x trace = fold (\<lambda>eff y. snd (push_call alter eff y)) trace x"

definition live_pusher :: "'x alter \<Rightarrow> 'x \<Rightarrow> pusher" where
  "live_pusher alter x trace eff = fst (push_call alter eff (after_calls alter x trace))"

lemma after_calls_simps [simp]:
  "after_calls alter x [] = x"
  "after_calls alter x (eff # effs) = after_calls alter (snd (push_call alter eff x)) effs"
  "after_calls alter x (effs @ more_effs) = after_calls alter (after_calls alter x effs) more_effs"
  by (simp_all add: after_calls_def)

section \<open>A server that behaves as documented\<close>

definition put :: "('t \<Rightarrow> 'e \<Rightarrow> 'c option) \<Rightarrow> 't \<Rightarrow> 'e \<Rightarrow> 'c option \<Rightarrow> 't \<Rightarrow> 'e \<Rightarrow> 'c option" where
  "put h t e c = h(t := (h t)(e := c))"

text \<open>
  \<open>holds x tag email\<close> is the credential the server has for an email on an inbound.  On the inbounds it
  knows, an add of a new email and a remove of a present one succeed and change that entry alone; an
  add of a present email and a remove of an absent one change nothing and answer with a text that says
  so.
\<close>

definition adds_new :: "'x alter \<Rightarrow> ('x \<Rightarrow> string \<Rightarrow> string \<Rightarrow> string option) \<Rightarrow> string set \<Rightarrow> bool" where
  "adds_new alter holds known \<longleftrightarrow> (\<forall>x tag level email cid flow. tag \<in> known \<longrightarrow> holds x tag email = None \<longrightarrow>
     fst (alter x tag (AddUserOperation level email cid flow)) = None \<and>
     holds (snd (alter x tag (AddUserOperation level email cid flow))) = put (holds x) tag email (Some cid))"

definition refuses_duplicate :: "'x alter \<Rightarrow> ('x \<Rightarrow> string \<Rightarrow> string \<Rightarrow> string option) \<Rightarrow> string set \<Rightarrow> bool" where
  "refuses_duplicate alter holds known \<longleftrightarrow> (\<forall>x tag level email cid flow. tag \<in> known \<longrightarrow> holds x tag email \<noteq> None \<longrightarrow>
     snd (alter x tag (AddUserOperation level email cid flow)) = x \<and>
     (\<exists>text. fst (alter x tag (AddUserOperation level email cid flow)) = Some text \<and> contains_text text ''already exists''))"

definition removes_present :: "'x alter \<Rightarrow> ('x \<Rightarrow> string \<Rightarrow> string \<Rightarrow> string option) \<Rightarrow> string set \<Rightarrow> bool" where
  "removes_present alter holds known \<longleftrightarrow> (\<forall>x tag email. tag \<in> known \<longrightarrow> holds x tag email \<noteq> None \<longrightarrow>
     fst (alter x tag (RemoveUserOperation email)) = None \<and>
     holds (snd (alter x tag (RemoveUserOperation email))) = put (holds x) tag email None)"

definition misses_absent :: "'x alter \<Rightarrow> ('x \<Rightarrow> string \<Rightarrow> string \<Rightarrow> string option) \<Rightarrow> string set \<Rightarrow> bool" where
  "misses_absent alter holds known \<longleftrightarrow> (\<forall>x tag email. tag \<in> known \<longrightarrow> holds x tag email = None \<longrightarrow>
     snd (alter x tag (RemoveUserOperation email)) = x \<and>
     (\<exists>text. fst (alter x tag (RemoveUserOperation email)) = Some text \<and> contains_text text ''not found''))"

lemma put_same: "put h t e (h t e) = h"
  by (simp add: put_def)

lemma put_put: "put (put h t e c) t e d = put h t e d"
  by (simp add: put_def)

lemma put_apply: "put h t e c t' e' = (if t' = t \<and> e' = e then c else h t' e')"
  by (simp add: put_def)

text \<open>What one client call does on such a server: never an error.\<close>

lemma add_call:
  assumes "adds_new alter holds known" and "refuses_duplicate alter holds known" and "tag \<in> known"
  shows "fst (push_call alter (AddUser tag email cid flow) x) = None \<and>
    holds (snd (push_call alter (AddUser tag email cid flow) x)) =
      put (holds x) tag email (if holds x tag email = None then Some cid else holds x tag email)"
proof -
  let ?a = "alter x tag (AddUserOperation 0 email cid flow)"
  have new: "holds x tag email = None \<Longrightarrow> fst ?a = None \<and> holds (snd ?a) = put (holds x) tag email (Some cid)"
    using assms(1,3) unfolding adds_new_def by blast
  have old: "holds x tag email \<noteq> None \<Longrightarrow> snd ?a = x \<and> (\<exists>text. fst ?a = Some text \<and> contains_text text ''already exists'')"
    using assms(2,3) unfolding refuses_duplicate_def by blast
  show ?thesis
    using new old put_same [of "holds x" tag email] by (cases ?a) (auto simp: HandlerClient_AddUser_def split: option.split)
qed

lemma remove_call:
  assumes "removes_present alter holds known" and "misses_absent alter holds known" and "tag \<in> known"
  shows "fst (push_call alter (RemoveUser tag email) x) = None \<and>
    holds (snd (push_call alter (RemoveUser tag email) x)) = put (holds x) tag email None"
proof -
  let ?a = "alter x tag (RemoveUserOperation email)"
  have there: "holds x tag email \<noteq> None \<Longrightarrow> fst ?a = None \<and> holds (snd ?a) = put (holds x) tag email None"
    using assms(1,3) unfolding removes_present_def by blast
  have gone: "holds x tag email = None \<Longrightarrow> snd ?a = x \<and> (\<exists>text. fst ?a = Some text \<and> contains_text text ''not found'')"
    using assms(2,3) unfolding misses_absent_def by blast
  show ?thesis
    using there gone put_same [of "holds x" tag email] by (cases ?a; cases "holds x tag email") (auto simp: HandlerClient_RemoveUser_def split: option.split)
qed

text \<open>One planned operation, as the service pushes it.\<close>

lemma call_live:
  "call (live_pusher alter x) eff s =
     (fst (push_call alter eff (after_calls alter x (sv_trace s))), s\<lparr>sv_trace := sv_trace s @ [eff]\<rparr>)"
  by (simp add: call_def live_pusher_def)

definition executed :: "string \<Rightarrow> string \<Rightarrow> push_op list \<Rightarrow> (string \<Rightarrow> string \<Rightarrow> string option) \<Rightarrow> string \<Rightarrow> string \<Rightarrow> string option" where
  "executed email cid ops h tag e = (if e = email then exec_ops cid ops (\<lambda>t. h t email) tag else h tag e)"

lemma pushOp_executes:
  assumes "adds_new alter holds known" and "refuses_duplicate alter holds known"
    and "removes_present alter holds known" and "misses_absent alter holds known"
    and "po_tag op \<in> known" and "findManaged vw (po_tag op) \<noteq> None"
  shows "\<exists>s'. pushOp vw (live_pusher alter x) email cid op s = (None, s') \<and>
    holds (after_calls alter x (sv_trace s')) = executed email cid [op] (holds (after_calls alter x (sv_trace s)))"
proof -
  note add = add_call [OF assms(1,2,5)] and remove = remove_call [OF assms(3,4,5)]
  show ?thesis
  proof (cases "po_kind op")
    case opAttach
    then show ?thesis using assms(6) add
      by (auto simp: pushOp_def call_live executed_def exec_ops_def exec_op_def put_apply fun_eq_iff)
  next
    case opDetach
    then show ?thesis using assms(6) remove
      by (auto simp: pushOp_def call_live executed_def exec_ops_def exec_op_def put_apply fun_eq_iff)
  next
    case opRotate
    then show ?thesis using assms(6) remove add
      by (auto simp: pushOp_def call_live executed_def exec_ops_def exec_op_def put_apply put_put fun_eq_iff)
  qed
qed


definition table_alter :: "(string \<Rightarrow> string \<Rightarrow> string option) alter" where
  "table_alter h tag op =
     (case op of
        AddUserOperation level email cid flow \<Rightarrow>
          if h tag email = None then (None, put h tag email (Some cid)) else (Some (''User '' @ email @ '' already exists.''), h)
      | RemoveUserOperation email \<Rightarrow>
          if h tag email = None then (Some (''User '' @ email @ '' not found.''), h) else (None, put h tag email None))"

lemma table_alter_documented:
  "adds_new table_alter (\<lambda>h. h) known" "refuses_duplicate table_alter (\<lambda>h. h) known"
  "removes_present table_alter (\<lambda>h. h) known" "misses_absent table_alter (\<lambda>h. h) known"
proof -
  have dup: "contains_text (''User '' @ email @ '' already exists.'') ''already exists''" for email
    using contains_text_in [of "''User '' @ email @ '' ''" "''already exists''" "''.''"] by simp
  have gone: "contains_text (''User '' @ email @ '' not found.'') ''not found''" for email
    using contains_text_in [of "''User '' @ email @ '' ''" "''not found''" "''.''"] by simp
  show "adds_new table_alter (\<lambda>h. h) known" "refuses_duplicate table_alter (\<lambda>h. h) known"
    "removes_present table_alter (\<lambda>h. h) known" "misses_absent table_alter (\<lambda>h. h) known"
    using dup gone
    by (simp_all add: adds_new_def refuses_duplicate_def removes_present_def misses_absent_def table_alter_def)
qed


end
