(* ===== verification/GeoIP.thy ===== *)
theory GeoIP
  imports Host "HOL-Library.Char_ord" "HOL-Library.List_Lexorder" "HOL-Library.Multiset"
begin

text \<open>
  Country lookup, \<^verbatim>\<open>src/internal/geoip/geoip.go\<close>: the ranges of \<^verbatim>\<open>geoip.dat\<close> sorted by base address and
  the binary search for the range of an IP.

  An address of \<^verbatim>\<open>net/netip\<close> is its bit length (0 for the zero value), its number and its zone; a
  prefix carries its length, -1 for an invalid one.  Reading the file and decoding the protobuf are
  outside the repository or pure I/O and come in as answers; \<^verbatim>\<open>slices.SortFunc\<close> leaves the order of
  equal keys open, so the sorted list is the value of a function argument.
\<close>

section \<open>Addresses and prefixes\<close>

record addr =
  ad_bits :: nat
  ad_value :: nat
  ad_zone :: string

definition zero_addr :: addr where
  "zero_addr = \<lparr>ad_bits = 0, ad_value = 0, ad_zone = []\<rparr>"

definition big_endian :: "nat \<Rightarrow> nat list \<Rightarrow> nat" where
  "big_endian base digits = foldl (\<lambda>n d. base * n + d) 0 digits"

fun addr_of :: "ip_addr \<Rightarrow> addr" where
  "addr_of (IP4 bs) = \<lparr>ad_bits = 32, ad_value = big_endian 256 bs, ad_zone = []\<rparr>"
| "addr_of (IP6 gs zone) = \<lparr>ad_bits = 128, ad_value = big_endian 65536 gs, ad_zone = zone\<rparr>"

definition AddrFromSlice :: "nat list \<Rightarrow> addr option" where
  "AddrFromSlice bytes =
     (if length bytes = 4 \<or> length bytes = 16
      then Some \<lparr>ad_bits = 8 * length bytes, ad_value = big_endian 256 bytes, ad_zone = []\<rparr> else None)"

text \<open>An IPv4 address mapped into IPv6 becomes that IPv4 address, without a zone.\<close>

definition Unmap :: "addr \<Rightarrow> addr" where
  "Unmap a =
     (if ad_bits a = 128 \<and> ad_value a div 2 ^ 32 = 65535
      then \<lparr>ad_bits = 32, ad_value = ad_value a mod 2 ^ 32, ad_zone = []\<rparr> else a)"

definition Addr_Compare :: "addr \<Rightarrow> addr \<Rightarrow> int" where
  "Addr_Compare a b =
     (if ad_bits a < ad_bits b then -1 else if ad_bits b < ad_bits a then 1
      else if ad_value a < ad_value b then -1 else if ad_value b < ad_value a then 1
      else if ad_bits a = 128 then
        (if ad_zone a < ad_zone b then -1 else if ad_zone b < ad_zone a then 1 else 0)
      else 0)"

record prefix =
  pf_addr :: addr
  pf_bits :: int

definition PrefixFrom :: "addr \<Rightarrow> nat \<Rightarrow> prefix" where
  "PrefixFrom a bits =
     \<lparr>pf_addr = a\<lparr>ad_zone := []\<rparr>, pf_bits = (if 0 < ad_bits a \<and> bits \<le> ad_bits a then int bits else -1)\<rparr>"

definition Masked :: "prefix \<Rightarrow> prefix" where
  "Masked p =
     (if pf_bits p < 0 then \<lparr>pf_addr = zero_addr, pf_bits = -1\<rparr>
      else let k = ad_bits (pf_addr p) - nat (pf_bits p) in
        p\<lparr>pf_addr := (pf_addr p)\<lparr>ad_value := 2 ^ k * (ad_value (pf_addr p) div 2 ^ k)\<rparr>\<rparr>)"

definition Prefix_Contains :: "prefix \<Rightarrow> addr \<Rightarrow> bool" where
  "Prefix_Contains p a \<longleftrightarrow>
     0 \<le> pf_bits p \<and> ad_zone a = [] \<and> 0 < ad_bits a \<and> ad_bits (pf_addr p) = ad_bits a \<and>
     (let k = ad_bits a - nat (pf_bits p) in ad_value (pf_addr p) div 2 ^ k = ad_value a div 2 ^ k)"

section \<open>Loading\<close>

record prefix_entry =
  ge_prefix :: prefix
  ge_country :: string

definition isAlpha2 :: "string \<Rightarrow> bool" where
  "isAlpha2 code \<longleftrightarrow> length code = 2 \<and>
     CHR ''A'' \<le> code ! 0 \<and> code ! 0 \<le> CHR ''Z'' \<and> CHR ''A'' \<le> code ! 1 \<and> code ! 1 \<le> CHR ''Z''"

text \<open>One category of the file: its code and its CIDRs, each with the bytes of the address.\<close>

type_synonym geo_list = "(string \<times> (nat list \<times> nat) list) list"

definition cidr_entries :: "string \<Rightarrow> nat list \<times> nat \<Rightarrow> prefix_entry list" where
  "cidr_entries country cidr =
     (case AddrFromSlice (fst cidr) of
        None \<Rightarrow> []
      | Some a \<Rightarrow> [\<lparr>ge_prefix = Masked (PrefixFrom a (snd cidr)), ge_country = country\<rparr>])"

definition category_entries :: "string \<times> (nat list \<times> nat) list \<Rightarrow> prefix_entry list" where
  "category_entries entry =
     (let country = to_upper (fst entry) in
      if \<not> isAlpha2 country then [] else concat (map (cidr_entries country) (snd entry)))"

definition all_entries :: "geo_list \<Rightarrow> prefix_entry list" where
  "all_entries list = concat (map category_entries list)"

definition Load ::
  "(prefix_entry list \<Rightarrow> prefix_entry list) \<Rightarrow> string + 'data \<Rightarrow> ('data \<Rightarrow> string + geo_list) \<Rightarrow> string + prefix_entry list" where
  "Load sort_entries file unmarshal =
     (case file of
        Inl err \<Rightarrow> Inl (''read geoip.dat: '' @ err)
      | Inr data \<Rightarrow>
          (case unmarshal data of
             Inl err \<Rightarrow> Inl (''parse geoip.dat: '' @ err)
           | Inr list \<Rightarrow> Inr (sort_entries (all_entries list))))"

section \<open>Lookup\<close>

text \<open>\<^verbatim>\<open>slices.BinarySearchFunc\<close>: the loop over the half-open interval.\<close>

function search_loop :: "(nat \<Rightarrow> int) \<Rightarrow> nat \<Rightarrow> nat \<Rightarrow> nat" where
  "search_loop cmp i j =
     (if i < j then let h = (i + j) div 2 in if cmp h < 0 then search_loop cmp (h + 1) j else search_loop cmp i h
      else i)"
  by pat_completeness auto
termination by (relation "measure (\<lambda>(cmp, i, j). j - i)") auto

declare search_loop.simps [simp del]

definition BinarySearchFunc :: "'a list \<Rightarrow> ('a \<Rightarrow> int) \<Rightarrow> nat \<times> bool" where
  "BinarySearchFunc xs cmp =
     (let i = search_loop (\<lambda>h. cmp (xs ! h)) 0 (length xs) in (i, i < length xs \<and> cmp (xs ! i) = 0))"

definition Country :: "prefix_entry list \<Rightarrow> string \<Rightarrow> string" where
  "Country r ip =
     (case ParseAddr ip of
        None \<Rightarrow> []
      | Some parsed \<Rightarrow>
          let a = Unmap (addr_of parsed);
              (i, found) = BinarySearchFunc r (\<lambda>entry. Addr_Compare (pf_addr (ge_prefix entry)) a);
              k = (if found then int i else int i - 1)
          in if k < 0 \<or> \<not> Prefix_Contains (ge_prefix (r ! nat k)) a then [] else ge_country (r ! nat k))"

section \<open>The search\<close>

lemma search_loop_splits:
  assumes mono: "\<And>h h'. h \<le> h' \<Longrightarrow> h' < n \<Longrightarrow> 0 \<le> cmp h \<Longrightarrow> 0 \<le> cmp h'"
  shows "i \<le> j \<Longrightarrow> j \<le> n \<Longrightarrow> (\<And>h. h < i \<Longrightarrow> cmp h < 0) \<Longrightarrow> (\<And>h. j \<le> h \<Longrightarrow> h < n \<Longrightarrow> 0 \<le> cmp h) \<Longrightarrow>
    search_loop cmp i j \<le> n \<and> (\<forall>h < search_loop cmp i j. cmp h < 0) \<and>
    (\<forall>h. search_loop cmp i j \<le> h \<longrightarrow> h < n \<longrightarrow> 0 \<le> cmp h)"
  using mono
proof (induction cmp i j rule: search_loop.induct)
  case (1 cmp i j)
  note mono = 1(7)
  show ?case
  proof (cases "i < j")
    case False
    then have "search_loop cmp i j = i" by (simp add: search_loop.simps [of cmp i j])
    then show ?thesis using False 1(3-6) by auto
  next
    case True
    define h where "h = (i + j) div 2"
    have h: "i \<le> h" "h < j" using True by (auto simp: h_def)
    show ?thesis
    proof (cases "cmp h < 0")
      case neg: True
      have "cmp g < 0" if "g < h + 1" for g
        using mono [of g h] that neg h 1(4) by (metis le_less_trans not_le less_Suc_eq_le Suc_eq_plus1 less_le_trans)
      then have "search_loop cmp (h + 1) j \<le> n \<and> (\<forall>g < search_loop cmp (h + 1) j. cmp g < 0) \<and>
          (\<forall>g. search_loop cmp (h + 1) j \<le> g \<longrightarrow> g < n \<longrightarrow> 0 \<le> cmp g)"
        using h 1(4,6) mono by (intro 1(1) [OF True h_def neg]) auto
      then show ?thesis using True neg by (simp add: search_loop.simps [of cmp i j] Let_def flip: h_def)
    next
      case pos: False
      have "0 \<le> cmp g" if "h \<le> g" "g < n" for g using mono [OF that] pos by simp
      then have "search_loop cmp i h \<le> n \<and> (\<forall>g < search_loop cmp i h. cmp g < 0) \<and>
          (\<forall>g. search_loop cmp i h \<le> g \<longrightarrow> g < n \<longrightarrow> 0 \<le> cmp g)"
        using h 1(4,5) mono by (intro 1(2) [OF True h_def pos]) auto
      then show ?thesis using True pos by (simp add: search_loop.simps [of cmp i j] Let_def flip: h_def)
    qed
  qed
qed

section \<open>Ranges\<close>

text \<open>What \<^verbatim>\<open>Load\<close> stores: a masked prefix without a zone, or the zero prefix.\<close>

definition normal_entry :: "prefix_entry \<Rightarrow> bool" where
  "normal_entry e \<longleftrightarrow> (let p = ge_prefix e; k = ad_bits (pf_addr p) - nat (pf_bits p) in
     ad_zone (pf_addr p) = [] \<and> (if pf_bits p < 0 then ad_bits (pf_addr p) = 0
       else 2 ^ k * (ad_value (pf_addr p) div 2 ^ k) = ad_value (pf_addr p)))"

lemma cidr_entries_normal: "e \<in> set (cidr_entries country cidr) \<Longrightarrow> normal_entry e"
  by (auto simp: cidr_entries_def normal_entry_def Masked_def PrefixFrom_def zero_addr_def Let_def
      split: option.splits if_splits)

lemma all_entries_normal: "e \<in> set (all_entries list) \<Longrightarrow> normal_entry e"
  by (auto simp: all_entries_def category_entries_def Let_def split: if_splits dest: cidr_entries_normal)

abbreviation base :: "prefix_entry \<Rightarrow> addr" where
  "base e \<equiv> pf_addr (ge_prefix e)"

lemma contains_from_base:
  assumes "normal_entry e" and "Prefix_Contains (ge_prefix e) a"
  shows "ad_value (base e) \<le> ad_value a" and "ad_bits (base e) = ad_bits a" and "ad_zone a = []"
proof -
  let ?k = "ad_bits a - nat (pf_bits (ge_prefix e))"
  have "ad_value (base e) = 2 ^ ?k * (ad_value a div 2 ^ ?k)"
    using assms by (auto simp: normal_entry_def Prefix_Contains_def Let_def)
  then show "ad_value (base e) \<le> ad_value a" by (metis times_div_less_eq_dividend)
  show "ad_bits (base e) = ad_bits a" "ad_zone a = []" using assms(2) by (auto simp: Prefix_Contains_def)
qed

lemma contains_own_base:
  "normal_entry e \<Longrightarrow> 0 < ad_bits (base e) \<Longrightarrow> Prefix_Contains (ge_prefix e) (base e)"
  by (auto simp: normal_entry_def Prefix_Contains_def Let_def split: if_splits)

text \<open>A range that reaches over the base of another one contains that base.\<close>

lemma contains_between:
  assumes "normal_entry e" and "normal_entry f" and "Prefix_Contains (ge_prefix e) a"
    and "ad_bits (base f) = ad_bits a" and "ad_value (base e) \<le> ad_value (base f)" and "ad_value (base f) \<le> ad_value a"
  shows "Prefix_Contains (ge_prefix e) (base f)"
proof -
  let ?k = "ad_bits a - nat (pf_bits (ge_prefix e))"
  have same: "ad_value (base e) div 2 ^ ?k = ad_value a div 2 ^ ?k"
    using assms(3) by (simp add: Prefix_Contains_def Let_def)
  have "ad_value (base e) div 2 ^ ?k \<le> ad_value (base f) div 2 ^ ?k" by (rule div_le_mono [OF assms(5)])
  moreover have "ad_value (base f) div 2 ^ ?k \<le> ad_value a div 2 ^ ?k" by (rule div_le_mono [OF assms(6)])
  ultimately have "ad_value (base e) div 2 ^ ?k = ad_value (base f) div 2 ^ ?k" using same by simp
  then show ?thesis using assms(2-4) by (auto simp: Prefix_Contains_def normal_entry_def Let_def)
qed

definition one_range_each :: "prefix_entry list \<Rightarrow> bool" where
  "one_range_each es \<longleftrightarrow> (\<forall>e \<in> set es. \<forall>f \<in> set es. \<forall>a.
     Prefix_Contains (ge_prefix e) a \<longrightarrow> Prefix_Contains (ge_prefix f) a \<longrightarrow> e = f)"

definition by_base :: "prefix_entry list \<Rightarrow> bool" where
  "by_base es \<longleftrightarrow> sorted_wrt (\<lambda>e f. Addr_Compare (base e) (base f) \<le> 0) es"

lemma compare_mono:
  assumes "Addr_Compare (base e) (base f) \<le> 0" and "0 \<le> Addr_Compare (base e) a"
    and "ad_zone (base e) = []" and "ad_zone (base f) = []"
  shows "0 \<le> Addr_Compare (base f) a"
  using assms by (auto simp: Addr_Compare_def split: if_splits)

lemma compare_neg:
  "Addr_Compare b a < 0 \<Longrightarrow> ad_bits b = ad_bits a \<Longrightarrow> ad_value b \<le> ad_value a"
  by (auto simp: Addr_Compare_def split: if_splits)

lemma compare_zero: "Addr_Compare b a = 0 \<Longrightarrow> ad_bits b = ad_bits a \<and> ad_value b = ad_value a"
  by (auto simp: Addr_Compare_def split: if_splits)

lemma contains_at: 
  "Prefix_Contains p b \<Longrightarrow> ad_bits a = ad_bits b \<Longrightarrow> ad_value a = ad_value b \<Longrightarrow> ad_zone a = [] \<Longrightarrow> Prefix_Contains p a"
  by (simp add: Prefix_Contains_def)

lemma compare_le_between:
  assumes "Addr_Compare b c \<le> 0" and "Addr_Compare c a \<le> 0" and "ad_bits b = ad_bits a"
  shows "ad_bits c = ad_bits a \<and> ad_value b \<le> ad_value c \<and> ad_value c \<le> ad_value a"
  using assms by (auto simp: Addr_Compare_def split: if_splits)

text \<open>The position the lookup inspects, and why the range that contains the address stands there.\<close>

lemma search_finds:
  assumes normal: "\<forall>e \<in> set r. normal_entry e" and sorted: "by_base r" and unique: "one_range_each r"
    and e: "e \<in> set r" and a: "Prefix_Contains (ge_prefix e) a"
    and s: "BinarySearchFunc r (\<lambda>entry. Addr_Compare (base entry) a) = (i, found)"
  shows "(if found then i < length r \<and> r ! i = e else 0 < i \<and> i - 1 < length r \<and> r ! (i - 1) = e)"
proof -
  let ?cmp = "\<lambda>h. Addr_Compare (base (r ! h)) a"
  note facts = contains_from_base [OF normal [rule_format, OF e] a]
  have le: "Addr_Compare (base (r ! h)) (base (r ! h')) \<le> 0" if "h < h'" "h' < length r" for h h'
    using sorted_wrt_nth_less [OF sorted [unfolded by_base_def] that] .
  have zone: "ad_zone (base (r ! h)) = []" if "h < length r" for h
    using normal that nth_mem by (fastforce simp: normal_entry_def Let_def)
  have mono: "0 \<le> ?cmp h'" if "h \<le> h'" "h' < length r" "0 \<le> ?cmp h" for h h'
    using that compare_mono [OF le [of h h'] that(3) zone zone] by (cases "h = h'") auto
  have i: "i = search_loop ?cmp 0 (length r)" and found: "found \<longleftrightarrow> i < length r \<and> ?cmp i = 0"
    using s by (auto simp: BinarySearchFunc_def Let_def)
  have split: "i \<le> length r" "\<And>h. h < i \<Longrightarrow> ?cmp h < 0" "\<And>h. i \<le> h \<Longrightarrow> h < length r \<Longrightarrow> 0 \<le> ?cmp h"
  proof -
    have "i \<le> length r \<and> (\<forall>h < i. ?cmp h < 0) \<and> (\<forall>h. i \<le> h \<longrightarrow> h < length r \<longrightarrow> 0 \<le> ?cmp h)"
      unfolding i by (rule search_loop_splits [where n = "length r"]) (auto intro: mono)
    then show "i \<le> length r" "\<And>h. h < i \<Longrightarrow> ?cmp h < 0" "\<And>h. i \<le> h \<Longrightarrow> h < length r \<Longrightarrow> 0 \<le> ?cmp h"
      by blast+
  qed
  obtain m where m: "m < length r" "r ! m = e" using e by (auto simp: in_set_conv_nth)
  have cm: "?cmp m \<le> 0" using facts m zone [OF m(1)] by (auto simp: Addr_Compare_def)
  show ?thesis
  proof (cases found)
    case True
    then have "i < length r" and z: "?cmp i = 0" using found by auto
    have ni: "normal_entry (r ! i)" using normal \<open>i < length r\<close> by simp
    have "0 < ad_bits (base (r ! i))" using compare_zero [OF z] a by (auto simp: Prefix_Contains_def)
    then have "Prefix_Contains (ge_prefix (r ! i)) a"
      using contains_own_base [OF ni] contains_at compare_zero [OF z] facts(3) by metis
    then have "r ! i = e" using unique e a \<open>i < length r\<close> by (auto simp: one_range_each_def)
    then show ?thesis using True \<open>i < length r\<close> by simp
  next
    case False
    have "m < i"
    proof (rule ccontr)
      assume "\<not> m < i"
      then have "i \<le> m" and "?cmp m = 0" using split(3) [of m] m(1) cm by auto
      have "?cmp i \<le> 0"
      proof (cases "i = m")
        case False
        then have "Addr_Compare (base (r ! i)) (base (r ! m)) \<le> 0" using le \<open>i \<le> m\<close> m(1) by simp
        then show ?thesis using compare_zero [OF \<open>?cmp m = 0\<close>] zone [of i] zone [of m] facts(3) m(1) \<open>i \<le> m\<close>
          by (auto simp: Addr_Compare_def split: if_splits)
      qed (use \<open>?cmp m = 0\<close> in simp)
      then have "?cmp i = 0" using split(3) [of i] \<open>i \<le> m\<close> m(1) by fastforce
      then show False using False found \<open>i \<le> m\<close> m(1) by simp
    qed
    moreover have "r ! (i - 1) = e"
    proof (cases "m = i - 1")
      case True
      then show ?thesis using m by simp
    next
      case ne: False
      let ?f = "r ! (i - 1)"
      have j: "m < i - 1" "i - 1 < length r" using ne \<open>m < i\<close> split(1) by auto
      then have nf: "normal_entry ?f" and ne: "normal_entry e" using normal e by auto
      have "?cmp (i - 1) < 0" using split(2) [of "i - 1"] \<open>m < i\<close> by simp
      then have between: "ad_bits (base ?f) = ad_bits a \<and> ad_value (base e) \<le> ad_value (base ?f) \<and> ad_value (base ?f) \<le> ad_value a"
        using compare_le_between [of "base e" "base ?f" a] le [OF j] m facts(2) by simp
      then have "Prefix_Contains (ge_prefix e) (base ?f)" using contains_between [OF ne nf a] by simp
      moreover have "Prefix_Contains (ge_prefix ?f) (base ?f)"
        using contains_own_base [OF nf] between a by (simp add: Prefix_Contains_def)
      ultimately show ?thesis using unique e j(2) nth_mem unfolding one_range_each_def by metis
    qed
    ultimately show ?thesis using False split(1) by auto
  qed
qed

lemma search_loop_le: "i \<le> j \<Longrightarrow> search_loop cmp i j \<le> j"
proof (induction cmp i j rule: search_loop.induct)
  case (1 cmp i j)
  show ?case
  proof (cases "i < j")
    case True
    then show ?thesis
      using 1(1) [OF True refl] 1(2) [OF True refl] by (fastforce simp: search_loop.simps [of cmp i j] Let_def)
  next
    case False
    then show ?thesis using 1(3) by (subst search_loop.simps) simp
  qed
qed

text \<open>
  C31. The lookup by binary search equals the linear scan of the file.  Whatever order the sort leaves
  equal base addresses in, and as long as no address is in the ranges of two different entries, the
  country of an IP is that of the first entry of the file whose range contains it (an IPv4 address
  written as IPv6 counts as the IPv4 address), and empty when there is none, the text is no address,
  or it carries a zone.
\<close>

theorem country_is_linear_scan:
  assumes "\<forall>es. mset (sort_entries es) = mset es \<and> by_base (sort_entries es)"
    and "unmarshal data = Inr list" and "one_range_each (all_entries list)"
    and "Load sort_entries (Inr data) unmarshal = Inr r"
  shows "Country r ip =
    (case ParseAddr ip of
       None \<Rightarrow> []
     | Some parsed \<Rightarrow>
         (case find (\<lambda>e. Prefix_Contains (ge_prefix e) (Unmap (addr_of parsed))) (all_entries list) of
            None \<Rightarrow> [] | Some e \<Rightarrow> ge_country e))"
proof (cases "ParseAddr ip")
  case None
  then show ?thesis by (simp add: Country_def)
next
  case (Some parsed)
  define a where "a = Unmap (addr_of parsed)"
  have r: "r = sort_entries (all_entries list)" using assms(2,4) by (simp add: Load_def)
  then have set: "set r = set (all_entries list)" and sorted: "by_base r" using assms(1) by (metis mset_eq_setD, simp)
  have normal: "\<forall>e \<in> set r. normal_entry e" using set all_entries_normal by auto
  have unique: "one_range_each r" using assms(3) set by (simp add: one_range_each_def)
  obtain i found where s: "BinarySearchFunc r (\<lambda>entry. Addr_Compare (base entry) a) = (i, found)" by fastforce
  define k where "k = (if found then int i else int i - 1)"
  have country: "Country r ip = (if k < 0 \<or> \<not> Prefix_Contains (ge_prefix (r ! nat k)) a then [] else ge_country (r ! nat k))"
    using Some s by (simp add: Country_def a_def k_def)
  show ?thesis
  proof (cases "find (\<lambda>e. Prefix_Contains (ge_prefix e) a) (all_entries list)")
    case None
    then have "\<not> Prefix_Contains (ge_prefix e) a" if "e \<in> set r" for e using that set by (auto simp: find_None_iff)
    moreover have "nat k < length r" if "\<not> k < 0"
    proof -
      have "i \<le> length r" "found \<Longrightarrow> i < length r"
        using s search_loop_le [of 0 "length r"] by (auto simp: BinarySearchFunc_def Let_def)
      then show ?thesis using that by (auto simp: k_def split: if_splits)
    qed
    ultimately show ?thesis using None Some country by (auto simp flip: a_def)
  next
    case found_e: (Some e)
    then have "e \<in> set r" "Prefix_Contains (ge_prefix e) a" using set find_SomeD by fastforce+
    then have "\<not> k < 0 \<and> r ! nat k = e"
      using search_finds [OF normal sorted unique _ _ s, of e] by (auto simp: k_def nat_diff_distrib split: if_splits)
    then show ?thesis using found_e Some country \<open>Prefix_Contains (ge_prefix e) a\<close> by (simp flip: a_def)
  qed
qed

definition insert_entry :: "prefix_entry \<Rightarrow> prefix_entry list \<Rightarrow> prefix_entry list" where
  "insert_entry e es = takeWhile (\<lambda>f. Addr_Compare (base f) (base e) < 0) es @ [e] @ dropWhile (\<lambda>f. Addr_Compare (base f) (base e) < 0) es"

definition insertion_sort :: "prefix_entry list \<Rightarrow> prefix_entry list" where
  "insertion_sort es = foldr insert_entry es []"

lemma compare_trans: "Addr_Compare a b \<le> 0 \<Longrightarrow> Addr_Compare b c \<le> 0 \<Longrightarrow> Addr_Compare a c \<le> 0"
  by (auto simp: Addr_Compare_def split: if_splits)

lemma compare_swap: "\<not> Addr_Compare a b < 0 \<Longrightarrow> Addr_Compare b a \<le> 0"
  by (auto simp: Addr_Compare_def split: if_splits)

lemma insertion_sort_sorts: "mset (insertion_sort es) = mset es \<and> by_base (insertion_sort es)"
proof (induction es)
  case Nil
  then show ?case by (simp add: insertion_sort_def by_base_def)
next
  case (Cons e es)
  let ?P = "\<lambda>f. Addr_Compare (base f) (base e) < 0" and ?s = "insertion_sort es"
  have s: "insertion_sort (e # es) = insert_entry e ?s" by (simp add: insertion_sort_def)
  have sorted: "sorted_wrt (\<lambda>e f. Addr_Compare (base e) (base f) \<le> 0) (takeWhile ?P ?s @ dropWhile ?P ?s)"
    using Cons by (simp add: by_base_def)
  have low: "Addr_Compare (base f) (base e) \<le> 0" if "f \<in> set (takeWhile ?P ?s)" for f
    using set_takeWhileD [OF that] by simp
  have high: "Addr_Compare (base e) (base f) \<le> 0" if "f \<in> set (dropWhile ?P ?s)" for f
  proof (cases "dropWhile ?P ?s")
    case (Cons g gs)
    then have "\<not> ?P g" by (metis hd_dropWhile list.distinct(1) list.sel(1))
    then have g: "Addr_Compare (base e) (base g) \<le> 0" by (rule compare_swap)
    show ?thesis
    proof (cases "f = g")
      case False
      then have "Addr_Compare (base g) (base f) \<le> 0" using sorted that Cons by (auto simp: sorted_wrt_append)
      then show ?thesis using g compare_trans by blast
    qed (use g in simp)
  next
    case Nil
    then show ?thesis using that by (simp only: Nil) simp
  qed
  have "mset (insertion_sort (e # es)) = mset (e # es)"
  proof -
    have "mset (takeWhile ?P ?s) + mset (dropWhile ?P ?s) = mset ?s" by (metis mset_append takeWhile_dropWhile_id)
    then show ?thesis using Cons by (simp add: s insert_entry_def)
  qed
  moreover have "by_base (insertion_sort (e # es))"
    using sorted low high compare_trans by (fastforce simp: s insert_entry_def by_base_def sorted_wrt_append
        simp del: takeWhile_dropWhile_id)
  ultimately show ?case by blast
qed

definition example_geo :: geo_list where
  "example_geo = [(''fr'', [([2, 0, 0, 0], 8)]), (''private'', [([10, 0, 0, 0], 8)]), (''AU'', [([1, 0, 0, 0], 8)])]"

theorem country_is_linear_scan_witness:
  "Country (projr (Load insertion_sort (Inr ()) (\<lambda>_. Inr example_geo))) ''1.2.3.4'' = ''AU''"
proof -
  have codes: "to_upper ''fr'' = ''FR''" "to_upper ''private'' = ''PRIVATE''" "to_upper ''AU'' = ''AU''"
    "isAlpha2 ''FR''" "isAlpha2 ''AU''" "\<not> isAlpha2 ''PRIVATE''" by code_simp+
  have entries: "all_entries example_geo =
      [\<lparr>ge_prefix = \<lparr>pf_addr = \<lparr>ad_bits = 32, ad_value = 2 * 2 ^ 24, ad_zone = []\<rparr>, pf_bits = 8\<rparr>, ge_country = ''FR''\<rparr>,
       \<lparr>ge_prefix = \<lparr>pf_addr = \<lparr>ad_bits = 32, ad_value = 2 ^ 24, ad_zone = []\<rparr>, pf_bits = 8\<rparr>, ge_country = ''AU''\<rparr>]"
    by (simp add: codes all_entries_def category_entries_def cidr_entries_def AddrFromSlice_def Masked_def PrefixFrom_def
        big_endian_def example_geo_def Let_def del: to_upper.simps)
  have parse: "ParseAddr ''1.2.3.4'' = Some (IP4 [1, 2, 3, 4])" by code_simp
  have unique: "one_range_each (all_entries example_geo)"
    by (auto simp: entries one_range_each_def Prefix_Contains_def)
  obtain r where r: "Load insertion_sort (Inr ()) (\<lambda>_. Inr example_geo) = Inr r" by (simp add: Load_def)
  have "(case ParseAddr ''1.2.3.4'' of None \<Rightarrow> []
     | Some parsed \<Rightarrow> (case find (\<lambda>e. Prefix_Contains (ge_prefix e) (Unmap (addr_of parsed))) (all_entries example_geo) of
            None \<Rightarrow> [] | Some e \<Rightarrow> ge_country e)) = ''AU''"
    by (simp add: parse entries Unmap_def Prefix_Contains_def big_endian_def)
  then show ?thesis
    using country_is_linear_scan [OF _ refl unique r, of "''1.2.3.4''"] insertion_sort_sorts r by auto
qed

end
