(* ===== verification/NetAddr.thy ===== *)
theory NetAddr
  imports Host
begin

text \<open>
  The parts of Go's \<^verbatim>\<open>net\<close> package that the configuration and the listener judge an address by:
  \<^verbatim>\<open>SplitHostPort\<close>, \<^verbatim>\<open>ParseIP\<close> and \<^verbatim>\<open>IP.IsLoopback\<close>.
\<close>

definition byte_index :: "char \<Rightarrow> string \<Rightarrow> nat option" where
  "byte_index c s = (if c \<in> set s then Some (length (takeWhile (\<lambda>x. x \<noteq> c) s)) else None)"

definition last_byte_index :: "char \<Rightarrow> string \<Rightarrow> nat option" where
  "last_byte_index c s =
     (if c \<in> set s then Some (length s - 1 - length (takeWhile (\<lambda>x. x \<noteq> c) (rev s))) else None)"

text \<open>The host and the port; \<^const>\<open>None\<close> is one of the errors, which the panel does not tell apart.\<close>

definition SplitHostPort :: "string \<Rightarrow> (string \<times> string) option" where
  "SplitHostPort hostport =
     (case last_byte_index (CHR '':'') hostport of
        None \<Rightarrow> None
      | Some i \<Rightarrow>
          (if hostport ! 0 = CHR ''['' then
             (case byte_index (CHR '']'') hostport of
                None \<Rightarrow> None
              | Some e \<Rightarrow>
                  if e + 1 \<noteq> i then None
                  else if CHR ''['' \<in> set (drop 1 hostport) \<or> CHR '']'' \<in> set (drop (e + 1) hostport) then None
                  else Some (take (e - 1) (drop 1 hostport), drop (i + 1) hostport))
           else
             if CHR '':'' \<in> set (take i hostport) \<or> CHR ''['' \<in> set hostport \<or> CHR '']'' \<in> set hostport then None
             else Some (take i hostport, drop (i + 1) hostport)))"

definition ParseIP :: "string \<Rightarrow> ip_addr option" where
  "ParseIP s = (case ParseAddr s of None \<Rightarrow> None | Some a \<Rightarrow> if Addr_Zone a = [] then Some a else None)"

text \<open>\<^verbatim>\<open>To4\<close> also reads an IPv4 address mapped into IPv6.\<close>

fun IsLoopback :: "ip_addr \<Rightarrow> bool" where
  "IsLoopback (IP4 bs) \<longleftrightarrow> hd bs = 127"
| "IsLoopback (IP6 gs zone) \<longleftrightarrow>
     (if take 6 gs = [0, 0, 0, 0, 0, 65535] then (gs ! 6) div 256 = 127 else gs = [0, 0, 0, 0, 0, 0, 0, 1])"

definition loopback_address :: "string \<Rightarrow> bool" where
  "loopback_address address \<longleftrightarrow>
     (case SplitHostPort address of
        None \<Rightarrow> False
      | Some (host, _) \<Rightarrow> (case ParseIP host of None \<Rightarrow> False | Some ip \<Rightarrow> IsLoopback ip))"

end
