(* ===== verification/Listener.thy ===== *)
theory Listener
  imports NetAddr GoStrings
begin

unbundle bit_operations_syntax

text \<open>
  The panel's listener, \<^verbatim>\<open>src/internal/listener/listener.go\<close>: TCP addresses, the loopback-only transport of
  the trusted proxy mode, and the Unix socket whose pathname the panel claims, publishes and gives back.

  The kernel is a state \<open>'w\<close> and a record of the system calls the code makes (\<^verbatim>\<open>golang.org/x/sys/unix\<close> and
  the \<^verbatim>\<open>net\<close> package), each answering and moving the state.  What other processes do between two calls is part
  of how the state moves, so nothing is assumed about it here; theorems that need more name what they need.
  A name is an entry of the socket's parent directory, which the code pins by a descriptor.
\<close>

section \<open>The kernel\<close>

datatype errno = ENOENT | EEXIST | EADDRINUSE | ECONNREFUSED | EINVAL | ENOSYS | EOPNOTSUPP | EPERM | EOTHER string

record unix_stat =
  us_Dev :: u64
  us_Ino :: u64
  us_Uid :: "32 word"
  us_Mode :: "32 word"

datatype net_listener = TCPListener int | UnixListener int | OtherListener int

record 'w kernel =
  k_Geteuid :: "32 word"
  k_Open :: "string \<Rightarrow> 'w \<Rightarrow> (errno + int) \<times> 'w"
  k_Openat :: "int \<Rightarrow> string \<Rightarrow> 'w \<Rightarrow> (errno + int) \<times> 'w"
  k_OpenatPath :: "int \<Rightarrow> string \<Rightarrow> 'w \<Rightarrow> (errno + int) \<times> 'w"
  k_Close :: "int \<Rightarrow> 'w \<Rightarrow> errno option \<times> 'w"
  k_Fstat :: "int \<Rightarrow> 'w \<Rightarrow> (errno + unix_stat) \<times> 'w"
  k_Fstatat :: "int \<Rightarrow> string \<Rightarrow> 'w \<Rightarrow> (errno + unix_stat) \<times> 'w"
  k_Renameat2 :: "int \<Rightarrow> string \<Rightarrow> string \<Rightarrow> 'w \<Rightarrow> errno option \<times> 'w"
  k_Unlinkat :: "int \<Rightarrow> string \<Rightarrow> 'w \<Rightarrow> errno option \<times> 'w"
  k_LinkatFd :: "int \<Rightarrow> int \<Rightarrow> string \<Rightarrow> 'w \<Rightarrow> errno option \<times> 'w"
  k_Linkat :: "int \<Rightarrow> string \<Rightarrow> string \<Rightarrow> 'w \<Rightarrow> errno option \<times> 'w"
  k_FchmodatFd :: "int \<Rightarrow> 32 word \<Rightarrow> 'w \<Rightarrow> errno option \<times> 'w"
  k_FchmodatProc :: "int \<Rightarrow> 32 word \<Rightarrow> 'w \<Rightarrow> errno option \<times> 'w"
  k_Socket :: "'w \<Rightarrow> (errno + int) \<times> 'w"
  k_Bind :: "int \<Rightarrow> int \<Rightarrow> string \<Rightarrow> 'w \<Rightarrow> errno option \<times> 'w"
  k_Listen :: "int \<Rightarrow> 'w \<Rightarrow> errno option \<times> 'w"
  k_FileListener :: "int \<Rightarrow> 'w \<Rightarrow> (errno + net_listener) \<times> 'w"
  k_CloseListener :: "net_listener \<Rightarrow> 'w \<Rightarrow> errno option \<times> 'w"
  k_Dial :: "int \<Rightarrow> string \<Rightarrow> 'w \<Rightarrow> errno option \<times> 'w"
  k_Random :: "'w \<Rightarrow> (errno + nat list) \<times> 'w"
  k_ListenTCP :: "string \<Rightarrow> 'w \<Rightarrow> (errno + net_listener) \<times> 'w"

section \<open>Identities and paths\<close>

record file_identity =
  fi_dev :: u64
  fi_ino :: u64
  fi_uid :: "32 word"

record socket_path =
  so_path :: string
  so_name :: string
  so_parentFD :: int
  so_identity :: file_identity

definition identityFromUnixStat :: "unix_stat \<Rightarrow> file_identity" where
  "identityFromUnixStat st = \<lparr>fi_dev = us_Dev st, fi_ino = us_Ino st, fi_uid = us_Uid st\<rparr>"

definition isSocket :: "unix_stat \<Rightarrow> bool" where
  "isSocket st \<longleftrightarrow> us_Mode st AND 0xF000 = 0xC000"

definition isSymlink :: "unix_stat \<Rightarrow> bool" where
  "isSymlink st \<longleftrightarrow> us_Mode st AND 0xF000 = 0xA000"

definition isDirectory :: "unix_stat \<Rightarrow> bool" where
  "isDirectory st \<longleftrightarrow> us_Mode st AND 0xF000 = 0x4000"

text \<open>An error of the code's own, one that wraps a system error, and one that wraps others.\<close>

datatype listen_error = Refused string | Failed string errno | Within string "listen_error list"

definition isEmptyPathUnsupported :: "errno option \<Rightarrow> bool" where
  "isEmptyPathUnsupported err \<longleftrightarrow> err \<in> {Some EINVAL, Some ENOSYS, Some EOPNOTSUPP, Some EPERM}"

definition isStaleSocketError :: "errno \<Rightarrow> bool" where
  "isStaleSocketError err \<longleftrightarrow> err = ECONNREFUSED \<or> err = ENOENT"

text \<open>\<^verbatim>\<open>filepath.Base\<close> and \<^verbatim>\<open>filepath.Dir\<close> of an absolute path: the elements, cleaned of dots.\<close>

fun clean_elements :: "string list \<Rightarrow> string list \<Rightarrow> string list" where
  "clean_elements acc [] = rev acc"
| "clean_elements acc (e # es) =
     (if e = [] \<or> e = ''.'' then clean_elements acc es
      else if e = ''..'' then clean_elements (drop 1 acc) es
      else clean_elements (e # acc) es)"

definition path_Base :: "string \<Rightarrow> string" where
  "path_Base path =
     (let trimmed = rev (dropWhile (\<lambda>c. c = CHR ''/'') (rev path)) in
      if trimmed = [] then ''/'' else last (split_byte (CHR ''/'') trimmed))"

definition path_Dir :: "string \<Rightarrow> string" where
  "path_Dir path = ''/'' @ join ''/'' (clean_elements [] (butlast (split_byte (CHR ''/'') path)))"

section \<open>The parent directory\<close>

fun open_components :: "'w kernel \<Rightarrow> int \<Rightarrow> string list \<Rightarrow> 'w \<Rightarrow> (listen_error + int) \<times> 'w" where
  "open_components K directory [] w = (Inr directory, w)"
| "open_components K directory (c # cs) w =
     (if c = [] \<or> c = ''.'' then open_components K directory cs w
      else case k_Openat K directory c w of
        (Inl err, w1) \<Rightarrow> (Inl (Failed ''inspect Unix socket directory'' err), snd (k_Close K directory w1))
      | (Inr nxt, w1) \<Rightarrow>
          (case k_Close K directory w1 of
             (Some err, w2) \<Rightarrow> (Inl (Failed ''close Unix socket directory'' err), snd (k_Close K nxt w2))
           | (None, w2) \<Rightarrow> open_components K nxt cs w2))"

text \<open>The last directory must be the panel's own and not writable by group or world (octal 022).\<close>

definition check_directory :: "'w kernel \<Rightarrow> int \<Rightarrow> 'w \<Rightarrow> (listen_error + int) \<times> 'w" where
  "check_directory K directory w =
     (case k_Fstat K directory w of
        (Inl err, w1) \<Rightarrow> (Inl (Failed ''inspect Unix socket directory'' err), snd (k_Close K directory w1))
      | (Inr st, w1) \<Rightarrow>
          if \<not> isDirectory st
          then (Inl (Refused ''Unix socket parent is not a directory''), snd (k_Close K directory w1))
          else if us_Uid st \<noteq> k_Geteuid K
          then (Inl (Refused ''Unix socket parent must be owned by the Panel user''), snd (k_Close K directory w1))
          else if us_Mode st AND 18 \<noteq> 0
          then (Inl (Refused ''Unix socket parent must not be group- or world-writable''), snd (k_Close K directory w1))
          else (Inr directory, w1))"

definition openParentDirectory :: "'w kernel \<Rightarrow> string \<Rightarrow> 'w \<Rightarrow> (listen_error + int) \<times> 'w" where
  "openParentDirectory K path w =
     (case k_Open K ''/'' w of
        (Inl err, w1) \<Rightarrow> (Inl (Failed ''open Unix socket root'' err), w1)
      | (Inr root, w1) \<Rightarrow>
          (case open_components K root (split_byte (CHR ''/'') (drop 1 (path_Dir path))) w1 of
             (Inl err, w2) \<Rightarrow> (Inl err, w2)
           | (Inr directory, w2) \<Rightarrow> check_directory K directory w2))"

definition no_identity :: file_identity where
  "no_identity = \<lparr>fi_dev = 0, fi_ino = 0, fi_uid = 0\<rparr>"

definition newSocketPath :: "'w kernel \<Rightarrow> string \<Rightarrow> 'w \<Rightarrow> (listen_error + socket_path) \<times> 'w" where
  "newSocketPath K path w =
     (case openParentDirectory K path w of
        (Inl err, w1) \<Rightarrow> (Inl err, w1)
      | (Inr fd, w1) \<Rightarrow>
          (Inr \<lparr>so_path = path, so_name = path_Base path, so_parentFD = fd, so_identity = no_identity\<rparr>, w1))"

section \<open>One directory entry\<close>

text \<open>\<^verbatim>\<open>lstat\<close> tells an absent entry from a failure.\<close>

datatype lstat_result = Absent | LstatFailed errno | Entry unix_stat

definition socket_lstat :: "'w kernel \<Rightarrow> socket_path \<Rightarrow> string \<Rightarrow> 'w \<Rightarrow> lstat_result \<times> 'w" where
  "socket_lstat K so name w =
     (case k_Fstatat K (so_parentFD so) name w of
        (Inl err, w1) \<Rightarrow> (if err = ENOENT then Absent else LstatFailed err, w1)
      | (Inr st, w1) \<Rightarrow> (Entry st, w1))"

definition socket_isAlive :: "'w kernel \<Rightarrow> socket_path \<Rightarrow> string \<Rightarrow> 'w \<Rightarrow> (errno + bool) \<times> 'w" where
  "socket_isAlive K so name w =
     (case k_Dial K (so_parentFD so) name w of
        (None, w1) \<Rightarrow> (Inr True, w1)
      | (Some err, w1) \<Rightarrow> (if isStaleSocketError err then Inr False else Inl err, w1))"

definition hex_pair :: "nat \<Rightarrow> string" where
  "hex_pair b = [lower_hex_digit (b div 16), lower_hex_digit (b mod 16)]"

definition temporaryName :: "'w kernel \<Rightarrow> 'w \<Rightarrow> (listen_error + string) \<times> 'w" where
  "temporaryName K w =
     (case k_Random K w of
        (Inl err, w1) \<Rightarrow> (Inl (Failed ''generate temporary Unix socket pathname'' err), w1)
      | (Inr suffix, w1) \<Rightarrow> (Inr (''.xform-'' @ concat (map hex_pair suffix)), w1))"

definition socket_restorePath :: "'w kernel \<Rightarrow> socket_path \<Rightarrow> string \<Rightarrow> 'w \<Rightarrow> errno option \<times> 'w" where
  "socket_restorePath K so temporary w = k_Renameat2 K (so_parentFD so) temporary (so_name so) w"

definition socket_restoreChangedPath :: "'w kernel \<Rightarrow> socket_path \<Rightarrow> string \<Rightarrow> 'w \<Rightarrow> listen_error option \<times> 'w" where
  "socket_restoreChangedPath K so temporary w =
     (case socket_restorePath K so temporary w of
        (Some err, w1) \<Rightarrow> (Some (Failed ''restore changed Unix socket path'' err), w1)
      | (None, w1) \<Rightarrow> (None, w1))"

datatype move_result = Moved string | NothingThere | MoveFailed listen_error

definition no_name_left :: listen_error where
  "no_name_left = Refused ''could not reserve a temporary Unix socket pathname''"

fun move_attempts :: "'w kernel \<Rightarrow> socket_path \<Rightarrow> nat \<Rightarrow> 'w \<Rightarrow> move_result \<times> 'w" where
  "move_attempts K so 0 w = (MoveFailed no_name_left, w)"
| "move_attempts K so (Suc n) w =
     (case temporaryName K w of
        (Inl err, w1) \<Rightarrow> (MoveFailed err, w1)
      | (Inr temporary, w1) \<Rightarrow>
          (case k_Renameat2 K (so_parentFD so) (so_name so) temporary w1 of
             (None, w2) \<Rightarrow> (Moved temporary, w2)
           | (Some err, w2) \<Rightarrow>
               if err = EEXIST then move_attempts K so n w2
               else if err = ENOENT then (NothingThere, w2)
               else (MoveFailed (Failed [] err), w2)))"

definition renameAttempts :: nat where
  "renameAttempts = 8"

definition movePathAside :: "'w kernel \<Rightarrow> socket_path \<Rightarrow> 'w \<Rightarrow> move_result \<times> 'w" where
  "movePathAside K so w = move_attempts K so renameAttempts w"

text \<open>\<^verbatim>\<open>detach\<close>: the entry under its temporary name, another object put back, or nothing there.\<close>

datatype detach_result = Detached string | Foreign | NotPresent | DetachFailed "listen_error list"

definition socket_detach :: "'w kernel \<Rightarrow> socket_path \<Rightarrow> 'w \<Rightarrow> detach_result \<times> 'w" where
  "socket_detach K so w =
     (case movePathAside K so w of
        (NothingThere, w1) \<Rightarrow> (NotPresent, w1)
      | (MoveFailed err, w1) \<Rightarrow> (DetachFailed [err], w1)
      | (Moved temporary, w1) \<Rightarrow>
          (case socket_lstat K so temporary w1 of
             (Entry st, w2) \<Rightarrow>
               if isSocket st \<and> identityFromUnixStat st = so_identity so then (Detached temporary, w2)
               else (case socket_restoreChangedPath K so temporary w2 of
                       (None, w3) \<Rightarrow> (Foreign, w3)
                     | (Some err, w3) \<Rightarrow> (DetachFailed [err], w3))
           | (bad, w2) \<Rightarrow>
               (case socket_restorePath K so temporary w2 of
                  (None, w3) \<Rightarrow> (DetachFailed [Failed ''lstat'' (case bad of LstatFailed e \<Rightarrow> e | _ \<Rightarrow> ENOENT)], w3)
                | (Some err, w3) \<Rightarrow>
                    (DetachFailed [Failed ''lstat'' (case bad of LstatFailed e \<Rightarrow> e | _ \<Rightarrow> ENOENT), Failed [] err], w3))))"

definition socket_unlinkDetached ::
  "'w kernel \<Rightarrow> socket_path \<Rightarrow> string \<Rightarrow> file_identity \<Rightarrow> 'w \<Rightarrow> listen_error option \<times> 'w" where
  "socket_unlinkDetached K so name expected w =
     (case socket_lstat K so name w of
        (Absent, w1) \<Rightarrow> (None, w1)
      | (LstatFailed err, w1) \<Rightarrow> (Some (Failed ''inspect detached Unix socket'' err), w1)
      | (Entry st, w1) \<Rightarrow>
          if \<not> isSocket st \<or> identityFromUnixStat st \<noteq> expected then (None, w1)
          else (case k_Unlinkat K (so_parentFD so) name w1 of
                  (None, w2) \<Rightarrow> (None, w2)
                | (Some err, w2) \<Rightarrow> (if err = ENOENT then None else Some (Failed ''remove Unix socket'' err), w2)))"

definition socket_cleanup :: "'w kernel \<Rightarrow> socket_path \<Rightarrow> 'w \<Rightarrow> listen_error list \<times> 'w" where
  "socket_cleanup K so w =
     (case socket_detach K so w of
        (DetachFailed errs, w1) \<Rightarrow> (errs, w1)
      | (Detached temporary, w1) \<Rightarrow>
          (case socket_unlinkDetached K so temporary (so_identity so) w1 of
             (None, w2) \<Rightarrow> ([], w2) | (Some err, w2) \<Rightarrow> ([err], w2))
      | (_, w1) \<Rightarrow> ([], w1))"

definition socket_removeStale :: "'w kernel \<Rightarrow> socket_path \<Rightarrow> 'w \<Rightarrow> listen_error list \<times> 'w" where
  "socket_removeStale K so w =
     (case socket_detach K so w of
        (DetachFailed errs, w1) \<Rightarrow> ([Within ''inspect Unix socket replacement'' errs], w1)
      | (NotPresent, w1) \<Rightarrow> ([], w1)
      | (Foreign, w1) \<Rightarrow> ([Refused ''Unix socket changed while it was being checked''], w1)
      | (Detached temporary, w1) \<Rightarrow>
          (case socket_isAlive K so temporary w1 of
             (Inl err, w2) \<Rightarrow>
               ([Failed ''probe detached Unix socket'' err], snd (socket_restorePath K so temporary w2))
           | (Inr True, w2) \<Rightarrow>
               ([Refused ''Unix socket is already in use''], snd (socket_restorePath K so temporary w2))
           | (Inr False, w2) \<Rightarrow>
               (case socket_unlinkDetached K so temporary (so_identity so) w2 of
                  (None, w3) \<Rightarrow> ([], w3) | (Some err, w3) \<Rightarrow> ([err], w3))))"

definition prepareSocketPath :: "'w kernel \<Rightarrow> socket_path \<Rightarrow> 'w \<Rightarrow> listen_error list \<times> 'w" where
  "prepareSocketPath K so w =
     (case socket_lstat K so (so_name so) w of
        (Absent, w1) \<Rightarrow> ([], w1)
      | (LstatFailed err, w1) \<Rightarrow> ([Failed ''inspect Unix socket path'' err], w1)
      | (Entry info, w1) \<Rightarrow>
          if isSymlink info then ([Refused ''Unix socket path is a symlink''], w1)
          else if \<not> isSocket info then ([Refused ''Unix socket path is not a socket''], w1)
          else if us_Uid info \<noteq> k_Geteuid K then ([Refused ''Unix socket is owned by another user''], w1)
          else (case socket_isAlive K so (so_name so) w1 of
                  (Inl err, w2) \<Rightarrow> ([Failed ''probe existing Unix socket'' err], w2)
                | (Inr True, w2) \<Rightarrow> ([Refused ''Unix socket is already in use''], w2)
                | (Inr False, w2) \<Rightarrow> socket_removeStale K (so\<lparr>so_identity := identityFromUnixStat info\<rparr>) w2))"

section \<open>Binding\<close>

definition unixSocketMode :: "32 word" where
  "unixSocketMode = 432"  \<comment> \<open>octal 660\<close>

definition socket_openIdentity ::
  "'w kernel \<Rightarrow> socket_path \<Rightarrow> string \<Rightarrow> 'w \<Rightarrow> (listen_error + int \<times> file_identity) \<times> 'w" where
  "socket_openIdentity K so name w =
     (case k_OpenatPath K (so_parentFD so) name w of
        (Inl err, w1) \<Rightarrow> (Inl (Failed ''identify Unix socket'' err), w1)
      | (Inr fd, w1) \<Rightarrow>
          (case k_Fstat K fd w1 of
             (Inl err, w2) \<Rightarrow> (Inl (Failed ''identify Unix socket'' err), snd (k_Close K fd w2))
           | (Inr st, w2) \<Rightarrow>
               if \<not> isSocket st
               then (Inl (Refused ''new Unix listener has no socket pathname''), snd (k_Close K fd w2))
               else if us_Uid st \<noteq> k_Geteuid K
               then (Inl (Refused ''new Unix socket is not owned by the Panel user''), snd (k_Close K fd w2))
               else (Inr (fd, identityFromUnixStat st), w2)))"

definition chmodSocket :: "'w kernel \<Rightarrow> int \<Rightarrow> file_identity \<Rightarrow> 'w \<Rightarrow> listen_error option \<times> 'w" where
  "chmodSocket K fd expected w =
     (case k_Fstat K fd w of
        (Inl err, w1) \<Rightarrow> (Some (Failed [] err), w1)
      | (Inr st, w1) \<Rightarrow>
          if \<not> isSocket st \<or> identityFromUnixStat st \<noteq> expected
          then (Some (Refused ''Unix socket path changed while setting permissions''), w1)
          else
            let (first, w2) = k_FchmodatFd K fd unixSocketMode w1;
                (final, w3) = (if isEmptyPathUnsupported first then k_FchmodatProc K fd unixSocketMode w2 else (first, w2))
            in (map_option (Failed []) final, w3))"

definition link_socket :: "'w kernel \<Rightarrow> socket_path \<Rightarrow> int \<Rightarrow> string \<Rightarrow> 'w \<Rightarrow> errno option \<times> 'w" where
  "link_socket K so pathFD temporary w =
     (let (first, w1) = k_LinkatFd K pathFD (so_parentFD so) (so_name so) w in
      if isEmptyPathUnsupported first then k_Linkat K (so_parentFD so) temporary (so_name so) w1 else (first, w1))"

text \<open>The failures behind the temporary name: both descriptors closed, the temporary entry removed.\<close>

definition abandon_temporary ::
  "'w kernel \<Rightarrow> socket_path \<Rightarrow> int \<Rightarrow> int \<Rightarrow> string \<Rightarrow> file_identity \<Rightarrow> 'w \<Rightarrow> 'w" where
  "abandon_temporary K so pathFD fd temporary identity w =
     snd (socket_unlinkDetached K so temporary identity (snd (k_Close K fd (snd (k_Close K pathFD w)))))"

text \<open>From the published name to the listener object.\<close>

definition finish_bind ::
  "'w kernel \<Rightarrow> socket_path \<Rightarrow> int \<Rightarrow> 'w \<Rightarrow> (listen_error + net_listener) \<times> socket_path \<times> 'w" where
  "finish_bind K so fd w =
     (let (made, w1) = k_FileListener K fd w; (closed, w2) = k_Close K fd w1 in
      case made of
        Inl err \<Rightarrow> (Inl (Failed [] err), so, snd (socket_cleanup K so w2))
      | Inr l \<Rightarrow>
          (case closed of
             Some err \<Rightarrow> (Inl (Failed [] err), so, snd (socket_cleanup K so (snd (k_CloseListener K l w2))))
           | None \<Rightarrow>
               (case l of
                  UnixListener h \<Rightarrow> (Inr l, so, w2)
                | _ \<Rightarrow> (Inl (Refused ''Unix socket did not produce a Unix listener''), so,
                       snd (socket_cleanup K so (snd (k_CloseListener K l w2)))))))"

text \<open>Behind a bound temporary name: identify, listen, set the mode, publish, drop the temporary name.\<close>

definition publish ::
  "'w kernel \<Rightarrow> socket_path \<Rightarrow> int \<Rightarrow> string \<Rightarrow> 'w \<Rightarrow> (listen_error + net_listener) \<times> socket_path \<times> 'w" where
  "publish K so fd temporary w =
     (case socket_openIdentity K so temporary w of
        (Inl err, w1) \<Rightarrow> (Inl err, so, snd (k_Close K fd w1))
      | (Inr (pathFD, identity), w1) \<Rightarrow>
          (case k_Listen K fd w1 of
             (Some err, w2) \<Rightarrow> (Inl (Failed [] err), so, abandon_temporary K so pathFD fd temporary identity w2)
           | (None, w2) \<Rightarrow>
               (case chmodSocket K pathFD identity w2 of
                  (Some err, w3) \<Rightarrow> (Inl err, so, abandon_temporary K so pathFD fd temporary identity w3)
                | (None, w3) \<Rightarrow>
                    (case link_socket K so pathFD temporary w3 of
                       (Some err, w4) \<Rightarrow> (Inl (Failed [] err), so, abandon_temporary K so pathFD fd temporary identity w4)
                     | (None, w4) \<Rightarrow>
                         let so' = so\<lparr>so_identity := identity\<rparr> in
                         (case socket_unlinkDetached K so' temporary identity w4 of
                            (Some err, w5) \<Rightarrow>
                              (Inl err, so', snd (socket_cleanup K so' (snd (k_Close K fd (snd (k_Close K pathFD w5))))))
                          | (None, w5) \<Rightarrow>
                              (case k_Close K pathFD w5 of
                                 (Some err, w6) \<Rightarrow>
                                   (Inl (Failed [] err), so', snd (socket_cleanup K so' (snd (k_Close K fd w6))))
                               | (None, w6) \<Rightarrow> finish_bind K so' fd w6))))))"

fun bind_attempts ::
  "'w kernel \<Rightarrow> socket_path \<Rightarrow> nat \<Rightarrow> 'w \<Rightarrow> (listen_error + net_listener) \<times> socket_path \<times> 'w" where
  "bind_attempts K so 0 w = (Inl no_name_left, so, w)"
| "bind_attempts K so (Suc n) w =
     (case temporaryName K w of
        (Inl err, w1) \<Rightarrow> (Inl err, so, w1)
      | (Inr temporary, w1) \<Rightarrow>
          (case k_Socket K w1 of
             (Inl err, w2) \<Rightarrow> (Inl (Failed [] err), so, w2)
           | (Inr fd, w2) \<Rightarrow>
               (case k_Bind K fd (so_parentFD so) temporary w2 of
                  (None, w3) \<Rightarrow> publish K so fd temporary w3
                | (Some err, w3) \<Rightarrow>
                    let w4 = snd (k_Close K fd w3) in
                    if err = EADDRINUSE then bind_attempts K so n w4 else (Inl (Failed [] err), so, w4))))"

definition socket_bind :: "'w kernel \<Rightarrow> socket_path \<Rightarrow> 'w \<Rightarrow> (listen_error + net_listener) \<times> socket_path \<times> 'w" where
  "socket_bind K so w = bind_attempts K so renameAttempts w"

definition socket_close :: "'w kernel \<Rightarrow> socket_path \<Rightarrow> 'w \<Rightarrow> errno option \<times> socket_path \<times> 'w" where
  "socket_close K so w =
     (if so_parentFD so < 0 then (None, so, w)
      else case k_Close K (so_parentFD so) w of (err, w1) \<Rightarrow> (err, so\<lparr>so_parentFD := -1\<rparr>, w1))"

section \<open>Listening\<close>

record owned_listener =
  ol_listener :: net_listener
  ol_socket :: socket_path
  ol_closed :: "listen_error list option"  \<comment> \<open>what the one run of \<^verbatim>\<open>Close\<close> joined, once it ran\<close>

datatype panel_listener = Plain net_listener | LoopbackTCP net_listener | OwnedUnix owned_listener

abbreviation close_parent :: "'w kernel \<Rightarrow> socket_path \<Rightarrow> 'w \<Rightarrow> 'w" where
  "close_parent K so w \<equiv> snd (snd (socket_close K so w))"

definition listenUnix :: "'w kernel \<Rightarrow> string \<Rightarrow> 'w \<Rightarrow> (listen_error list + panel_listener) \<times> 'w" where
  "listenUnix K path w =
     (case newSocketPath K path w of
        (Inl err, w1) \<Rightarrow> (Inl [err], w1)
      | (Inr so, w1) \<Rightarrow>
          (case prepareSocketPath K so w1 of
             (err # errs, w2) \<Rightarrow> (Inl (err # errs), close_parent K so w2)
           | ([], w2) \<Rightarrow>
               (case socket_bind K so w2 of
                  (Inl err, so', w3) \<Rightarrow> (Inl [Within ''bind Unix socket'' [err]], close_parent K so' w3)
                | (Inr l, so', w3) \<Rightarrow>
                    if fi_uid (so_identity so') \<noteq> k_Geteuid K
                    then (Inl [Refused ''new Unix socket is not owned by the Panel user''],
                          close_parent K so' (snd (socket_cleanup K so' (snd (k_CloseListener K l w3)))))
                    else (Inr (OwnedUnix \<lparr>ol_listener = l, ol_socket = so', ol_closed = None\<rparr>), w3))))"

definition Listen :: "'w kernel \<Rightarrow> string \<Rightarrow> 'w \<Rightarrow> (listen_error list + panel_listener) \<times> 'w" where
  "Listen K address w =
     (if \<not> has_prefix address ''unix:'' then
        (case k_ListenTCP K address w of
           (Inl err, w1) \<Rightarrow> (Inl [Failed [] err], w1) | (Inr l, w1) \<Rightarrow> (Inr (Plain l), w1))
      else
        let path = drop 5 address in
        if path = [] \<or> \<not> has_prefix path ''/'' then (Inl [Refused ''Unix socket path must be absolute''], w)
        else if has_suffix path ''/'' then (Inl [Refused ''Unix socket path must not end with a slash''], w)
        else listenUnix K path w)"

definition only_loopback :: listen_error where
  "only_loopback = Refused ''trusted proxy TCP listener must use a loopback IP address''"

definition ListenTrusted :: "'w kernel \<Rightarrow> string \<Rightarrow> 'w \<Rightarrow> (listen_error list + panel_listener) \<times> 'w" where
  "ListenTrusted K address w =
     (if has_prefix address ''unix:'' then Listen K address w
      else case SplitHostPort address of
        None \<Rightarrow> (Inl [only_loopback], w)
      | Some (host, _) \<Rightarrow>
          (case ParseIP host of
             None \<Rightarrow> (Inl [only_loopback], w)
           | Some ip \<Rightarrow>
               if \<not> IsLoopback ip then (Inl [only_loopback], w)
               else (case k_ListenTCP K address w of
                       (Inl err, w1) \<Rightarrow> (Inl [Failed [] err], w1)
                     | (Inr (TCPListener h), w1) \<Rightarrow> (Inr (LoopbackTCP (TCPListener h)), w1)
                     | (Inr l, w1) \<Rightarrow> (Inl [Refused ''trusted proxy listener is not TCP''], snd (k_CloseListener K l w1)))))"

text \<open>
  The accept loop of the loopback listener over what the kernel hands out: a failure, or a connection with its
  remote IP (\<^const>\<open>None\<close> when it is no TCP address).  The result is the answer and the connections closed on the
  way; \<^const>\<open>None\<close> means it is still waiting.
\<close>

fun loopback_Accept :: "(errno + int \<times> ip_addr option) list \<Rightarrow> int list \<Rightarrow> ((errno + int) \<times> int list) option" where
  "loopback_Accept [] closed = None"
| "loopback_Accept (Inl err # rest) closed = Some (Inl err, closed)"
| "loopback_Accept (Inr (conn, remote) # rest) closed =
     (if (case remote of None \<Rightarrow> False | Some ip \<Rightarrow> IsLoopback ip) then Some (Inr conn, closed)
      else loopback_Accept rest (closed @ [conn]))"

definition listener_Addr :: "owned_listener \<Rightarrow> string" where
  "listener_Addr l = so_path (ol_socket l)"

definition listener_Close :: "'w kernel \<Rightarrow> owned_listener \<Rightarrow> 'w \<Rightarrow> listen_error list \<times> owned_listener \<times> 'w" where
  "listener_Close K l w =
     (case ol_closed l of
        Some errs \<Rightarrow> (errs, l, w)
      | None \<Rightarrow>
          let (closeErr, w1) = k_CloseListener K (ol_listener l) w;
              (cleanupErr, w2) = socket_cleanup K (ol_socket l) w1;
              (parentErr, so, w3) = socket_close K (ol_socket l) w2;
              errs = (case closeErr of None \<Rightarrow> [] | Some e \<Rightarrow> [Failed [] e]) @ cleanupErr @
                     (case parentErr of None \<Rightarrow> [] | Some e \<Rightarrow> [Failed [] e])
          in (errs, l\<lparr>ol_socket := so, ol_closed := Some errs\<rparr>, w3))"

section \<open>A directory of the panel's own\<close>

text \<open>
  What the code relies on once the parent directory belongs to the panel alone: \<open>dir\<close> gives the entries of the
  pinned directory, only the panel's own calls change them, and the calls do what their manual pages say.  A
  rename without replacement needs an absent target, an absent source or name answers \<^verbatim>\<open>ENOENT\<close>, a failing call
  changes no entry, and a connection is refused as stale only when nobody listens on the socket.
\<close>

definition stat_law :: "'w kernel \<Rightarrow> int \<Rightarrow> ('w \<Rightarrow> string \<Rightarrow> unix_stat option) \<Rightarrow> bool" where
  "stat_law K fd dir \<longleftrightarrow> (\<forall>name w. dir (snd (k_Fstatat K fd name w)) = dir w \<and>
     (case fst (k_Fstatat K fd name w) of
        Inr st \<Rightarrow> dir w name = Some st
      | Inl err \<Rightarrow> (if err = ENOENT then dir w name = None else True)))"

definition rename_law :: "'w kernel \<Rightarrow> int \<Rightarrow> ('w \<Rightarrow> string \<Rightarrow> unix_stat option) \<Rightarrow> bool" where
  "rename_law K fd dir \<longleftrightarrow> (\<forall>a b w.
     (case fst (k_Renameat2 K fd a b w) of
        None \<Rightarrow> dir w a \<noteq> None \<and> dir w b = None \<and> dir (snd (k_Renameat2 K fd a b w)) = (dir w)(a := None, b := dir w a)
      | Some err \<Rightarrow> dir (snd (k_Renameat2 K fd a b w)) = dir w \<and> (if err = ENOENT then dir w a = None else True)))"

definition unlink_law :: "'w kernel \<Rightarrow> int \<Rightarrow> ('w \<Rightarrow> string \<Rightarrow> unix_stat option) \<Rightarrow> bool" where
  "unlink_law K fd dir \<longleftrightarrow> (\<forall>a w.
     (case fst (k_Unlinkat K fd a w) of
        None \<Rightarrow> dir (snd (k_Unlinkat K fd a w)) = (dir w)(a := None)
      | Some err \<Rightarrow> dir (snd (k_Unlinkat K fd a w)) = dir w \<and> (if err = ENOENT then dir w a = None else True)))"

definition dial_law :: "'w kernel \<Rightarrow> int \<Rightarrow> ('w \<Rightarrow> string \<Rightarrow> unix_stat option) \<Rightarrow> file_identity set \<Rightarrow> bool" where
  "dial_law K fd dir listening \<longleftrightarrow> (\<forall>name w. dir (snd (k_Dial K fd name w)) = dir w \<and>
     (case fst (k_Dial K fd name w) of
        None \<Rightarrow> True
      | Some err \<Rightarrow> (case dir w name of None \<Rightarrow> True
          | Some st \<Rightarrow> (if isStaleSocketError err then identityFromUnixStat st \<notin> listening else True))))"

definition random_law :: "'w kernel \<Rightarrow> ('w \<Rightarrow> string \<Rightarrow> unix_stat option) \<Rightarrow> bool" where
  "random_law K dir \<longleftrightarrow> (\<forall>w. dir (snd (k_Random K w)) = dir w)"

text \<open>What each call answers and leaves, for the operations to build on.\<close>

lemma lstat_cases:
  assumes "stat_law K (so_parentFD so) dir" and "socket_lstat K so name w = (r, w')"
  shows "dir w' = dir w \<and> (case r of Entry st \<Rightarrow> dir w name = Some st | Absent \<Rightarrow> dir w name = None | LstatFailed _ \<Rightarrow> True)"
proof -
  let ?c = "k_Fstatat K (so_parentFD so) name w"
  have law: "dir (snd ?c) = dir w \<and> (case fst ?c of Inr st \<Rightarrow> dir w name = Some st
      | Inl err \<Rightarrow> (if err = ENOENT then dir w name = None else True))"
    using assms(1) by (simp add: stat_law_def)
  show ?thesis using law assms(2) by (cases ?c; cases "fst ?c") (auto simp: socket_lstat_def split: if_splits)
qed

lemma rename_cases:
  assumes "rename_law K fd dir" and "k_Renameat2 K fd a b w = (r, w')"
  shows "(case r of
      None \<Rightarrow> dir w a \<noteq> None \<and> dir w b = None \<and> dir w' = (dir w)(a := None, b := dir w a)
    | Some err \<Rightarrow> dir w' = dir w \<and> (if err = ENOENT then dir w a = None else True))"
proof -
  have "case fst (k_Renameat2 K fd a b w) of
      None \<Rightarrow> dir w a \<noteq> None \<and> dir w b = None \<and> dir (snd (k_Renameat2 K fd a b w)) = (dir w)(a := None, b := dir w a)
    | Some err \<Rightarrow> dir (snd (k_Renameat2 K fd a b w)) = dir w \<and> (if err = ENOENT then dir w a = None else True)"
    using assms(1) unfolding rename_law_def by blast
  then show ?thesis unfolding assms(2) fst_conv snd_conv .
qed

lemma unlink_cases:
  assumes "unlink_law K fd dir" and "k_Unlinkat K fd a w = (r, w')"
  shows "(case r of
      None \<Rightarrow> dir w' = (dir w)(a := None)
    | Some err \<Rightarrow> dir w' = dir w \<and> (if err = ENOENT then dir w a = None else True))"
proof -
  have "case fst (k_Unlinkat K fd a w) of
      None \<Rightarrow> dir (snd (k_Unlinkat K fd a w)) = (dir w)(a := None)
    | Some err \<Rightarrow> dir (snd (k_Unlinkat K fd a w)) = dir w \<and> (if err = ENOENT then dir w a = None else True)"
    using assms(1) unfolding unlink_law_def by blast
  then show ?thesis unfolding assms(2) fst_conv snd_conv .
qed

lemma temporaryName_dir:
  assumes "random_law K dir" and "temporaryName K w = (r, w')"
  shows "dir w' = dir w"
  using assms(1) [unfolded random_law_def, rule_format, of w] assms(2)
  by (auto simp: temporaryName_def split: prod.splits sum.splits)

lemma isAlive_cases:
  assumes "dial_law K (so_parentFD so) dir listening" and "socket_isAlive K so name w = (r, w')"
  shows "dir w' = dir w \<and> (if r = Inr False then (case dir w name of None \<Rightarrow> True
      | Some st \<Rightarrow> identityFromUnixStat st \<notin> listening) else True)"
  using assms(1) [unfolded dial_law_def, rule_format, of name w] assms(2)
  by (auto simp: socket_isAlive_def split: prod.splits option.splits if_splits)

lemma move_cases:
  assumes "rename_law K (so_parentFD so) dir" and "random_law K dir"
  shows "move_attempts K so n w = (r, w') \<Longrightarrow>
    (case r of
       Moved t \<Rightarrow> dir w (so_name so) \<noteq> None \<and> dir w t = None \<and> dir w' = (dir w)(so_name so := None, t := dir w (so_name so))
     | NothingThere \<Rightarrow> dir w' = dir w \<and> dir w (so_name so) = None
     | MoveFailed _ \<Rightarrow> dir w' = dir w)"
proof (induction n arbitrary: w)
  case 0
  then show ?case by auto
next
  case (Suc n)
  obtain t w1 where t: "temporaryName K w = (t, w1)" by fastforce
  note d1 = temporaryName_dir [OF assms(2) t]
  show ?case
  proof (cases t)
    case (Inl err)
    then show ?thesis using Suc.prems t d1 by auto
  next
    case (Inr name)
    obtain r2 w2 where r2: "k_Renameat2 K (so_parentFD so) (so_name so) name w1 = (r2, w2)" by fastforce
    note law = rename_cases [OF assms(1) r2]
    have run: "move_attempts K so (Suc n) w =
        (case r2 of None \<Rightarrow> (Moved name, w2)
         | Some err \<Rightarrow> if err = EEXIST then move_attempts K so n w2 else if err = ENOENT then (NothingThere, w2)
             else (MoveFailed (Failed [] err), w2))"
      by (simp add: t Inr r2)
    show ?thesis
    proof (cases r2)
      case None
      then have "r = Moved name \<and> w' = w2" using Suc.prems run by simp
      then show ?thesis using law None d1 by simp
    next
      case (Some err)
      then have d2: "dir w2 = dir w" and absent: "err = ENOENT \<Longrightarrow> dir w (so_name so) = None"
        using law d1 by (auto split: if_splits)
      show ?thesis
      proof (cases "err = EEXIST")
        case True
        then have "move_attempts K so n w2 = (r, w')" using Suc.prems run Some by simp
        from Suc.IH [OF this] show ?thesis unfolding d2 .
      next
        case False
        then have "(r, w') = (if err = ENOENT then (NothingThere, w2) else (MoveFailed (Failed [] err), w2))"
          using Suc.prems run Some by simp
        then show ?thesis using d2 absent by (cases "err = ENOENT") simp_all
      qed
    qed
  qed
qed

definition own :: "socket_path \<Rightarrow> unix_stat \<Rightarrow> bool" where
  "own so st \<longleftrightarrow> isSocket st \<and> identityFromUnixStat st = so_identity so"

lemma put_back:
  assumes "m b = None" and "m a \<noteq> None"
  shows "(m(a := None, b := m a))(b := None, a := m a) = m" and "ran (m(a := None, b := m a)) = ran m"
proof -
  have ne: "a \<noteq> b" using assms by auto
  show "(m(a := None, b := m a))(b := None, a := m a) = m" using ne assms by (auto simp: fun_eq_iff)
  show "ran (m(a := None, b := m a)) = ran m"
  proof (intro set_eqI iffI)
    fix v assume "v \<in> ran (m(a := None, b := m a))"
    then obtain k where "(m(a := None, b := m a)) k = Some v" by (auto simp: ran_def)
    then show "v \<in> ran m" by (auto simp: ran_def split: if_splits)
  next
    fix v assume "v \<in> ran m"
    then obtain k where k: "m k = Some v" by (auto simp: ran_def)
    then have "(m(a := None, b := m a)) (if k = a then b else k) = Some v" using assms ne by auto
    then show "v \<in> ran (m(a := None, b := m a))" by (rule ranI)
  qed
qed

lemma restore_cases:
  assumes "rename_law K (so_parentFD so) dir" and "socket_restorePath K so t w = (r, w')"
    and "dir0 t = None" and "dir0 (so_name so) \<noteq> None"
    and "dir w = dir0(so_name so := None, t := dir0 (so_name so))"
  shows "ran (dir w') = ran dir0 \<and> (if r = None then dir w' = dir0 else True)"
proof -
  have ne: "t \<noteq> so_name so" using assms(3,4) by auto
  note law = rename_cases [OF assms(1) assms(2) [unfolded socket_restorePath_def]]
  show ?thesis
  proof (cases r)
    case None
    then have "dir w' = (dir0(so_name so := None, t := dir0 (so_name so)))(t := None, so_name so := dir0 (so_name so))"
      using law by (simp add: assms(5))
    then show ?thesis using put_back(1) [of dir0 t "so_name so"] assms(3,4) None by simp
  next
    case (Some err)
    then have "dir w' = dir0(so_name so := None, t := dir0 (so_name so))" using law assms(5) by simp
    then show ?thesis using put_back(2) [of dir0 t "so_name so"] assms(3,4) Some by simp
  qed
qed

lemma detach_cases:
  assumes "stat_law K (so_parentFD so) dir" and "rename_law K (so_parentFD so) dir" and "random_law K dir"
    and run: "socket_detach K so w = (r, w')"
  shows "(case r of
      Detached t \<Rightarrow> \<exists>st. dir w (so_name so) = Some st \<and> own so st \<and> dir w t = None \<and>
        dir w' = (dir w)(so_name so := None, t := Some st)
    | Foreign \<Rightarrow> dir w' = dir w \<and> (\<exists>st. dir w (so_name so) = Some st \<and> \<not> own so st)
    | NotPresent \<Rightarrow> dir w' = dir w \<and> dir w (so_name so) = None
    | DetachFailed _ \<Rightarrow> ran (dir w') = ran (dir w))"
proof -
  obtain m w1 where m: "movePathAside K so w = (m, w1)" by fastforce
  note moved = move_cases [OF assms(2,3) m [unfolded movePathAside_def]]
  show ?thesis
  proof (cases m)
    case NothingThere
    then have "r = NotPresent \<and> w' = w1" using run m by (simp add: socket_detach_def)
    then show ?thesis using moved NothingThere by simp
  next
    case (MoveFailed err)
    then have "r = DetachFailed [err] \<and> w' = w1" using run m by (simp add: socket_detach_def)
    then show ?thesis using moved MoveFailed by simp
  next
    case (Moved t)
    then have d1: "dir w (so_name so) \<noteq> None" "dir w t = None" "dir w1 = (dir w)(so_name so := None, t := dir w (so_name so))"
      using moved by auto
    obtain l w2 where l: "socket_lstat K so t w1 = (l, w2)" by fastforce
    note seen = lstat_cases [OF assms(1) l]
    have d2: "dir w2 = (dir w)(so_name so := None, t := dir w (so_name so))" using seen d1(3) by simp
    obtain r3 w3 where r3: "socket_restorePath K so t w2 = (r3, w3)" by fastforce
    note restored = restore_cases [OF assms(2) r3 d1(2,1) d2]
    show ?thesis
    proof (cases l)
      case (Entry st)
      then have st: "dir w (so_name so) = Some st" using seen d1 by simp
      show ?thesis
      proof (cases "own so st")
        case True
        then have "r = Detached t \<and> w' = w2" using run m Moved l Entry by (simp add: socket_detach_def own_def)
        then show ?thesis using True st d1(2) d2 by simp
      next
        case False
        then have r: "(r, w') = (case r3 of None \<Rightarrow> (Foreign, w3) | Some err \<Rightarrow> (DetachFailed [Failed ''restore changed Unix socket path'' err], w3))"
          using run m Moved l Entry r3 by (auto simp: socket_detach_def own_def socket_restoreChangedPath_def split: option.splits)
        then show ?thesis using restored False st by (cases r3) simp_all
      qed
    next
      case Absent
      then obtain errs where "r = DetachFailed errs \<and> w' = w3"
        using run m Moved l r3 by (cases r3) (auto simp: socket_detach_def)
      then show ?thesis using restored by simp
    next
      case (LstatFailed err)
      then obtain errs where "r = DetachFailed errs \<and> w' = w3"
        using run m Moved l r3 by (cases r3) (auto simp: socket_detach_def)
      then show ?thesis using restored by simp
    qed
  qed
qed

lemma unlink_detached_cases:
  assumes "stat_law K (so_parentFD so) dir" and "unlink_law K (so_parentFD so) dir"
    and run: "socket_unlinkDetached K so t (so_identity so) w = (r, w')"
    and st: "dir w t = Some st" and own: "own so st"
  shows "(if r = None then dir w' = (dir w)(t := None) else dir w' = dir w)"
proof -
  obtain l w1 where l: "socket_lstat K so t w = (l, w1)" by fastforce
  note seen = lstat_cases [OF assms(1) l]
  show ?thesis
  proof (cases l)
    case Absent
    then show ?thesis using seen st by simp
  next
    case (LstatFailed err)
    then have "r \<noteq> None \<and> w' = w1" using run l by (auto simp: socket_unlinkDetached_def)
    then show ?thesis using seen by auto
  next
    case (Entry st')
    then have "st' = st" using seen st by simp
    obtain u w2 where u: "k_Unlinkat K (so_parentFD so) t w1 = (u, w2)" by fastforce
    note gone = unlink_cases [OF assms(2) u]
    have "(r, w') = (case u of None \<Rightarrow> (None, w2) | Some err \<Rightarrow> (if err = ENOENT then None else Some (Failed ''remove Unix socket'' err), w2))"
      using run l Entry own u \<open>st' = st\<close> by (simp add: socket_unlinkDetached_def own_def)
    then show ?thesis using gone seen st by (cases u) (auto split: if_splits)
  qed
qed

lemma drop_moved: "m t = None \<Longrightarrow> a \<noteq> t \<Longrightarrow> (m(a := None, t := Some st))(t := None) = m(a := None)"
  by (auto simp: fun_eq_iff)

lemma moved_ran: "m a = Some st \<Longrightarrow> m t = None \<Longrightarrow> ran (m(a := None, t := Some st)) = ran m"
  using put_back(2) [of m t a] by simp

lemma cleanup_cases:
  assumes "stat_law K (so_parentFD so) dir" and "rename_law K (so_parentFD so) dir"
    and "unlink_law K (so_parentFD so) dir" and "random_law K dir"
    and run: "socket_cleanup K so w = (errs, w')"
  shows "if errs = []
    then dir w' = (case dir w (so_name so) of
        Some st \<Rightarrow> if own so st then (dir w)(so_name so := None) else dir w
      | None \<Rightarrow> dir w)
    else ran (dir w') = ran (dir w)"
proof -
  obtain d w1 where d: "socket_detach K so w = (d, w1)" by fastforce
  note cases = detach_cases [OF assms(1,2,4) d]
  show ?thesis
  proof (cases d)
    case (Detached t)
    then obtain st where st: "dir w (so_name so) = Some st" "own so st" "dir w t = None"
        "dir w1 = (dir w)(so_name so := None, t := Some st)" using cases by auto
    obtain u w2 where u: "socket_unlinkDetached K so t (so_identity so) w1 = (u, w2)" by fastforce
    have "dir w1 t = Some st" by (simp add: st(4))
    note gone = unlink_detached_cases [OF assms(1,3) u this st(2)]
    have "(errs, w') = (case u of None \<Rightarrow> ([], w2) | Some err \<Rightarrow> ([err], w2))"
      using run d Detached u by (simp add: socket_cleanup_def)
    moreover have "t \<noteq> so_name so" using st by auto
    ultimately show ?thesis using gone st moved_ran [of "dir w" "so_name so" st t] drop_moved [of "dir w" t "so_name so" st]
      by (cases u) simp_all
  next
    case (DetachFailed es)
    then have "errs = es \<and> w' = w1" using run d by (simp add: socket_cleanup_def)
    moreover have "es \<noteq> []" using d DetachFailed
      by (auto simp: socket_detach_def split: prod.splits move_result.splits lstat_result.splits option.splits if_splits)
    ultimately show ?thesis using cases DetachFailed by simp
  next
    case Foreign
    then have "errs = [] \<and> w' = w1" using run d by (simp add: socket_cleanup_def)
    then show ?thesis using cases Foreign by auto
  next
    case NotPresent
    then have "errs = [] \<and> w' = w1" using run d by (simp add: socket_cleanup_def)
    then show ?thesis using cases NotPresent by auto
  qed
qed

lemma remove_stale_cases:
  assumes "stat_law K (so_parentFD so) dir" and "rename_law K (so_parentFD so) dir"
    and "unlink_law K (so_parentFD so) dir" and "random_law K dir" and "dial_law K (so_parentFD so) dir listening"
    and run: "socket_removeStale K so w = (errs, w')"
  shows "if errs = []
    then dir w' = (dir w)(so_name so := None) \<and>
      (case dir w (so_name so) of None \<Rightarrow> True | Some st \<Rightarrow> own so st \<and> so_identity so \<notin> listening)
    else ran (dir w') = ran (dir w)"
proof -
  obtain d w1 where d: "socket_detach K so w = (d, w1)" by fastforce
  note cases = detach_cases [OF assms(1,2,4) d]
  show ?thesis
  proof (cases d)
    case (Detached t)
    then obtain st where st: "dir w (so_name so) = Some st" "own so st" "dir w t = None"
        "dir w1 = (dir w)(so_name so := None, t := Some st)" using cases by auto
    have ne: "t \<noteq> so_name so" using st by auto
    obtain a w2 where a: "socket_isAlive K so t w1 = (a, w2)" by fastforce
    note alive = isAlive_cases [OF assms(5) a]
    have d2: "dir w2 = (dir w)(so_name so := None, t := dir w (so_name so))" using alive st by simp
    obtain b w3 where b: "socket_restorePath K so t w2 = (b, w3)" by fastforce
    have restored: "ran (dir w3) = ran (dir w)" using restore_cases [OF assms(2) b st(3) _ d2] st(1) by simp
    show ?thesis
    proof (cases "a = Inr False")
      case False
      then have "errs \<noteq> [] \<and> w' = w3" using run d Detached a b by (auto simp: socket_removeStale_def split: sum.splits bool.splits)
      then show ?thesis using restored by simp
    next
      case True
      obtain u w4 where u: "socket_unlinkDetached K so t (so_identity so) w2 = (u, w4)" by fastforce
      have "dir w2 t = Some st" using d2 st by simp
      note gone = unlink_detached_cases [OF assms(1,3) u this st(2)]
      have r: "(errs, w') = (case u of None \<Rightarrow> ([], w4) | Some err \<Rightarrow> ([err], w4))"
        using run d Detached a True u by (simp add: socket_removeStale_def)
      have "so_identity so \<notin> listening" using alive True st by (simp add: own_def)
      then show ?thesis using r gone st d2 ne moved_ran [of "dir w" "so_name so" st t] drop_moved [of "dir w" t "so_name so" st]
        by (cases u) simp_all
    qed
  next
    case (DetachFailed es)
    then show ?thesis using run d cases by (auto simp: socket_removeStale_def)
  next
    case Foreign
    then show ?thesis using run d cases by (auto simp: socket_removeStale_def)
  next
    case NotPresent
    then show ?thesis using run d cases by (auto simp: socket_removeStale_def fun_upd_idem)
  qed
qed

text \<open>
  C15. Giving the pathname back takes nothing that is not the panel's.  In a directory of its own, the cleanup
  behind \<^verbatim>\<open>Close\<close>, when no call fails, removes the entry at its name exactly when that is still the very socket the
  panel published (same device, inode and owner); another object that has taken the name stays there, and no
  other entry changes.  When some call fails, on whichever step, every object is still in the directory.  A
  second \<^verbatim>\<open>Close\<close> does nothing and repeats the answer of the first.
\<close>

theorem cleanup_takes_only_its_own:
  assumes "stat_law K (so_parentFD so) dir" and "rename_law K (so_parentFD so) dir"
    and "unlink_law K (so_parentFD so) dir" and "random_law K dir"
    and "socket_cleanup K so w = (errs, w')" and "listener_Close K l v = (answer, l', v')"
  shows "(if errs = []
     then dir w' = (case dir w (so_name so) of
        Some st \<Rightarrow> if isSocket st \<and> identityFromUnixStat st = so_identity so then (dir w)(so_name so := None) else dir w
      | None \<Rightarrow> dir w)
     else ran (dir w') = ran (dir w)) \<and>
    listener_Close K l' v'' = (answer, l', v'')"
proof -
  have "ol_closed l' = Some answer" using assms(6) by (auto simp: listener_Close_def Let_def split: option.splits prod.splits)
  then show ?thesis using cleanup_cases [OF assms(1-5)] unfolding own_def by (simp add: listener_Close_def)
qed

text \<open>
  C16. Claiming the pathname never takes it from a living socket.  In a directory of its own, preparing to bind
  succeeds exactly by leaving the name free and every other entry as it was, and what stood there, if anything,
  was a socket owned by the panel's user on which nobody listens, probed once in place and once more after it
  was moved aside.  When the preparation is refused or fails, every object is still in the directory.
\<close>

theorem claim_needs_a_dead_socket:
  assumes "stat_law K (so_parentFD so) dir" and "rename_law K (so_parentFD so) dir"
    and "unlink_law K (so_parentFD so) dir" and "random_law K dir" and "dial_law K (so_parentFD so) dir listening"
    and "prepareSocketPath K so w = (errs, w')"
  shows "if errs = []
    then dir w' = (dir w)(so_name so := None) \<and>
      (case dir w (so_name so) of
         None \<Rightarrow> True
       | Some st \<Rightarrow> isSocket st \<and> us_Uid st = k_Geteuid K \<and> identityFromUnixStat st \<notin> listening)
    else ran (dir w') = ran (dir w)"
proof -
  obtain l w1 where l: "socket_lstat K so (so_name so) w = (l, w1)" by fastforce
  note seen = lstat_cases [OF assms(1) l]
  show ?thesis
  proof (cases l)
    case Absent
    then show ?thesis using assms(6) l seen by (simp add: prepareSocketPath_def fun_upd_idem)
  next
    case (LstatFailed err)
    then show ?thesis using assms(6) l seen by (auto simp: prepareSocketPath_def)
  next
    case (Entry info)
    let ?so = "so\<lparr>so_identity := identityFromUnixStat info\<rparr>"
    obtain a w2 where a: "socket_isAlive K so (so_name so) w1 = (a, w2)" by fastforce
    have d2: "dir w2 = dir w" using isAlive_cases [OF assms(5) a] seen by simp
    have info: "dir w (so_name so) = Some info" using seen Entry by simp
    show ?thesis
    proof (cases "isSymlink info \<or> \<not> isSocket info \<or> us_Uid info \<noteq> k_Geteuid K \<or> a \<noteq> Inr False")
      case True
      then have "errs \<noteq> [] \<and> dir w' = dir w"
        using assms(6) l Entry a d2 seen by (auto simp: prepareSocketPath_def split: if_splits sum.splits bool.splits)
      then show ?thesis by simp
    next
      case False
      then have run: "socket_removeStale K ?so w2 = (errs, w')"
        using assms(6) l Entry a by (simp add: prepareSocketPath_def)
      have laws: "stat_law K (so_parentFD ?so) dir" "rename_law K (so_parentFD ?so) dir" "unlink_law K (so_parentFD ?so) dir"
        "dial_law K (so_parentFD ?so) dir listening" using assms(1-3,5) by simp_all
      from remove_stale_cases [OF laws(1-3) assms(4) laws(4) run] False info d2
      show ?thesis by (auto simp: own_def split: if_splits)
    qed
  qed
qed

text \<open>A directory as a table, on which the laws hold and nobody listens.\<close>

definition table_kernel :: "((string \<Rightarrow> unix_stat option) \<times> nat) kernel" where
  "table_kernel = \<lparr>k_Geteuid = 7, k_Open = (\<lambda>_ w. (Inr 3, w)), k_Openat = (\<lambda>_ _ w. (Inr 3, w)),
     k_OpenatPath = (\<lambda>_ _ w. (Inr 4, w)), k_Close = (\<lambda>_ w. (None, w)), k_Fstat = (\<lambda>_ w. (Inl ENOENT, w)),
     k_Fstatat = (\<lambda>_ name w. (case fst w name of None \<Rightarrow> Inl ENOENT | Some st \<Rightarrow> Inr st, w)),
     k_Renameat2 = (\<lambda>_ a b w. if fst w a = None then (Some ENOENT, w) else if fst w b \<noteq> None then (Some EEXIST, w)
       else (None, (fst w)(a := None, b := fst w a), snd w)),
     k_Unlinkat = (\<lambda>_ a w. if fst w a = None then (Some ENOENT, w) else (None, (fst w)(a := None), snd w)),
     k_LinkatFd = (\<lambda>_ _ _ w. (Some EPERM, w)), k_Linkat = (\<lambda>_ _ _ w. (Some EPERM, w)),
     k_FchmodatFd = (\<lambda>_ _ w. (None, w)), k_FchmodatProc = (\<lambda>_ _ w. (None, w)), k_Socket = (\<lambda>w. (Inr 5, w)),
     k_Bind = (\<lambda>_ _ _ w. (None, w)), k_Listen = (\<lambda>_ w. (None, w)),
     k_FileListener = (\<lambda>fd w. (Inr (UnixListener fd), w)), k_CloseListener = (\<lambda>_ w. (None, w)),
     k_Dial = (\<lambda>_ _ w. (Some ECONNREFUSED, w)), k_Random = (\<lambda>w. (Inr [snd w], (fst w, snd w + 1))),
     k_ListenTCP = (\<lambda>_ w. (Inr (TCPListener 9), w))\<rparr>"

lemma table_laws:
  "stat_law table_kernel fd fst" "rename_law table_kernel fd fst" "unlink_law table_kernel fd fst"
  "random_law table_kernel fst" "dial_law table_kernel fd fst {}"
  by (auto simp: stat_law_def rename_law_def unlink_law_def random_law_def dial_law_def table_kernel_def
      split: option.splits)

definition panel_stat :: unix_stat where
  "panel_stat = \<lparr>us_Dev = 1, us_Ino = 2, us_Uid = 7, us_Mode = 0xC1B0\<rparr>"

definition panel_socket :: socket_path where
  "panel_socket = \<lparr>so_path = ''/run/x'', so_name = ''x'', so_parentFD = 3,
     so_identity = \<lparr>fi_dev = 1, fi_ino = 2, fi_uid = 7\<rparr>\<rparr>"

lemma panel_stat_facts:
  "isSocket panel_stat" "\<not> isSymlink panel_stat" "identityFromUnixStat panel_stat = so_identity panel_socket"
  by (simp_all add: isSocket_def isSymlink_def panel_stat_def panel_socket_def identityFromUnixStat_def)

lemma panel_cleanup_answers: "fst (socket_cleanup table_kernel panel_socket ((\<lambda>_. None)(''x'' \<mapsto> panel_stat), 0)) = []"
  by code_simp

theorem cleanup_takes_only_its_own_witness:
  "fst (snd (socket_cleanup table_kernel panel_socket ((\<lambda>_. None)(''x'' \<mapsto> panel_stat), 0))) = (\<lambda>_. None)"
proof -
  obtain errs w' where run: "socket_cleanup table_kernel panel_socket ((\<lambda>_. None)(''x'' \<mapsto> panel_stat), 0) = (errs, w')" by (metis surj_pair)
  then have "errs = []" using panel_cleanup_answers by simp
  obtain answer l' v' where close: "listener_Close table_kernel
      \<lparr>ol_listener = UnixListener 5, ol_socket = panel_socket, ol_closed = None\<rparr> ((\<lambda>_. None), 0) = (answer, l', v')"
    by (metis prod_cases3)
  from cleanup_takes_only_its_own [OF table_laws(1-4) run close, of v'] \<open>errs = []\<close> run panel_stat_facts
  show ?thesis by (auto simp: panel_socket_def fun_upd_def)
qed

theorem claim_needs_a_dead_socket_witness:
  "fst (prepareSocketPath table_kernel panel_socket ((\<lambda>_. None)(''x'' \<mapsto> panel_stat), 0)) = [] \<and>
   fst (snd (prepareSocketPath table_kernel panel_socket ((\<lambda>_. None)(''x'' \<mapsto> panel_stat), 0))) ''x'' = None"
proof -
  obtain errs w' where run: "prepareSocketPath table_kernel panel_socket ((\<lambda>_. None)(''x'' \<mapsto> panel_stat), 0) = (errs, w')" by (metis surj_pair)
  have "fst (prepareSocketPath table_kernel panel_socket ((\<lambda>_. None)(''x'' \<mapsto> panel_stat), 0)) = []"
    by code_simp
  then have "errs = []" using run by simp
  from claim_needs_a_dead_socket [OF table_laws run] \<open>errs = []\<close> run
  show ?thesis by (simp add: panel_socket_def)
qed

section \<open>Connections from the Host itself\<close>

definition local_peer :: "int \<times> ip_addr option \<Rightarrow> bool" where
  "local_peer c \<longleftrightarrow> (case snd c of None \<Rightarrow> False | Some ip \<Rightarrow> IsLoopback ip)"

lemma accept_iff:
  "loopback_Accept offers closed0 = Some (Inr conn, closed) \<longleftrightarrow>
     (\<exists>pre remote post. offers = map Inr pre @ Inr (conn, remote) # post \<and> local_peer (conn, remote) \<and>
        list_all (\<lambda>c. \<not> local_peer c) pre \<and> closed = closed0 @ map fst pre)" (is "?l offers closed0 \<longleftrightarrow> ?r offers closed0")
proof
  show "?l offers closed0 \<Longrightarrow> ?r offers closed0"
  proof (induction offers closed0 rule: loopback_Accept.induct)
    case (3 c remote rest closed0)
    show ?case
    proof (cases "local_peer (c, remote)")
      case True
      then have "conn = c \<and> closed = closed0" using 3(2) by (auto simp: local_peer_def split: option.splits)
      then show ?thesis using True by (intro exI [of _ "[]"]) auto
    next
      case False
      then have n: "\<not> (case remote of None \<Rightarrow> False | Some ip \<Rightarrow> IsLoopback ip)" by (simp add: local_peer_def)
      obtain pre remote' post where "rest = map Inr pre @ Inr (conn, remote') # post" "local_peer (conn, remote')"
          "list_all (\<lambda>c. \<not> local_peer c) pre" "closed = (closed0 @ [c]) @ map fst pre"
        using 3(1) [OF n] 3(2) n by auto
      then show ?thesis using False by (intro exI [of _ "(c, remote) # pre"]) auto
    qed
  qed auto
  assume "?r offers closed0"
  then obtain pre remote post where o: "offers = map Inr pre @ Inr (conn, remote) # post" and l: "local_peer (conn, remote)"
      and far: "list_all (\<lambda>c. \<not> local_peer c) pre" and c: "closed = closed0 @ map fst pre" by blast
  have "loopback_Accept (map Inr pre @ Inr (conn, remote) # post) k = Some (Inr conn, k @ map fst pre)" for k
    using far
  proof (induction pre arbitrary: k)
    case Nil
    then show ?case using l by (auto simp: local_peer_def)
  next
    case (Cons p pre)
    then show ?case by (cases p) (auto simp: local_peer_def)
  qed
  then show "?l offers closed0" using o c by simp
qed

lemma listenUnix_owned: "fst (listenUnix K path w) = Inr l \<Longrightarrow> \<exists>ol. l = OwnedUnix ol"
  by (auto simp: listenUnix_def split: prod.splits sum.splits list.splits if_splits)

end
