(* ===== verification/Config.thy ===== *)
theory Config
  imports Auth GoJson GoStrings NetAddr
begin

text \<open>
  The runtime configuration, \<^verbatim>\<open>src/internal/config/config.go\<close>: the environment with its defaults, and
  the checks of each authentication mode that run before anything else is created.

  The environment is a function from names to values, empty for an unset one.  Of \<^verbatim>\<open>url.Parse\<close> only
  the case the code reaches is modelled: a text that begins with a single slash and has no fragment.
\<close>

section \<open>The record and its defaults\<close>

record config =
  cf_ListenAddress :: string
  cf_AuthMode :: string
  cf_Password :: string
  cf_TrustedProxySecret :: string
  cf_TrustedProxySignOutURL :: string
  cf_XrayAPIAddress :: string
  cf_XrayConfigPath :: string
  cf_ConnectionsConfigPath :: string
  cf_DBPath :: string
  cf_XrayUnitName :: string
  cf_JournalctlPath :: string
  cf_GeoIPPath :: string

datatype config_error =
    PasswordRequired | TrustedSettingsNotAllowed | PasswordNotAllowed
  | SecretInvalid | ListenInvalid | SignOutInvalid string | ModeInvalid string

definition env :: "(string \<Rightarrow> string) \<Rightarrow> string \<Rightarrow> string \<Rightarrow> string" where
  "env getenv name fallback = (if getenv name \<noteq> [] then getenv name else fallback)"

definition env_config :: "(string \<Rightarrow> string) \<Rightarrow> config" where
  "env_config getenv = \<lparr>
     cf_ListenAddress = env getenv ''XFORM_LISTEN'' ''127.0.0.1:9090'',
     cf_AuthMode = env getenv ''XFORM_AUTH_MODE'' ''password'',
     cf_Password = env getenv ''XFORM_PASSWORD'' [],
     cf_TrustedProxySecret = env getenv ''XFORM_TRUSTED_PROXY_SECRET'' [],
     cf_TrustedProxySignOutURL = env getenv ''XFORM_TRUSTED_PROXY_SIGN_OUT_URL'' [],
     cf_XrayAPIAddress = env getenv ''XFORM_XRAY_API'' ''127.0.0.1:8080'',
     cf_XrayConfigPath = env getenv ''XFORM_XRAY_CONFIG'' ''/usr/local/etc/xray/config.json'',
     cf_ConnectionsConfigPath = env getenv ''XFORM_CONNECTIONS_CONFIG'' [],
     cf_DBPath = env getenv ''XFORM_DB'' ''/var/lib/xform/xform.db'',
     cf_XrayUnitName = env getenv ''XFORM_XRAY_UNIT'' ''xray.service'',
     cf_JournalctlPath = env getenv ''XFORM_JOURNALCTL'' ''/usr/bin/journalctl'',
     cf_GeoIPPath = env getenv ''XFORM_GEOIP'' []\<rparr>"

section \<open>The sign-out path\<close>

text \<open>Whether \<^verbatim>\<open>url.unescape\<close> accepts a text: every percent sign begins a two-digit escape.\<close>

fun escapes_ok :: "string \<Rightarrow> bool" where
  "escapes_ok [] \<longleftrightarrow> True"
| "escapes_ok (c # s) \<longleftrightarrow>
     (if c = CHR ''%'' then (case s of a # b # r \<Rightarrow> hex_char a \<and> hex_char b \<and> escapes_ok r | _ \<Rightarrow> False)
      else escapes_ok s)"

fun unescape :: "string \<Rightarrow> string" where
  "unescape [] = []"
| "unescape (c # s) =
     (if c = CHR ''%'' then (case s of a # b # r \<Rightarrow> char_of (16 * hex_digit_value a + hex_digit_value b) # unescape r | _ \<Rightarrow> c # s)
      else c # unescape s)"

record parsed_url =
  pu_Path :: string
  pu_RawQuery :: string

definition ctl_byte :: "char \<Rightarrow> bool" where
  "ctl_byte c \<longleftrightarrow> (of_char c :: nat) < 32 \<or> (of_char c :: nat) = 127"

definition parse_rooted_url :: "string \<Rightarrow> parsed_url option" where
  "parse_rooted_url raw =
     (let (rest, query) = cut_at (CHR ''?'') raw in
      if list_ex ctl_byte raw \<or> \<not> escapes_ok rest then None
      else Some \<lparr>pu_Path = unescape rest, pu_RawQuery = query\<rparr>)"

text \<open>Ranging over the string: some rune is a control character.\<close>

function has_control :: "string \<Rightarrow> bool" where
  "has_control [] \<longleftrightarrow> False"
| "has_control (c # s) \<longleftrightarrow>
     (let r = fst (decode_rune (c # s)) in r < 32 \<or> 127 \<le> r \<and> r < 160) \<or>
     has_control (drop (snd (decode_rune (c # s)) - 1) s)"
  by pat_completeness auto
termination by (relation "measure length") auto

declare has_control.simps(2) [simp del]

definition not_same_origin :: string where
  "not_same_origin = ''trusted proxy sign-out URL must be a same-origin absolute path''"

definition ValidateTrustedProxySignOutURL :: "string \<Rightarrow> string option" where
  "ValidateTrustedProxySignOutURL url =
     (if url = [] then None
      else if \<not> valid_utf8 url \<or> \<not> has_prefix url ''/'' \<or> has_prefix url ''//'' \<or> contains_any url [CHR 92, CHR ''#'']
      then Some not_same_origin
      else if has_control url then Some ''trusted proxy sign-out URL must not contain control characters''
      else case parse_rooted_url url of
        None \<Rightarrow> Some not_same_origin
      | Some parsed \<Rightarrow>
          if \<not> has_prefix (pu_Path parsed) ''/'' then Some not_same_origin
          else if \<not> escapes_ok (pu_RawQuery parsed)
          then Some ''trusted proxy sign-out URL contains an invalid query escape'' else None)"

section \<open>Load\<close>

definition validateTrustedListen :: "string \<Rightarrow> config_error option" where
  "validateTrustedListen address =
     (if has_prefix address ''unix:'' then
        (let path = drop 5 address in
         if path = [] \<or> \<not> has_prefix path ''/'' \<or> has_suffix path ''/'' then Some ListenInvalid else None)
      else if loopback_address address then None else Some ListenInvalid)"

definition validate_mode :: "config \<Rightarrow> config_error option" where
  "validate_mode cfg =
     (if cf_AuthMode cfg = ''password'' then
        (if cf_Password cfg = [] then Some PasswordRequired
         else if cf_TrustedProxySecret cfg \<noteq> [] \<or> cf_TrustedProxySignOutURL cfg \<noteq> [] then Some TrustedSettingsNotAllowed
         else None)
      else if cf_AuthMode cfg = ''trusted_proxy'' then
        (if cf_Password cfg \<noteq> [] then Some PasswordNotAllowed
         else if \<not> ValidateTrustedProxySecret (cf_TrustedProxySecret cfg) then Some SecretInvalid
         else if validateTrustedListen (cf_ListenAddress cfg) \<noteq> None then Some ListenInvalid
         else map_option SignOutInvalid (ValidateTrustedProxySignOutURL (cf_TrustedProxySignOutURL cfg)))
      else Some (ModeInvalid (cf_AuthMode cfg)))"

definition Config_Load :: "(string \<Rightarrow> string) \<Rightarrow> config_error + config" where
  "Config_Load getenv =
     (let cfg = env_config getenv in case validate_mode cfg of Some err \<Rightarrow> Inl err | None \<Rightarrow> Inr cfg)"

section \<open>What an accepted sign-out path looks like\<close>

lemma query_not_hex: "\<not> hex_char (CHR ''?'')"
  by (simp add: hex_char_def digit_def)

lemma escapes_ok_cut: "escapes_ok (a @ CHR ''?'' # b) \<longleftrightarrow> escapes_ok a \<and> escapes_ok b"
proof (induction a rule: length_induct)
  case (1 a)
  show ?case
  proof (cases a)
    case Nil
    then show ?thesis by simp
  next
    case (Cons c s)
    show ?thesis
    proof (cases "c = CHR ''%''")
      case False
      then show ?thesis using 1 Cons by simp
    next
      case True
      consider "s = []" | x where "s = [x]" | x y r where "s = x # y # r" by (cases s rule: remdups_adj.cases) auto
      then show ?thesis
      proof cases
        case 3
        then show ?thesis using 1 Cons True by simp
      qed (use Cons True query_not_hex in \<open>auto split: list.split\<close>)
    qed
  qed
qed

lemma cut_at_none: "c \<notin> set s \<Longrightarrow> cut_at c s = (s, [])"
  by (induction s) (auto simp: cut_at_def)

lemma cut_at_some: "c \<notin> set a \<Longrightarrow> cut_at c (a @ c # b) = (a, b)"
  by (induction a) (auto simp: cut_at_def)

lemma escapes_ok_parts: "escapes_ok (fst (cut_at (CHR ''?'') s)) \<and> escapes_ok (snd (cut_at (CHR ''?'') s)) \<longleftrightarrow> escapes_ok s"
proof (cases "CHR ''?'' \<in> set s")
  case False
  then show ?thesis by (simp add: cut_at_none)
next
  case True
  then obtain a b where "s = a @ CHR ''?'' # b" "CHR ''?'' \<notin> set a" by (metis split_list_first)
  then show ?thesis by (simp add: cut_at_some escapes_ok_cut)
qed

lemma rooted_cut: "s = CHR ''/'' # r \<Longrightarrow> \<exists>r'. fst (cut_at (CHR ''?'') s) = CHR ''/'' # r'"
  by (simp add: cut_at_def)

text \<open>
  The sign-out path the panel hands to the browser stays on its origin: a setting is accepted
  exactly when it is empty, or is valid UTF-8 that begins with one slash and not two, has no backslash,
  no fragment and no control character, and in which every percent sign, in the path and in the query,
  begins a well-formed escape.  What \<^verbatim>\<open>url.Parse\<close> and \<^verbatim>\<open>url.PathUnescape\<close> add to the textual checks is that
  last condition alone.
\<close>

lemma sign_out_stays_on_origin:
  "ValidateTrustedProxySignOutURL url = None \<longleftrightarrow>
     url = [] \<or>
     valid_utf8 url \<and> (\<exists>r. url = CHR ''/'' # r \<and> (if r = [] then True else hd r \<noteq> CHR ''/'')) \<and>
     CHR 92 \<notin> set url \<and> CHR ''#'' \<notin> set url \<and> \<not> has_control url \<and> \<not> list_ex ctl_byte url \<and> escapes_ok url"
proof (cases "\<exists>r. url = CHR ''/'' # r")
  case False
  then show ?thesis by (cases url) (auto simp: ValidateTrustedProxySignOutURL_def has_prefix_def)
next
  case True
  then obtain r where url: "url = CHR ''/'' # r" by blast
  obtain rest query where cut: "cut_at (CHR ''?'') url = (rest, query)" by fastforce
  then obtain r' where rest: "rest = CHR ''/'' # r'" using rooted_cut [OF url] by auto
  have escapes: "escapes_ok rest \<and> escapes_ok query \<longleftrightarrow> escapes_ok url" using escapes_ok_parts [of url] cut by simp
  have slashes: "has_prefix url ''//'' \<longleftrightarrow> \<not> (if r = [] then True else hd r \<noteq> CHR ''/'')"
    by (cases r) (auto simp: url has_prefix_def)
  have bytes: "contains_any url [CHR 92, CHR ''#''] \<longleftrightarrow> CHR 92 \<in> set url \<or> CHR ''#'' \<in> set url"
    by (auto simp: contains_any_def list_ex_iff)
  have root: "has_prefix url ''/''" "has_prefix (unescape rest) ''/''" by (simp_all add: url rest has_prefix_def)
  show ?thesis
    using escapes slashes bytes root cut url
    by (auto simp: ValidateTrustedProxySignOutURL_def parse_rooted_url_def)
qed

section \<open>What a loaded configuration guarantees\<close>

text \<open>The credential \<^verbatim>\<open>main\<close> passes to \<^verbatim>\<open>auth.New\<close>.\<close>

definition credential :: "config \<Rightarrow> string" where
  "credential cfg = (if cf_AuthMode cfg = mode_name ModeTrustedProxy then cf_TrustedProxySecret cfg else cf_Password cfg)"

text \<open>
  C37. A configuration that loads can be started: authentication is created from it in the mode it
  names, with the settings of the other mode all absent, so a password is never empty and a secret
  always 64 lowercase hexadecimal digits; behind a trusted proxy the panel listens on a Unix socket at
  an absolute path or on a loopback address, whatever the environment holds.
\<close>

theorem loaded_config_admits:
  assumes "Config_Load getenv = Inr cfg"
  shows "\<exists>g. New_gateway sha256 (cf_AuthMode cfg) (credential cfg) = Some g \<and> mode_name (gw_mode g) = cf_AuthMode cfg \<and>
    (case gw_mode g of
       ModePassword \<Rightarrow> cf_Password cfg \<noteq> [] \<and> cf_TrustedProxySecret cfg = [] \<and> cf_TrustedProxySignOutURL cfg = []
     | ModeTrustedProxy \<Rightarrow> cf_Password cfg = [] \<and> length (cf_TrustedProxySecret cfg) = 64 \<and>
         list_all lower_hex (cf_TrustedProxySecret cfg) \<and>
         (if has_prefix (cf_ListenAddress cfg) ''unix:''
          then has_prefix (drop 5 (cf_ListenAddress cfg)) ''/'' \<and> \<not> has_suffix (cf_ListenAddress cfg) ''/''
          else loopback_address (cf_ListenAddress cfg)))"
proof -
  have v: "validate_mode cfg = None" using assms by (auto simp: Config_Load_def Let_def split: option.splits)
  show ?thesis
  proof (cases "cf_AuthMode cfg = ''password''")
    case True
    then have "cf_Password cfg \<noteq> []" "cf_TrustedProxySecret cfg = []" "cf_TrustedProxySignOutURL cfg = []"
      using v by (auto simp: validate_mode_def split: if_splits)
    then show ?thesis using True by (simp add: New_gateway_def NewPassword_def)
  next
    case False
    then have mode: "cf_AuthMode cfg = ''trusted_proxy''" using v by (auto simp: validate_mode_def split: if_splits)
    have parts: "cf_Password cfg = []" "ValidateTrustedProxySecret (cf_TrustedProxySecret cfg)"
        "validateTrustedListen (cf_ListenAddress cfg) = None"
      using v mode by (auto simp: validate_mode_def split: if_splits)
    have "has_suffix (drop 5 a) ''/''" if u: "has_prefix a ''unix:''" and slash: "has_suffix a ''/''" for a
    proof -
      obtain r where "a = ''unix:'' @ r" using has_prefixD [OF u] by blast
      then show ?thesis using slash by (cases r rule: rev_cases) (auto simp: has_suffix_def)
    qed
    then show ?thesis
      using mode parts
      by (auto simp: New_gateway_def NewTrustedProxy_def credential_def ValidateTrustedProxySecret_def validateTrustedListen_def
          Let_def split: if_splits)
  qed
qed

definition example_env :: "string \<Rightarrow> string" where
  "example_env name =
     (if name = ''XFORM_AUTH_MODE'' then ''trusted_proxy''
      else if name = ''XFORM_TRUSTED_PROXY_SECRET'' then replicate 64 (CHR ''a'') else [])"

theorem loaded_config_admits_witness:
  "\<exists>cfg. Config_Load example_env = Inr cfg \<and>
    (\<exists>g :: string gateway. New_gateway (\<lambda>s. s) (cf_AuthMode cfg) (credential cfg) = Some g \<and> gw_mode g = ModeTrustedProxy)"
proof -
  have "ValidateTrustedProxySignOutURL [] = None" by (simp add: ValidateTrustedProxySignOutURL_def)
  moreover have "validateTrustedListen ''127.0.0.1:9090'' = None" by code_simp
  moreover have "ValidateTrustedProxySecret (replicate 64 (CHR ''a''))"
    by (simp add: ValidateTrustedProxySecret_def list_all_iff lower_hex_def)
  moreover have "replicate 64 (CHR ''a'') \<noteq> []" by simp
  ultimately obtain cfg where cfg: "Config_Load example_env = Inr cfg" and m: "cf_AuthMode cfg = ''trusted_proxy''"
    by (simp add: Config_Load_def env_config_def env_def example_env_def validate_mode_def)
  show ?thesis
  proof -
    obtain g where g: "New_gateway (\<lambda>s. s) (cf_AuthMode cfg) (credential cfg) = Some g" "mode_name (gw_mode g) = ''trusted_proxy''"
      using loaded_config_admits [OF cfg, of "\<lambda>s. s"] m by auto
    then have "gw_mode g = ModeTrustedProxy" by (cases "gw_mode g") auto
    then show ?thesis using cfg g(1) by blast
  qed
qed

end
