(* ===== verification/ConfigSnapshot.thy ===== *)
theory ConfigSnapshot
  imports GoJson
begin

text \<open>
  The config snapshot behind the config viewer, \<^verbatim>\<open>src/internal/configsnapshot/configsnapshot.go\<close> and
  \<^verbatim>\<open>file.go\<close>: one bounded read of the configured path, exact or refused.

  The file system answers the open (with whether the target is a regular file) and then hands out the
  content turn by turn; the end of the list is the end of the file.  Before every read the request may
  have gone away.
\<close>

section \<open>State and answers\<close>

datatype snapshot_reason = ReasonUnreadable | ReasonTooLarge | ReasonNotUTF8

datatype snapshot_error = Cancelled | SnapshotFailed snapshot_reason

record config_snapshot =
  cs_CapturedAt :: int
  cs_Path :: string
  cs_SizeBytes :: nat
  cs_Text :: string

record config_reader =
  cr_path :: string
  cr_limit :: nat

definition maxBytes :: nat where
  "maxBytes = 4 * 2 ^ 20"

definition NewConfigReader :: "string \<Rightarrow> config_reader" where
  "NewConfigReader path = \<lparr>cr_path = path, cr_limit = maxBytes\<rparr>"

datatype read_answer = Data string | Broken string

text \<open>One turn: whether the request has gone, and what the file answers.\<close>

type_synonym read_turn = "bool \<times> read_answer"

record file_env =
  fe_gone :: bool               \<comment> \<open>the request before the open\<close>
  fe_open :: "string + bool"    \<comment> \<open>\<^verbatim>\<open>openPath\<close>: a failure, or whether the target is regular\<close>
  fe_turns :: "read_turn list"
  fe_gone_after :: bool         \<comment> \<open>the request when a read failed\<close>
  fe_clock :: int

section \<open>The read\<close>

definition openPath :: "string + 'f \<Rightarrow> ('f \<Rightarrow> string + bool) \<Rightarrow> string + bool" where
  "openPath opened stat = (case opened of Inl err \<Rightarrow> Inl err | Inr file \<Rightarrow> stat file)"

text \<open>
  \<^verbatim>\<open>io.ReadAll\<close> of the limited, cancelling reader: what is still allowed, the turns, what was read.
\<close>

fun read_all :: "nat \<Rightarrow> read_turn list \<Rightarrow> string \<Rightarrow> string option \<times> string" where
  "read_all 0 turns content = (None, content)"
| "read_all (Suc n) [] content = (None, content)"
| "read_all (Suc n) ((gone, reply) # turns) content =
     (if gone then (Some ''context canceled'', content)
      else case reply of
        Broken err \<Rightarrow> (Some err, content)
      | Data d \<Rightarrow> read_all (Suc n - length (take (Suc n) d)) turns (content @ take (Suc n) d))"

definition Reader_Read :: "file_env \<Rightarrow> config_reader \<Rightarrow> snapshot_error + config_snapshot" where
  "Reader_Read F r =
     (if fe_gone F then Inl Cancelled
      else case fe_open F of
        Inl err \<Rightarrow> Inl (SnapshotFailed ReasonUnreadable)
      | Inr regular \<Rightarrow>
          if \<not> regular then Inl (SnapshotFailed ReasonUnreadable)
          else case read_all (cr_limit r + 1) (fe_turns F) [] of
            (Some err, _) \<Rightarrow> Inl (if fe_gone_after F then Cancelled else SnapshotFailed ReasonUnreadable)
          | (None, content) \<Rightarrow>
              if cr_limit r < length content then Inl (SnapshotFailed ReasonTooLarge)
              else if \<not> valid_utf8 content then Inl (SnapshotFailed ReasonNotUTF8)
              else Inr \<lparr>cs_CapturedAt = fe_clock F, cs_Path = cr_path r, cs_SizeBytes = length content, cs_Text = content\<rparr>)"

section \<open>Exact or refused\<close>

fun turn_data :: "read_turn \<Rightarrow> string option" where
  "turn_data (gone, Data d) = (if gone then None else Some d)"
| "turn_data (gone, Broken err) = None"

definition whole_file :: "read_turn list \<Rightarrow> string option" where
  "whole_file turns = map_option concat (those (map turn_data turns))"

lemma whole_file_Nil [simp]: "whole_file [] = Some []"
  by (simp add: whole_file_def)

lemma whole_file_Cons [simp]:
  "whole_file (t # ts) = (case turn_data t of None \<Rightarrow> None | Some d \<Rightarrow> map_option ((@) d) (whole_file ts))"
  by (auto simp: whole_file_def option.map_comp comp_def split: option.split)

lemma read_all_small:
  "read_all n turns content = (None, all) \<Longrightarrow> length all < length content + n \<Longrightarrow>
     (\<exists>bytes. whole_file turns = Some bytes \<and> all = content @ bytes)"
proof (induction n turns content rule: read_all.induct)
  case (3 n gone reply turns content)
  then obtain d where d: "reply = Data d" "\<not> gone" by (cases reply) (auto split: if_splits)
  show ?case
  proof (cases "length d < Suc n")
    case True
    then have run: "read_all (Suc n - length d) turns (content @ d) = (None, all)" using 3(2) d by simp
    have "length all < length (content @ d) + (Suc n - length d)" using 3(3) True by simp
    then obtain bytes where "whole_file turns = Some bytes" "all = (content @ d) @ bytes"
      using 3(1) [OF d(2) d(1)] run True by auto
    then show ?thesis using d by simp
  next
    case False
    then have "read_all 0 turns (content @ take (Suc n) d) = (None, all)" using 3(2) d by simp
    then have "all = content @ take (Suc n) d" by simp
    then show ?thesis using 3(3) False by simp
  qed
qed auto

lemma read_all_whole:
  "whole_file turns = Some bytes \<Longrightarrow> read_all n turns content = (None, content @ take n bytes)"
proof (induction n turns content arbitrary: bytes rule: read_all.induct)
  case (3 n gone reply turns content)
  then obtain d rest where d: "reply = Data d" "\<not> gone" "whole_file turns = Some rest" "bytes = d @ rest"
    by (cases reply) (auto split: if_splits)
  then show ?case using 3(1) [OF d(2) d(1) d(3)] by (cases "length d < Suc n") (simp_all add: take_append)
qed auto

text \<open>
  A config snapshot is the whole file or none.  A snapshot is returned exactly when the request was
  still there, the path opened on a regular file, every read up to the end of the file succeeded, and the
  file is at most the bound long and valid UTF-8; its text is then every byte of the file and its size
  their number.  A file over the bound, or one that breaks off, is never shown in part.
\<close>

lemma config_snapshot_is_whole:
  "Reader_Read F r = Inr snap \<longleftrightarrow>
     \<not> fe_gone F \<and> fe_open F = Inr True \<and>
     (\<exists>bytes. whole_file (fe_turns F) = Some bytes \<and> length bytes \<le> cr_limit r \<and> valid_utf8 bytes \<and>
        snap = \<lparr>cs_CapturedAt = fe_clock F, cs_Path = cr_path r, cs_SizeBytes = length bytes, cs_Text = bytes\<rparr>)"
  (is "?l \<longleftrightarrow> ?r")
proof
  assume l: ?l
  obtain e content where run: "read_all (cr_limit r + 1) (fe_turns F) [] = (e, content)" by fastforce
  from l run have parts: "\<not> fe_gone F" "fe_open F = Inr True" "e = None" "length content \<le> cr_limit r" "valid_utf8 content"
      "snap = \<lparr>cs_CapturedAt = fe_clock F, cs_Path = cr_path r, cs_SizeBytes = length content, cs_Text = content\<rparr>"
    by (auto simp: Reader_Read_def split: if_splits sum.splits option.splits)
  then obtain bytes where "whole_file (fe_turns F) = Some bytes" "content = bytes"
    using read_all_small [of "cr_limit r + 1" "fe_turns F" "[]" content] run by auto
  then show ?r using parts by auto
next
  assume ?r
  then obtain bytes where f: "\<not> fe_gone F" "fe_open F = Inr True" "whole_file (fe_turns F) = Some bytes"
      "length bytes \<le> cr_limit r" "valid_utf8 bytes"
      "snap = \<lparr>cs_CapturedAt = fe_clock F, cs_Path = cr_path r, cs_SizeBytes = length bytes, cs_Text = bytes\<rparr>" by blast
  have "read_all (cr_limit r + 1) (fe_turns F) [] = (None, bytes)"
    using read_all_whole [OF f(3), of "cr_limit r + 1" "[]"] f(4) by simp
  then show ?l using f by (simp add: Reader_Read_def)
qed

end
