(* ===== verification/Systemd.thy ===== *)
theory Systemd
  imports Status GoStrings
begin

text \<open>
  What the status collector and the journal gate read from systemd and from the xray binary,
  \<^verbatim>\<open>src/internal/xraystatus/systemd.go\<close> and \<^verbatim>\<open>src/internal/xraystatus/version.go\<close>: the dial with its fallback, the
  property maps, the path of the binary, the canonical unit name and the version text.

  D-Bus and the binary are outside: a connection answers property maps, whose values carry the Go type the
  decoder gave them.
\<close>

section \<open>Property values\<close>

datatype dbus_value = DString string | DUint64 u64 | DStructs "dbus_value list list" | DArray "dbus_value list" | DOther

type_synonym properties = "string \<Rightarrow> dbus_value option"

text \<open>The assertion to \<^verbatim>\<open>string\<close> that gives the empty string when it fails.\<close>

definition as_string :: "dbus_value option \<Rightarrow> string" where
  "as_string v = (case v of Some (DString s) \<Rightarrow> s | _ \<Rightarrow> [])"

definition execStartPath :: "dbus_value option \<Rightarrow> string" where
  "execStartPath value =
     (case value of
        Some (DStructs ((f # _) # _)) \<Rightarrow> as_string (Some f)
      | Some (DArray (DArray (f # _) # _)) \<Rightarrow> as_string (Some f)
      | _ \<Rightarrow> [])"

text \<open>\<^verbatim>\<open>time.Unix\<close> in nanoseconds; \<^verbatim>\<open>int64(usec)\<close> wraps, its quotient is rounded towards zero.\<close>

definition active_since :: "u64 \<Rightarrow> int" where
  "active_since usec =
     (let sec = sgn (sint usec) * (\<bar>sint usec\<bar> div 1000000) in
      sec * 1000000000 + int (unat usec mod 1000000) * 1000)"

definition UnitInfoFromProperties :: "properties \<Rightarrow> properties \<Rightarrow> unit_info" where
  "UnitInfoFromProperties unitProps svcProps =
     \<lparr>ui_ActiveState = as_string (unitProps ''ActiveState''),
      ui_SubState = as_string (unitProps ''SubState''),
      ui_ActiveSince = (case unitProps ''ActiveEnterTimestamp'' of
         Some (DUint64 usec) \<Rightarrow> if 0 < usec then Some (active_since usec) else None | _ \<Rightarrow> None),
      ui_ExecPath = execStartPath (svcProps ''ExecStart'')\<rparr>"

section \<open>Queries\<close>

record unit_conn =
  uc_unit :: "string \<Rightarrow> string + properties"
  uc_service :: "string \<Rightarrow> string + properties"

record systemd_dials =
  sd_system :: "string + unit_conn"
  sd_private :: "string + unit_conn"

definition systemd_dial :: "systemd_dials \<Rightarrow> string + unit_conn" where
  "systemd_dial D =
     (case sd_system D of
        Inr conn \<Rightarrow> Inr conn
      | Inl err \<Rightarrow>
          (case sd_private D of
             Inr conn \<Rightarrow> Inr conn
           | Inl privateErr \<Rightarrow> Inl (''connect to systemd: system bus: '' @ err @ ''; private socket: '' @ privateErr)))"

definition QueryUnit :: "systemd_dials \<Rightarrow> string \<Rightarrow> string + unit_info" where
  "QueryUnit D name =
     (case systemd_dial D of
        Inl err \<Rightarrow> Inl err
      | Inr conn \<Rightarrow>
          (case uc_unit conn name of
             Inl err \<Rightarrow> Inl (''query unit '' @ name @ '': '' @ err)
           | Inr props \<Rightarrow>
               Inr (UnitInfoFromProperties props (case uc_service conn name of Inl _ \<Rightarrow> (\<lambda>_. None) | Inr svc \<Rightarrow> svc))))"

definition CanonicalID :: "systemd_dials \<Rightarrow> string \<Rightarrow> string + string" where
  "CanonicalID D name =
     (case systemd_dial D of
        Inl err \<Rightarrow> Inl err
      | Inr conn \<Rightarrow>
          (case uc_unit conn name of
             Inl err \<Rightarrow> Inl (''query unit '' @ name @ '': '' @ err)
           | Inr props \<Rightarrow>
               (let uid = as_string (props ''Id'') in
                if uid = [] then Inl (''systemd reported no Id for '' @ name) else Inr uid)))"

section \<open>The version\<close>

definition parseVersion :: "string \<Rightarrow> string option" where
  "parseVersion out =
     (case go_fields out of first # second # _ \<Rightarrow> if first \<noteq> ''Xray'' then None else Some second | _ \<Rightarrow> None)"

definition BinaryVersion_Version :: "(string \<Rightarrow> string + string) \<Rightarrow> string \<Rightarrow> string + string" where
  "BinaryVersion_Version run execPath =
     (case run execPath of
        Inl err \<Rightarrow> Inl (''run '' @ execPath @ '' version: '' @ err)
      | Inr out \<Rightarrow>
          (case parseVersion out of
             None \<Rightarrow> Inl (''parse '' @ execPath @ '' version output: '' @ trim_space out)
           | Some version \<Rightarrow> Inr version))"

section \<open>Facts\<close>

text \<open>A timestamp systemd can report is converted without loss.\<close>

lemma active_since_exact:
  assumes "unat usec < 2 ^ 63"
  shows "active_since usec = int (unat usec) * 1000"
proof -
  have "int (unat usec) < int (2 ^ 63)" using assms by (simp only: of_nat_less_iff)
  then have "uint usec < 2 ^ 63" by simp
  moreover have "0 \<le> uint usec" by simp
  ultimately have "sint usec = uint usec"
    unfolding sint_uint by (intro signed_take_bit_int_eq_self) (simp_all add: order.trans [OF _ uint_ge_0])
  then have "sint usec = int (unat usec)" by simp
  moreover have "int (unat usec) = 1000000 * (int (unat usec) div 1000000) + int (unat usec mod 1000000)"
    by (metis mult_div_mod_eq of_nat_mod of_nat_numeral)
  ultimately show ?thesis
    by (cases "unat usec = 0") (auto simp: active_since_def Let_def)
qed

text \<open>The private socket is dialled only when the system bus cannot be reached, and both causes are named.\<close>

lemma dial_prefers_system_bus:
  "systemd_dial D = Inr conn \<longleftrightarrow> sd_system D = Inr conn \<or> (\<exists>err. sd_system D = Inl err) \<and> sd_private D = Inr conn"
  by (auto simp: systemd_dial_def split: sum.splits)

lemma reads_release_banner: "parseVersion ''Xray 26.4.13 (Xray, Penetrates Everything.) 8ab9a61 (go1.26.1 linux/amd64)'' = Some ''26.4.13''"
  by code_simp

end
