(* ===== verification/Api.thy ===== *)
theory Api
  imports Roster Profiles Journal Auth Status ConfigSnapshot Config
begin

text \<open>
  The HTTP API, \<^verbatim>\<open>src/internal/api/handler.go\<close>, \<^verbatim>\<open>operational.go\<close> and \<^verbatim>\<open>user_detail.go\<close>: one definition per route, the
  guard of the mutations, the failure shapes, and the whole handler behind the authentication gateway.

  A request is the one of \<open>Auth\<close> with what \<^verbatim>\<open>net/http\<close> adds (\<open>request_info\<close>): the Host, the raw target, the query, and
  the unescaped segments of the path on which the router matches; redirects of the router itself are not modelled.
  A response carries its status (none when nothing is written), the two headers the code sets and its body before
  JSON encoding.  The three readings of the service behind the users table are taken at one moment.  What the
  sources answer is a record \<open>api_env\<close>; the Roster is the service of \<open>Roster\<close>, its
  state threaded through.  Decoding a JSON body and the host part of \<^verbatim>\<open>url.Parse\<close> are arguments.
\<close>

section \<open>Requests and responses\<close>

record request_info =
  ri_host :: string
  ri_target :: string
  ri_segments :: "string list"
  ri_rawQuery :: string
  ri_query :: "string list gomap"
  ri_gone :: bool

record log_response =
  lr_CapturedAt :: int
  lr_Source :: string
  lr_Filter :: string
  lr_Unit :: string
  lr_Limit :: nat
  lr_EntryCount :: nat
  lr_Entries :: "journal_entry list"

record security_response =
  sr_Type :: string
  sr_Fingerprint :: string
  sr_ServerName :: string
  sr_ALPN :: "string list"
  sr_ECH :: string
  sr_CertificatePins :: "string list"
  sr_VerifyName :: string
  sr_PublicKey :: string
  sr_ShortID :: "string option"
  sr_PostQuantumVerify :: string
  sr_SpiderX :: string

record available_response =
  ar_InboundTag :: string
  ar_Name :: string
  ar_Topology :: string
  ar_ClientID :: string
  ar_Flow :: "string option"
  ar_EndpointHost :: string
  ar_EndpointPort :: "16 word"
  ar_Transport :: profile_transport
  ar_Security :: security_response
  ar_URI :: string

datatype item_response = ItemAvailable available_response | ItemUnavailable unavailable_profile

record profiles_response =
  pr_State :: profile_state
  pr_LoadedAt :: "int option"
  pr_Stale :: bool
  pr_Errors :: "(profile_source \<times> source_error) list"
  pr_Items :: "item_response list"

datatype 'stats api_body =
    NoBody
  | ErrorBody string
  | FailureBody string "string option"
  | HealthBody
  | PanelBody string int string "string option"
  | StatsBody 'stats
  | XrayBody xray_status string
  | UsersBody int bool "(user \<times> apply_state option) list" sync_state "(string \<times> string) list"
  | MutationBody roster_record sync_state
  | SyncBody sync_state
  | DetailBody int bool user profiles_response
  | LogBody log_response
  | ConfigBody int string nat string
  | Dashboard

record 'stats api_answer =
  aa_status :: "nat option"
  aa_noStore :: bool
  aa_retryAfter :: "string option"
  aa_body :: "'stats api_body"

definition writeJSON :: "nat \<Rightarrow> 'stats api_body \<Rightarrow> 'stats api_answer" where
  "writeJSON status body = \<lparr>aa_status = Some status, aa_noStore = False, aa_retryAfter = None, aa_body = body\<rparr>"

definition noStore :: "'stats api_answer \<Rightarrow> 'stats api_answer" where
  "noStore a = a\<lparr>aa_noStore := True\<rparr>"

record 'stats api_env =
  ap_mode :: auth_mode
  ap_Version :: string
  ap_XrayAPIEndpoint :: string
  ap_SignOutURL :: string
  ap_uptime :: int
  ap_stats :: "string + 'stats"
  ap_xray :: "string + xray_status"
  ap_users :: "string + users_snapshot"
  ap_sources :: profile_sources
  ap_profile_lib :: profile_lib
  ap_uuid :: uuid_lib
  ap_view :: view
  ap_fail :: "nat \<Rightarrow> string option"
  ap_now :: int
  ap_settle :: "answer \<Rightarrow> sync_state"
  ap_decode_add :: "string \<Rightarrow> (string \<times> string \<times> string list) option"
  ap_decode_edit :: "string \<Rightarrow> edit_request option"
  ap_collect :: "string \<Rightarrow> string \<Rightarrow> journal_error + journal_snapshot"
  ap_config :: "snapshot_error + config_snapshot"
  ap_url_host :: "string \<Rightarrow> string option"

section \<open>The guard of the mutations\<close>

definition header_get :: "string list gomap \<Rightarrow> string \<Rightarrow> string" where
  "header_get headers name = (case headerValues headers name of [] \<Rightarrow> [] | v # _ \<Rightarrow> v)"

definition splitHostPort :: "string \<Rightarrow> string \<times> string" where
  "splitHostPort hostPort = (case SplitHostPort hostPort of None \<Rightarrow> (hostPort, []) | Some hp \<Rightarrow> hp)"

definition originMatchesHost :: "(string \<Rightarrow> string option) \<Rightarrow> string \<Rightarrow> string \<Rightarrow> bool" where
  "originMatchesHost url_host origin host =
     (case url_host origin of
        None \<Rightarrow> False
      | Some parsed \<Rightarrow>
          (case (splitHostPort parsed, splitHostPort host) of
             ((originHost, originPort), (requestHost, requestPort)) \<Rightarrow>
               equal_fold originHost requestHost \<and> (originPort = [] \<or> requestPort = [] \<or> originPort = requestPort)))"

definition same_site :: "(string \<Rightarrow> string option) \<Rightarrow> request_info \<Rightarrow> request \<Rightarrow> bool" where
  "same_site url_host x r \<longleftrightarrow>
     (let origin = header_get (rq_headers r) ''Origin'' in origin = [] \<or> originMatchesHost url_host origin (ri_host x)) \<and>
     header_get (rq_headers r) ''Sec-Fetch-Site'' \<in> {[], ''same-origin'', ''same-site'', ''none''}"

definition sameSiteOnly ::
  "(string \<Rightarrow> string option) \<Rightarrow> (service \<Rightarrow> 'stats api_answer \<times> service) \<Rightarrow> request_info \<Rightarrow> request \<Rightarrow> service \<Rightarrow> 'stats api_answer \<times> service" where
  "sameSiteOnly url_host nxt x r s =
     (if same_site url_host x r then nxt s else (writeJSON 403 (ErrorBody ''forbidden''), s))"

section \<open>Mutations\<close>

fun reason_text :: "reason \<Rightarrow> string" where
  "reason_text EmailInvalid = ''email_invalid''"
| "reason_text EmailTaken = ''email_taken''"
| "reason_text ClientIDInvalid = ''client_id_invalid''"
| "reason_text ClientIDTaken = ''client_id_taken''"
| "reason_text UnknownInbound = ''unknown_inbound''"

fun writeMutationError :: "mutation_error \<Rightarrow> 'stats api_answer" where
  "writeMutationError (Conflict reason) = writeJSON 409 (ErrorBody (reason_text reason))"
| "writeMutationError (NotFound email) = writeJSON 404 (ErrorBody ''not_found'')"
| "writeMutationError (StoreFailed err) = writeJSON 500 (ErrorBody ''roster unavailable'')"
| "writeMutationError (StoreRefused err) = writeJSON 500 (ErrorBody ''roster unavailable'')"

definition mutation_answer ::
  "'stats api_env \<Rightarrow> nat \<Rightarrow> (mutation_error + roster_record \<times> answer) \<times> service \<Rightarrow> 'stats api_answer \<times> service" where
  "mutation_answer E status res =
     (case res of
        (Inl err, s) \<Rightarrow> (writeMutationError err, s)
      | (Inr (rec, ans), s) \<Rightarrow> (writeJSON status (MutationBody rec (ap_settle E ans)), s))"

definition removal_answer ::
  "'stats api_env \<Rightarrow> (mutation_error + answer \<times> bool) \<times> service \<Rightarrow> 'stats api_answer \<times> service" where
  "removal_answer E res =
     (case res of
        (Inl err, s) \<Rightarrow> (writeMutationError err, s)
      | (Inr (ans, done0), s) \<Rightarrow>
          if \<not> done0 then ((writeJSON 204 NoBody), s)
          else (writeJSON 200 (SyncBody (ap_settle E ans)), s))"

definition add_handler :: "'stats api_env \<Rightarrow> request \<Rightarrow> service \<Rightarrow> 'stats api_answer \<times> service" where
  "add_handler E r s =
     (case ap_decode_add E (rq_body r) of
        None \<Rightarrow> (writeJSON 400 (ErrorBody ''invalid_request''), s)
      | Some (email, cid, inbounds) \<Rightarrow>
          mutation_answer E 201 (Service_Add (ap_uuid E) (ap_view E) (ap_fail E) (ap_now E) email cid inbounds s))"

definition edit_handler :: "'stats api_env \<Rightarrow> string \<Rightarrow> request \<Rightarrow> service \<Rightarrow> 'stats api_answer \<times> service" where
  "edit_handler E email r s =
     (case ap_decode_edit E (rq_body r) of
        None \<Rightarrow> (writeJSON 400 (ErrorBody ''invalid_request''), s)
      | Some req \<Rightarrow> mutation_answer E 200 (Service_Edit (ap_uuid E) (ap_view E) (ap_fail E) (ap_now E) email req s))"

definition disable_handler :: "'stats api_env \<Rightarrow> string \<Rightarrow> service \<Rightarrow> 'stats api_answer \<times> service" where
  "disable_handler E email s = removal_answer E (Service_Disable (ap_fail E) (ap_now E) email s)"

definition enable_handler :: "'stats api_env \<Rightarrow> string \<Rightarrow> service \<Rightarrow> 'stats api_answer \<times> service" where
  "enable_handler E email s = mutation_answer E 200 (Service_Enable (ap_view E) (ap_fail E) (ap_now E) email s)"

definition delete_handler :: "'stats api_env \<Rightarrow> string \<Rightarrow> service \<Rightarrow> 'stats api_answer \<times> service" where
  "delete_handler E email s = removal_answer E (Service_Delete (ap_fail E) (ap_now E) email s)"

section \<open>Reads\<close>

definition panel_handler :: "'stats api_env \<Rightarrow> 'stats api_answer" where
  "panel_handler E = writeJSON 200 (PanelBody (ap_Version E) (ap_uptime E) (mode_name (ap_mode E))
     (if ap_mode E = ModeTrustedProxy \<and> ap_SignOutURL E \<noteq> [] then Some (ap_SignOutURL E) else None))"

definition server_handler :: "'stats api_env \<Rightarrow> 'stats api_answer" where
  "server_handler E =
     (case ap_stats E of Inl err \<Rightarrow> writeJSON 500 (ErrorBody ''host stats unavailable'') | Inr st \<Rightarrow> writeJSON 200 (StatsBody st))"

definition xray_handler :: "'stats api_env \<Rightarrow> 'stats api_answer" where
  "xray_handler E =
     (case ap_xray E of
        Inl err \<Rightarrow> writeJSON 500 (ErrorBody ''xray status unavailable'')
      | Inr st \<Rightarrow> writeJSON 200 (XrayBody st (ap_XrayAPIEndpoint E)))"

definition users_handler :: "'stats api_env \<Rightarrow> service \<Rightarrow> 'stats api_answer" where
  "users_handler E s =
     (case ap_users E of
        Inl err \<Rightarrow> writeJSON 500 (ErrorBody ''users unavailable'')
      | Inr snap \<Rightarrow> writeJSON 200 (UsersBody (sn_CollectedAt snap) (users_snapshot.sn_Stale snap)
          (map (\<lambda>u. (u, map_of (UserStates s) (us_Email u))) (sn_Users snap)) (syncLocked s) (InboundOptions (ap_view E))))"

subsection \<open>One user\<close>

text \<open>The loop over the segment: the position of a percent sign decides on the two bytes behind it.\<close>

fun bad_escape :: "string \<Rightarrow> bool" where
  "bad_escape [] \<longleftrightarrow> False"
| "bad_escape (c # s) \<longleftrightarrow>
     (if c \<noteq> CHR ''%'' then bad_escape s
      else if length s < 2 \<or> \<not> hex_char (s ! 0) \<or> \<not> hex_char (s ! 1) then True
      else bad_escape (drop 2 s))"

text \<open>The text behind the first occurrence of a substring.\<close>

fun behind :: "string \<Rightarrow> string \<Rightarrow> string option" where
  "behind p [] = (if p = [] then Some [] else None)"
| "behind p (c # s) = (if has_prefix (c # s) p then Some (drop (length p) (c # s)) else behind p s)"

definition malformedUserEmailEscape :: "string \<Rightarrow> bool" where
  "malformedUserEmailEscape target =
     (case behind ''/api/v1/users/'' (fst (cut_at (CHR ''?'') target)) of None \<Rightarrow> False | Some segment \<Rightarrow> bad_escape segment)"

definition securityJSON :: "profile_security \<Rightarrow> security_response" where
  "securityJSON c = \<lparr>sr_Type = pc_Type c, sr_Fingerprint = pc_Fingerprint c, sr_ServerName = pc_ServerName c,
     sr_ALPN = pc_ALPN c, sr_ECH = pc_ECH c, sr_CertificatePins = pc_CertificatePins c, sr_VerifyName = pc_VerifyName c,
     sr_PublicKey = pc_PublicKey c, sr_ShortID = (if pc_ShortIDPresent c then Some (pc_ShortID c) else None),
     sr_PostQuantumVerify = pc_PostQuantumVerify c, sr_SpiderX = pc_SpiderX c\<rparr>"

definition availableConnectionProfileJSON :: "available \<Rightarrow> available_response" where
  "availableConnectionProfileJSON p = \<lparr>ar_InboundTag = av_InboundTag p, ar_Name = av_Name p, ar_Topology = av_Topology p,
     ar_ClientID = av_ClientID p, ar_Flow = av_Flow p, ar_EndpointHost = av_EndpointHost p, ar_EndpointPort = av_EndpointPort p,
     ar_Transport = av_Transport p, ar_Security = securityJSON (av_Security p), ar_URI = av_URI p\<rparr>"

fun item_JSON :: "profile_item \<Rightarrow> item_response" where
  "item_JSON (Available p) = ItemAvailable (availableConnectionProfileJSON p)"
| "item_JSON (Unavailable u) = ItemUnavailable u"

definition connectionProfilesJSON :: "profile_collection \<Rightarrow> profiles_response" where
  "connectionProfilesJSON c = \<lparr>pr_State = cn_State c, pr_LoadedAt = map_option (\<lambda>t. t div 1000000000) (cn_LoadedAt c),
     pr_Stale = cn_Stale c, pr_Errors = cn_Errors c, pr_Items = map item_JSON (cn_Items c)\<rparr>"

text \<open>
  The detail of one user.  \<^verbatim>\<open>Evaluate\<close> of \<open>Profiles\<close> is partial only where the code would index out of range, so
  \<^const>\<open>None\<close> is that panic.
\<close>

definition detail_handler :: "'stats api_env \<Rightarrow> request_info \<Rightarrow> string \<Rightarrow> 'stats api_answer option" where
  "detail_handler E x email =
     (if malformedUserEmailEscape (ri_target x) then Some (writeJSON 400 (ErrorBody ''invalid_request''))
      else case ap_users E of
        Inl err \<Rightarrow> Some (writeJSON 500 (ErrorBody ''user detail unavailable''))
      | Inr snap \<Rightarrow>
          (case find (\<lambda>u. us_Email u = email) (sn_Users snap) of
             None \<Rightarrow> Some (writeJSON 404 (ErrorBody ''not_found''))
           | Some u \<Rightarrow>
               map_option (\<lambda>coll. writeJSON 200 (DetailBody (sn_CollectedAt snap) (users_snapshot.sn_Stale snap) u (connectionProfilesJSON coll)))
                 (Evaluate (ap_profile_lib E) email (us_Disabled u) (ap_sources E))))"

section \<open>The viewers\<close>

definition logSnapshotJSON :: "journal_snapshot \<Rightarrow> log_response" where
  "logSnapshotJSON snap = \<lparr>lr_CapturedAt = sp_CapturedAt snap div 1000000000, lr_Source = sp_Source snap, lr_Filter = sp_Filter snap,
     lr_Unit = sp_Unit snap, lr_Limit = sp_Limit snap, lr_EntryCount = length (sp_Entries snap), lr_Entries = sp_Entries snap\<rparr>"

definition writeSnapshotFailure :: "nat \<Rightarrow> string \<Rightarrow> string \<Rightarrow> 'stats api_answer" where
  "writeSnapshotFailure status message reason =
     writeJSON status (FailureBody message (if reason = [] then None else Some reason))"

definition nothing_written :: "'stats api_answer" where
  "nothing_written = \<lparr>aa_status = None, aa_noStore = False, aa_retryAfter = None, aa_body = NoBody\<rparr>"

fun log_reason_text :: "journal_reason \<Rightarrow> string" where
  "log_reason_text ReasonSnapshotInProgress = ''snapshot_in_progress''"
| "log_reason_text ReasonJournalctlUnavailable = ''journalctl_unavailable''"
| "log_reason_text ReasonAccessDenied = ''access_denied''"
| "log_reason_text ReasonTimeout = ''timeout''"
| "log_reason_text ReasonOutputTooLarge = ''output_too_large''"
| "log_reason_text ReasonMalformedOutput = ''malformed_output''"
| "log_reason_text ReasonCommandFailed = ''command_failed''"

definition writeLogFailure :: "request_info \<Rightarrow> journal_error \<Rightarrow> 'stats api_answer" where
  "writeLogFailure x err =
     (if ri_gone x then nothing_written
      else case err of
        Failure reason detail \<Rightarrow>
          if reason = ReasonSnapshotInProgress
          then (writeSnapshotFailure 429 ''log snapshot unavailable'' (log_reason_text reason))\<lparr>aa_retryAfter := Some ''1''\<rparr>
          else writeSnapshotFailure 503 ''log snapshot unavailable'' (log_reason_text reason)
      | _ \<Rightarrow> writeSnapshotFailure 500 ''log snapshot unavailable'' [])"

fun config_reason_text :: "snapshot_reason \<Rightarrow> string" where
  "config_reason_text ReasonUnreadable = ''config_unreadable''"
| "config_reason_text ReasonTooLarge = ''config_too_large''"
| "config_reason_text ReasonNotUTF8 = ''config_not_utf8''"

definition writeConfigFailure :: "request_info \<Rightarrow> snapshot_error \<Rightarrow> 'stats api_answer" where
  "writeConfigFailure x err =
     (if ri_gone x then nothing_written
      else case err of
        SnapshotFailed reason \<Rightarrow> writeSnapshotFailure 503 ''config snapshot unavailable'' (config_reason_text reason)
      | Cancelled \<Rightarrow> writeSnapshotFailure 500 ''config snapshot unavailable'' [])"

definition invalid_request :: "'stats api_answer" where
  "invalid_request = writeJSON 400 (ErrorBody ''invalid_request'')"

definition log_answer :: "request_info \<Rightarrow> journal_error + journal_snapshot \<Rightarrow> 'stats api_answer" where
  "log_answer x res =
     (case res of Inl err \<Rightarrow> writeLogFailure x err | Inr snap \<Rightarrow> writeJSON 200 (LogBody (logSnapshotJSON snap)))"

definition logSnapshotHandler :: "'stats api_env \<Rightarrow> string \<Rightarrow> request_info \<Rightarrow> 'stats api_answer" where
  "logSnapshotHandler E source x =
     (if ri_rawQuery x \<noteq> [] then invalid_request else log_answer x (ap_collect E source FilterAll))"

definition requestedFilter :: "request_info \<Rightarrow> string option" where
  "requestedFilter x =
     (if ri_query x = [] then Some FilterAll
      else case map_of (ri_query x) ''filter'' of
        Some [value] \<Rightarrow>
          if length (ri_query x) \<noteq> 1 then None
          else if value = FilterAll \<or> value = FilterSystem then Some value else None
      | _ \<Rightarrow> None)"

definition xrayLogSnapshotHandler :: "'stats api_env \<Rightarrow> request_info \<Rightarrow> 'stats api_answer" where
  "xrayLogSnapshotHandler E x =
     (case requestedFilter x of None \<Rightarrow> invalid_request | Some f \<Rightarrow> log_answer x (ap_collect E SourceXray f))"

definition configSnapshotHandler :: "'stats api_env \<Rightarrow> request_info \<Rightarrow> 'stats api_answer" where
  "configSnapshotHandler E x =
     (if ri_rawQuery x \<noteq> [] then invalid_request
      else case ap_config E of
        Inl err \<Rightarrow> writeConfigFailure x err
      | Inr snap \<Rightarrow> writeJSON 200 (ConfigBody (cs_CapturedAt snap div 1000000000) (cs_Path snap) (cs_SizeBytes snap) (cs_Text snap)))"

section \<open>Routes and the handler\<close>

datatype route =
    RHealth | RPanel | RServer | RXray | RUsers | RAdd | REdit string | RDisable string | REnable string
  | RDelete string | RDetail string | RLogsPanel | RLogsXray | RXrayConfig | RApi | RDashboard

text \<open>
  The patterns of the router.  A pattern for GET matches HEAD as well, a wildcard one segment that is not empty;
  what no pattern of the API matches, under whichever method, falls to the catch-all.
\<close>

definition get_route :: "string list \<Rightarrow> route option" where
  "get_route segs =
     (if segs = [''api'', ''v1'', ''healthz''] then Some RHealth
      else if segs = [''api'', ''v1'', ''panel''] then Some RPanel
      else if segs = [''api'', ''v1'', ''server''] then Some RServer
      else if segs = [''api'', ''v1'', ''xray''] then Some RXray
      else if segs = [''api'', ''v1'', ''users''] then Some RUsers
      else if segs = [''api'', ''v1'', ''logs'', ''panel''] then Some RLogsPanel
      else if segs = [''api'', ''v1'', ''logs'', ''xray''] then Some RLogsXray
      else if segs = [''api'', ''v1'', ''xray'', ''config''] then Some RXrayConfig
      else if take 3 segs = [''api'', ''v1'', ''users''] \<and> length segs = 4 \<and> segs ! 3 \<noteq> [] then Some (RDetail (segs ! 3))
      else None)"

definition mutation_route :: "string \<Rightarrow> string list \<Rightarrow> route option" where
  "mutation_route m segs =
     (if take 3 segs \<noteq> [''api'', ''v1'', ''users''] then None
      else if length segs = 3 then (if m = ''POST'' then Some RAdd else None)
      else if segs ! 3 = [] then None
      else if length segs = 4 then
        (if m = ''PATCH'' then Some (REdit (segs ! 3)) else if m = ''DELETE'' then Some (RDelete (segs ! 3)) else None)
      else if length segs = 5 \<and> m = ''POST'' \<and> segs ! 4 = ''disable'' then Some (RDisable (segs ! 3))
      else if length segs = 5 \<and> m = ''POST'' \<and> segs ! 4 = ''enable'' then Some (REnable (segs ! 3))
      else None)"

definition api_route :: "string \<Rightarrow> string list \<Rightarrow> route" where
  "api_route m segs =
     (case (if m = ''GET'' \<or> m = ''HEAD'' then get_route segs else mutation_route m segs) of
        Some rt \<Rightarrow> rt
      | None \<Rightarrow> if 2 \<le> length segs \<and> hd segs = ''api'' then RApi else RDashboard)"

definition guarded ::
  "'stats api_env \<Rightarrow> request_info \<Rightarrow> request \<Rightarrow> (service \<Rightarrow> 'stats api_answer \<times> service) \<Rightarrow> service \<Rightarrow> 'stats api_answer option \<times> service" where
  "guarded E x r h s = (case sameSiteOnly (ap_url_host E) h x r s of (a, s') \<Rightarrow> (Some (noStore a), s'))"

definition api_serve :: "'stats api_env \<Rightarrow> request_info \<Rightarrow> request \<Rightarrow> service \<Rightarrow> 'stats api_answer option \<times> service" where
  "api_serve E x r s =
     (case api_route (rq_method r) (ri_segments x) of
        RHealth \<Rightarrow> (Some (writeJSON 200 HealthBody), s)
      | RPanel \<Rightarrow> (Some (noStore (panel_handler E)), s)
      | RServer \<Rightarrow> (Some (noStore (server_handler E)), s)
      | RXray \<Rightarrow> (Some (noStore (xray_handler E)), s)
      | RUsers \<Rightarrow> (Some (noStore (users_handler E s)), s)
      | RAdd \<Rightarrow> guarded E x r (add_handler E r) s
      | REdit email \<Rightarrow> guarded E x r (edit_handler E email r) s
      | RDisable email \<Rightarrow> guarded E x r (disable_handler E email) s
      | REnable email \<Rightarrow> guarded E x r (enable_handler E email) s
      | RDelete email \<Rightarrow> guarded E x r (delete_handler E email) s
      | RDetail email \<Rightarrow> (map_option noStore (detail_handler E x email), s)
      | RLogsPanel \<Rightarrow> (Some (noStore (logSnapshotHandler E SourcePanel x)), s)
      | RLogsXray \<Rightarrow> (Some (noStore (xrayLogSnapshotHandler E x)), s)
      | RXrayConfig \<Rightarrow> (Some (noStore (configSnapshotHandler E x)), s)
      | RApi \<Rightarrow> (Some (writeJSON 404 (ErrorBody ''not found'')), s)
      | RDashboard \<Rightarrow> (Some (writeJSON 200 Dashboard), s))"

text \<open>The handler \<^verbatim>\<open>New\<close> returns: the routes behind the gateway, which passes a request on or answers itself.\<close>

definition panel_serve ::
  "'h auth_lib \<Rightarrow> string option \<Rightarrow> int \<Rightarrow> int \<Rightarrow> 'h gateway \<Rightarrow> 'stats api_env \<Rightarrow> request_info \<Rightarrow> request \<Rightarrow> service \<Rightarrow>
     'h gateway \<times> response \<times> 'stats api_answer option \<times> service" where
  "panel_serve L entropy now now' g E x r s =
     (case Gateway_Handler L entropy now now' g r of (g', resp) \<Rightarrow>
        (case rs_next resp of
           None \<Rightarrow> (g', resp, None, s)
         | Some r' \<Rightarrow> (case api_serve E x r' s of (a, s') \<Rightarrow> (g', resp, a, s'))))"

section \<open>Who can change the Roster\<close>

lemma guarded_state: "snd (guarded E x r h s) \<noteq> s \<Longrightarrow> same_site (ap_url_host E) x r"
  by (auto simp: guarded_def sameSiteOnly_def split: if_splits prod.splits)

lemma get_route_reads:
  "get_route segs = Some rt \<Longrightarrow> rt \<in> {RHealth, RPanel, RServer, RXray, RUsers, RLogsPanel, RLogsXray, RXrayConfig} \<union> range RDetail"
  by (auto simp: get_route_def split: if_splits)

text \<open>A request that changes the service is a mutation, and same-site.\<close>

lemma serve_changes:
  assumes "snd (api_serve E x r s) \<noteq> s"
  shows "mutation_route (rq_method r) (ri_segments x) \<noteq> None \<and> same_site (ap_url_host E) x r"
proof -
  let ?rt = "api_route (rq_method r) (ri_segments x)"
  have g: "\<exists>h. api_serve E x r s = guarded E x r h s"
    using assms unfolding api_serve_def by (cases ?rt) auto
  then have site: "same_site (ap_url_host E) x r" using assms guarded_state by metis
  have kind: "?rt \<in> {RAdd} \<union> range REdit \<union> range RDisable \<union> range REnable \<union> range RDelete"
    using assms unfolding api_serve_def by (cases ?rt) auto
  show ?thesis
  proof (cases "rq_method r = ''GET'' \<or> rq_method r = ''HEAD''")
    case True
    then have "get_route (ri_segments x) = Some ?rt"
      using kind by (auto simp: api_route_def split: option.splits if_splits)
    from get_route_reads [OF this] kind show ?thesis by auto
  next
    case False
    then have "mutation_route (rq_method r) (ri_segments x) = Some ?rt"
      using kind by (auto simp: api_route_def split: option.splits if_splits)
    then show ?thesis using site by simp
  qed
qed

lemma mutation_path:
  assumes "mutation_route m segs \<noteq> None"
  shows "m \<notin> {''GET'', ''HEAD''} \<and> has_prefix (''/'' @ join ''/'' segs) ''/api/v1/users''"
proof -
  have t: "take 3 segs = [''api'', ''v1'', ''users'']" and m: "m \<in> {''POST'', ''PATCH'', ''DELETE''}"
    using assms by (auto simp: mutation_route_def split: if_splits)
  obtain rest where segs: "segs = ''api'' # ''v1'' # ''users'' # rest"
    using t by (metis append_Cons append_Nil append_take_drop_id)
  have "has_prefix (''/'' @ join ''/'' segs) ''/api/v1/users''" by (cases rest) (simp_all add: segs has_prefix_def)
  then show ?thesis using m by auto
qed

lemma kept_header:
  assumes "\<not> list_ex (equal_fold name) trustedHeaders"
  shows "headerValues (stripTrustedHeaders headers) name = headerValues headers name"
proof -
  have "\<not> list_ex (equal_fold key) trustedHeaders" if "equal_fold key name" for key
    using assms that equal_fold_sym equal_fold_trans by (metis (mono_tags, lifting) list_ex_iff)
  then have "filter (\<lambda>(key, _). equal_fold key name) (stripTrustedHeaders headers) = filter (\<lambda>(key, _). equal_fold key name) headers"
    unfolding stripTrustedHeaders_def by (induction headers) auto
  then show ?thesis by (simp add: headerValues_def)
qed

lemma equal_fold_heads:
  assumes "ascii_lower c \<noteq> ascii_lower d" "c \<notin> {CHR 0xE2, CHR 0xC5}" "d \<notin> {CHR 0xE2, CHR 0xC5}"
  shows "\<not> equal_fold (c # r) (d # q)"
  using assms by (simp add: equal_fold_def)

lemma same_site_headers_kept:
  "\<not> list_ex (equal_fold ''Origin'') trustedHeaders" "\<not> list_ex (equal_fold ''Sec-Fetch-Site'') trustedHeaders"
  by (simp_all add: trustedHeaders_def equal_fold_heads ascii_lower_def del: fold_key.simps)

lemma same_site_kept:
  "same_site url_host x (r\<lparr>rq_headers := stripTrustedHeaders (rq_headers r)\<rparr>) \<longleftrightarrow> same_site url_host x r"
  by (simp add: same_site_def header_get_def kept_header same_site_headers_kept)

lemma prefix_differs: "has_prefix s p \<Longrightarrow> \<not> has_prefix t p \<Longrightarrow> s \<noteq> t"
  by auto

lemma users_path_not_open:
  assumes "has_prefix path ''/api/v1/users''"
  shows "path \<noteq> ''/api/v1/healthz'' \<and> path \<noteq> ''/api/v1/login'' \<and> path \<noteq> ''/api/v1/logout'' \<and> has_prefix path ''/api/''"
proof -
  have "\<not> has_prefix ''/api/v1/healthz'' ''/api/v1/users''" by code_simp
  moreover have "\<not> has_prefix ''/api/v1/login'' ''/api/v1/users''" by code_simp
  moreover have "\<not> has_prefix ''/api/v1/logout'' ''/api/v1/users''" by code_simp
  moreover obtain rest where "path = ''/api/v1/users'' @ rest" using has_prefixD [OF assms] by blast
  then have "path = ''/api/'' @ ''v1/users'' @ rest" by simp
  then have "has_prefix path ''/api/''" by (simp only: has_prefix_append)
  ultimately show ?thesis using assms by blast
qed

text \<open>A concrete request, behind a proxy whose secret has the digest \<^verbatim>\<open>k\<close>, that disables the one user of a Roster.\<close>

definition disable_ann :: request where
  "disable_ann = \<lparr>rq_method = ''POST'', rq_path = ''/api/v1/users/Ann@x/disable'',
     rq_headers = [(''X-Xform-Authenticated'', [''k''])], rq_body = []\<rparr>"

definition disable_ann_info :: request_info where
  "disable_ann_info = \<lparr>ri_host = ''panel'', ri_target = ''/api/v1/users/Ann@x/disable'',
     ri_segments = [''api'', ''v1'', ''users'', ''Ann@x'', ''disable''], ri_rawQuery = [], ri_query = [], ri_gone = False\<rparr>"

definition plain_env :: "unit api_env" where
  "plain_env = \<lparr>ap_mode = ModeTrustedProxy, ap_Version = [], ap_XrayAPIEndpoint = [], ap_SignOutURL = [], ap_uptime = 0,
     ap_stats = Inl [], ap_xray = Inl [], ap_users = Inl [], ap_sources = ex_sources, ap_profile_lib = ex_lib, ap_uuid = no_uuid,
     ap_view = [], ap_fail = no_fail, ap_now = 2, ap_settle = (\<lambda>_. Synced), ap_decode_add = (\<lambda>_. None),
     ap_decode_edit = (\<lambda>_. None), ap_collect = (\<lambda>_ _. Inl (CallerGone [])), ap_config = Inl Cancelled, ap_url_host = Some\<rparr>"

definition proxied :: "string gateway" where
  "proxied = \<lparr>gw_mode = ModeTrustedProxy, gw_sessions = None, gw_trustedHash = Some ''k''\<rparr>"

text \<open>
  C6. Nobody changes the Roster through the panel without being admitted and same-site.  For every request, method
  and path, if serving it changes the service at all then it is one of the five mutations, its Origin (when it has
  one) names the host it was sent to and its fetch site is not cross-site, and it was admitted: in password mode
  its session cookie is valid at that moment, behind a trusted proxy it carries exactly one assertion, whose digest
  is that of the secret.  The only thing asked of the router is that the segments it matches on are the path's.
\<close>

theorem roster_changes_need_admission:
  assumes "rq_path r = ''/'' @ join ''/'' (ri_segments x)"
    and "panel_serve L entropy now now' g E x r s = (g', resp, ans, s')" and "s' \<noteq> s"
  shows "mutation_route (rq_method r) (ri_segments x) \<noteq> None \<and> same_site (ap_url_host E) x r \<and>
    (case gw_mode g of
       ModePassword \<Rightarrow> \<exists>token. al_cookie L (rq_headers r) sessionCookieName = Some token \<and>
         snd (Gateway_Validate now now' token g)
     | ModeTrustedProxy \<Rightarrow> \<exists>value. headerValues (rq_headers r) ''X-Xform-Authenticated'' = [value] \<and>
         gw_trustedHash g = Some (al_sha256 L value))"
proof -
  obtain r' where h: "Gateway_Handler L entropy now now' g r = (g', resp)" and nxt: "rs_next resp = Some r'"
      and served: "snd (api_serve E x r' s) = s'"
    using assms(2,3) by (auto simp: panel_serve_def split: prod.splits option.splits)
  have changes: "mutation_route (rq_method r') (ri_segments x) \<noteq> None" "same_site (ap_url_host E) x r'"
    using serve_changes [of E x r' s] served assms(3) by auto
  have passed: "r' = r \<or> r' = r\<lparr>rq_headers := stripTrustedHeaders (rq_headers r)\<rparr>"
    using h nxt by (auto simp: Gateway_Handler_def requireTrustedAssertion_def requireSession_def gateway_login_def
        gateway_logout_def unauthorized_def silent_def Let_def split: if_splits list.splits option.splits prod.splits login_result.splits)
  then have verb: "rq_method r' = rq_method r" and site: "same_site (ap_url_host E) x r"
    using changes(2) same_site_kept by auto
  have route: "mutation_route (rq_method r) (ri_segments x) \<noteq> None" using changes(1) verb by simp
  have path: "has_prefix (rq_path r) ''/api/v1/users''" and m: "rq_method r \<notin> {''GET'', ''HEAD''}"
    using mutation_path [OF route] assms(1) by simp_all
  note closed = users_path_not_open [OF path]
  have health: "\<not> isHealthRequest r" using m by (auto simp: isHealthRequest_def)
  have admitted: "case gw_mode g of
       ModePassword \<Rightarrow> \<exists>token. al_cookie L (rq_headers r) sessionCookieName = Some token \<and>
         snd (Gateway_Validate now now' token g)
     | ModeTrustedProxy \<Rightarrow> \<exists>value. headerValues (rq_headers r) ''X-Xform-Authenticated'' = [value] \<and>
         gw_trustedHash g = Some (al_sha256 L value)"
  proof (cases "gw_mode g")
    case ModePassword
    then have "requireSession L now now' g r = (g', resp)" using h health closed by (simp add: Gateway_Handler_def)
    then show ?thesis using nxt ModePassword
      by (auto simp: requireSession_def unauthorized_def silent_def Let_def split: option.splits prod.splits if_splits)
  next
    case ModeTrustedProxy
    then have "requireTrustedAssertion L g r = resp" using h health by (auto simp: Gateway_Handler_def)
    then show ?thesis using nxt ModeTrustedProxy
      by (auto simp: requireTrustedAssertion_def unauthorized_def silent_def split: list.splits if_splits)
  qed
  show ?thesis using route site admitted by blast
qed

theorem roster_changes_need_admission_witness:
  "snd (snd (snd (panel_serve plain_lib None 0 0 proxied plain_env disable_ann_info disable_ann ann_service))) \<noteq> ann_service \<and>
   mutation_route ''POST'' (ri_segments disable_ann_info) \<noteq> None \<and> same_site Some disable_ann_info disable_ann"
proof -
  let ?p = "panel_serve plain_lib None 0 0 proxied plain_env disable_ann_info disable_ann ann_service"
  have h: "headerValues (rq_headers disable_ann) ''X-Xform-Authenticated'' = [''k'']"
    by (simp add: headerValues_def disable_ann_def)
  have strip: "disable_ann\<lparr>rq_headers := stripTrustedHeaders (rq_headers disable_ann)\<rparr> = disable_ann\<lparr>rq_headers := []\<rparr>"
    by (simp add: disable_ann_def stripTrustedHeaders_def trustedHeaders_def)
  have "rs_next (snd (Gateway_Handler plain_lib None 0 0 proxied disable_ann)) = Some (disable_ann\<lparr>rq_headers := []\<rparr>)"
    using h strip by (simp add: Gateway_Handler_def requireTrustedAssertion_def proxied_def plain_lib_def isHealthRequest_def
        silent_def Let_def)
  then have "snd (snd (snd ?p)) = snd (api_serve plain_env disable_ann_info (disable_ann\<lparr>rq_headers := []\<rparr>) ann_service)"
    by (simp add: panel_serve_def case_prod_beta)
  moreover have "sv_pending (snd (api_serve plain_env disable_ann_info (disable_ann\<lparr>rq_headers := []\<rparr>) ann_service)) \<noteq>
      sv_pending ann_service" by code_simp
  ultimately have "sv_pending (snd (snd (snd ?p))) \<noteq> sv_pending ann_service" by simp
  then have changed: "snd (snd (snd ?p)) \<noteq> ann_service" by metis
  have path: "rq_path disable_ann = ''/'' @ join ''/'' (ri_segments disable_ann_info)" by code_simp
  obtain g' resp ans s' where p: "?p = (g', resp, ans, s')" by (metis prod_cases4)
  then have "s' \<noteq> ann_service" using changed by simp
  from roster_changes_need_admission [OF path p this] changed
  show ?thesis by (simp add: disable_ann_def plain_env_def)
qed

section \<open>What a request can make the panel read\<close>

lemma removal_collect [simp]: "removal_answer (E\<lparr>ap_collect := c\<rparr>) = removal_answer E"
  by (rule ext) (auto simp: removal_answer_def split: prod.split sum.split)

lemma mutation_collect [simp]: "mutation_answer (E\<lparr>ap_collect := c\<rparr>) = mutation_answer E"
  by (intro ext) (auto simp: mutation_answer_def split: prod.split sum.split)

lemma collect_irrelevant:
  "panel_handler (E\<lparr>ap_collect := c\<rparr>) = panel_handler E" "server_handler (E\<lparr>ap_collect := c\<rparr>) = server_handler E"
  "xray_handler (E\<lparr>ap_collect := c\<rparr>) = xray_handler E" "users_handler (E\<lparr>ap_collect := c\<rparr>) s = users_handler E s"
  "add_handler (E\<lparr>ap_collect := c\<rparr>) r = add_handler E r" "edit_handler (E\<lparr>ap_collect := c\<rparr>) e r = edit_handler E e r"
  "disable_handler (E\<lparr>ap_collect := c\<rparr>) e = disable_handler E e" "enable_handler (E\<lparr>ap_collect := c\<rparr>) e = enable_handler E e"
  "delete_handler (E\<lparr>ap_collect := c\<rparr>) e = delete_handler E e" "detail_handler (E\<lparr>ap_collect := c\<rparr>) x e = detail_handler E x e"
  "configSnapshotHandler (E\<lparr>ap_collect := c\<rparr>) x = configSnapshotHandler E x"
  "guarded (E\<lparr>ap_collect := c\<rparr>) x r h s = guarded E x r h s"
  by (simp_all add: fun_eq_iff panel_handler_def server_handler_def xray_handler_def users_handler_def add_handler_def
      edit_handler_def disable_handler_def enable_handler_def delete_handler_def detail_handler_def configSnapshotHandler_def
      guarded_def cong: option.case_cong sum.case_cong prod.case_cong)


end
