(* ===== verification/Process.thy ===== *)
theory Process
  imports Listener Config Journal GeoIP Complex_Main
begin

text \<open>
  The process around the components: the log handler \<^verbatim>\<open>src/internal/logging/journal.go\<close>, the host statistics
  \<^verbatim>\<open>src/internal/hoststats\<close>, the embedded dashboard \<^verbatim>\<open>src/internal/cmd/xform/dashboard.go\<close> and the decisions of
  \<^verbatim>\<open>src/internal/cmd/xform/main.go\<close> (listener, journal gate, country file).  What slog's text handler encodes, what
  the operating system reports and what the embedded files hold are arguments.  The lemmas show that the prefix of a
  log line is the line's own, that a collected CPU share is a finite percentage, that the dashboard looks only inside
  its own files, and that the startup gate lets only a named service through.
\<close>

section \<open>Logging\<close>

datatype 'a handler_op = OpGroup string | OpAttrs "'a list"

record 'a journal_handler =
  jh_ops :: "'a handler_op list"

definition NewJournalHandler :: "'a journal_handler" where
  "NewJournalHandler = \<lparr>jh_ops = []\<rparr>"

definition LevelInfo :: int where "LevelInfo = 0"

definition LevelWarn :: int where "LevelWarn = 4"

definition LevelError :: int where "LevelError = 8"

definition journalPriority :: "int \<Rightarrow> nat" where
  "journalPriority level =
     (if LevelError \<le> level then 3 else if LevelWarn \<le> level then 4 else if LevelInfo \<le> level then 6 else 7)"

definition WithAttrs :: "'a list \<Rightarrow> 'a journal_handler \<Rightarrow> 'a journal_handler" where
  "WithAttrs attrs h = h\<lparr>jh_ops := jh_ops h @ [OpAttrs attrs]\<rparr>"

definition WithGroup :: "string \<Rightarrow> 'a journal_handler \<Rightarrow> 'a journal_handler" where
  "WithGroup name h = (if name = [] then h else h\<lparr>jh_ops := jh_ops h @ [OpGroup name]\<rparr>)"

text \<open>
  \<open>encode\<close> is slog's text handler without time and level, the groups and attributes of the operations applied in
  order, on a record with an empty message.  The result is the text handed to the one write, or the encoder's error.
\<close>

definition handler_Handle ::
  "('a handler_op list \<Rightarrow> int \<Rightarrow> 'a list \<Rightarrow> string + string) \<Rightarrow> 'a journal_handler \<Rightarrow> int \<Rightarrow> string \<Rightarrow> 'a list \<Rightarrow> string + string" where
  "handler_Handle encode h level message attrs =
     (case encode (jh_ops h) level attrs of
        Inl err \<Rightarrow> Inl err
      | Inr encoded \<Rightarrow>
          let body = (if has_prefix encoded ''msg=\"\"'' then drop 6 encoded else encoded);
              tail = (if has_suffix body [CHR 0x0A] then butlast body else body)
          in Inr (''<'' @ [char_of (48 + journalPriority level)] @ ''>'' @ message @ tail @ [CHR 0x0A]))"

text \<open>A message and attributes of one line make one line, which starts with the priority of its level.\<close>

lemma one_line_one_prefix:
  assumes "encode (jh_ops h) level attrs = Inr (''msg=\"\"'' @ rest @ [CHR 0x0A])"
    and "CHR 0x0A \<notin> set message" and "CHR 0x0A \<notin> set rest"
  shows "\<exists>line. handler_Handle encode h level message attrs = Inr (line @ [CHR 0x0A]) \<and> CHR 0x0A \<notin> set line \<and>
    has_prefix line (''<'' @ [char_of (48 + journalPriority level)] @ ''>'' @ message)"
proof -
  have digit: "char_of (48 + journalPriority level) \<noteq> CHR 0x0A"
  proof -
    have "char_of (51 :: nat) \<noteq> CHR 0x0A" "char_of (52 :: nat) \<noteq> CHR 0x0A" "char_of (54 :: nat) \<noteq> CHR 0x0A"
        "char_of (55 :: nat) \<noteq> CHR 0x0A" by code_simp+
    then show ?thesis by (simp add: journalPriority_def)
  qed
  have "handler_Handle encode h level message attrs =
      Inr ((''<'' @ [char_of (48 + journalPriority level)] @ ''>'' @ message @ rest) @ [CHR 0x0A])"
    using assms(1) by (simp add: handler_Handle_def has_prefix_def has_suffix_def butlast_append)
  moreover have "CHR 0x0A \<notin> set (''<'' @ [char_of (48 + journalPriority level)] @ ''>'' @ message @ rest)"
    using assms(2,3) digit by auto
  moreover have "has_prefix (''<'' @ [char_of (48 + journalPriority level)] @ ''>'' @ message @ rest)
      (''<'' @ [char_of (48 + journalPriority level)] @ ''>'' @ message)" by (simp add: has_prefix_def)
  ultimately show ?thesis by blast
qed

text \<open>The prefix is written once per record: the second line of a message has none.\<close>

lemma second_line_without_prefix:
  "handler_Handle (\<lambda>_ _ _. Inr (''msg=\"\"'' @ [CHR 0x0A])) NewJournalHandler LevelError (''a'' @ [CHR 0x0A] @ ''b'') [] =
     Inr (''<3>a'' @ [CHR 0x0A] @ ''b'' @ [CHR 0x0A])"
  by code_simp

section \<open>Host statistics\<close>

datatype float64 = NaN | Infinite bool | Finite real

record host_stats =
  hs_CollectedAt :: int
  hs_CPUPercent :: float64
  hs_CPUCores :: int
  hs_MemUsedBytes :: u64
  hs_MemTotalBytes :: u64
  hs_DiskPath :: string
  hs_DiskUsedBytes :: u64
  hs_DiskTotalBytes :: u64
  hs_UptimeSeconds :: u64
  hs_LoadAvg :: "float64 \<times> float64 \<times> float64"

record host_reads =
  hr_percent :: "string + float64 list"
  hr_cores :: "string + int"
  hr_memory :: "string + u64 \<times> u64"
  hr_storage :: "string \<Rightarrow> string + u64 \<times> u64"
  hr_uptime :: "string + u64"
  hr_load :: "string + float64 \<times> float64 \<times> float64"
  hr_now :: int

fun clampPercent :: "float64 \<Rightarrow> float64" where
  "clampPercent NaN = Finite 0"
| "clampPercent (Infinite negative) = Finite 0"
| "clampPercent (Finite v) = Finite (if v < 0 then 0 else if v > 100 then 100 else v)"

definition rootDiskPath :: string where
  "rootDiskPath = ''/''"

definition read_host :: "string \<Rightarrow> string + 'a \<Rightarrow> ('a \<Rightarrow> string + 'b) \<Rightarrow> string + 'b" where
  "read_host what res k = (case res of Inl err \<Rightarrow> Inl (what @ err) | Inr v \<Rightarrow> k v)"

definition host_Collect :: "host_reads \<Rightarrow> string + host_stats" where
  "host_Collect H =
     read_host ''read CPU usage: '' (hr_percent H) (\<lambda>percent.
       if length percent \<noteq> 1 then Inl ''read CPU usage: expected one aggregate value''
       else read_host ''read CPU count: '' (hr_cores H) (\<lambda>cores.
         read_host ''read memory usage: '' (hr_memory H) (\<lambda>memory.
           read_host ''read storage usage: '' (hr_storage H rootDiskPath) (\<lambda>storage.
             read_host ''read host uptime: '' (hr_uptime H) (\<lambda>uptime.
               read_host ''read load average: '' (hr_load H) (\<lambda>load_average.
                 Inr \<lparr>hs_CollectedAt = hr_now H, hs_CPUPercent = clampPercent (percent ! 0), hs_CPUCores = cores,
                   hs_MemUsedBytes = fst memory, hs_MemTotalBytes = snd memory, hs_DiskPath = rootDiskPath,
                   hs_DiskUsedBytes = fst storage, hs_DiskTotalBytes = snd storage, hs_UptimeSeconds = uptime,
                   hs_LoadAvg = load_average\<rparr>))))))"

lemma clampPercent_finite: "\<exists>p. clampPercent v = Finite p \<and> 0 \<le> p \<and> p \<le> 100"
  by (cases v) auto

lemma collected_percentage:
  assumes "host_Collect H = Inr st"
  shows "(\<exists>p. hs_CPUPercent st = Finite p \<and> 0 \<le> p \<and> p \<le> 100) \<and> hs_DiskPath st = ''/'' \<and> hr_memory H = Inr (hs_MemUsedBytes st, hs_MemTotalBytes st) \<and>
    hr_storage H ''/'' = Inr (hs_DiskUsedBytes st, hs_DiskTotalBytes st)"
  using assms clampPercent_finite
  by (auto simp: host_Collect_def read_host_def rootDiskPath_def split: sum.splits if_splits)

section \<open>Paths\<close>

text \<open>\<^verbatim>\<open>path.Clean\<close>: empty and dot elements go, a parent element takes one back, or goes where there is none in a rooted path.\<close>

fun clean_from :: "bool \<Rightarrow> string list \<Rightarrow> string list \<Rightarrow> string list" where
  "clean_from rooted acc [] = rev acc"
| "clean_from rooted acc (e # es) =
     (if e = [] \<or> e = ''.'' then clean_from rooted acc es
      else if e = ''..'' then
        (if acc \<noteq> [] \<and> hd acc \<noteq> ''..'' then clean_from rooted (tl acc) es
         else if rooted then clean_from rooted acc es
         else clean_from rooted (''..'' # acc) es)
      else clean_from rooted (e # acc) es)"

definition path_Clean :: "string \<Rightarrow> string" where
  "path_Clean p =
     (let rooted = has_prefix p ''/''; es = clean_from rooted [] (split_byte (CHR ''/'') p) in
      if rooted then ''/'' @ join ''/'' es else if es = [] then ''.'' else join ''/'' es)"

lemma clean_rooted_inside:
  assumes "''..'' \<notin> set acc" "[] \<notin> set acc" "''.'' \<notin> set acc"
  shows "set (clean_from True acc es) \<inter> {''..'', [], ''.''} = {}"
  using assms
proof (induction True acc es rule: clean_from.induct)
  case (2 acc e es)
  have "x \<notin> set (tl acc)" if "x \<notin> set acc" for x using that by (cases acc) auto
  then show ?case using 2 by auto
qed auto

section \<open>The dashboard\<close>

datatype dashboard_answer = MethodNotAllowed | ServedAsset string bool | NoSuchPage | IndexPage

definition has_ext :: "string \<Rightarrow> bool" where
  "has_ext p \<longleftrightarrow> CHR ''.'' \<in> set (last (split_byte (CHR ''/'') p))"

definition asset_path :: "string \<Rightarrow> string" where
  "asset_path url_path =
     (let cleaned = path_Clean url_path; p = (if has_prefix cleaned ''/'' then drop 1 cleaned else cleaned) in
      if p = ''.'' then [] else p)"

text \<open>\<open>stat\<close> answers for the embedded files: none for an error, else whether it is a directory.\<close>

definition dashboard_ServeHTTP :: "(string \<Rightarrow> bool option) \<Rightarrow> string \<Rightarrow> string \<Rightarrow> dashboard_answer" where
  "dashboard_ServeHTTP stat verb url_path =
     (if verb \<noteq> ''GET'' \<and> verb \<noteq> ''HEAD'' then MethodNotAllowed
      else
        let p = asset_path url_path in
        if p = [] then IndexPage
        else case stat p of
          Some is_dir \<Rightarrow> if is_dir then NoSuchPage else ServedAsset p (has_prefix p ''assets/'')
        | None \<Rightarrow> if has_ext p then NoSuchPage else IndexPage)"

text \<open>
  Only an embedded file is served, under the path of a rooted request cleaned of every parent element; the answer
  depends on the files through that one path.
\<close>

lemma dashboard_stays_inside:
  assumes "has_prefix url_path ''/''" and "dashboard_ServeHTTP stat verb url_path = ServedAsset p immutable"
  shows "stat p = Some False \<and> (\<exists>es. p = join ''/'' es \<and> es \<noteq> [] \<and> set es \<inter> {''..'', [], ''.''} = {})"
proof -
  let ?es = "clean_from True [] (split_byte (CHR ''/'') url_path)"
  have p: "p = asset_path url_path" "p \<noteq> []" "stat p = Some False"
    using assms(2) by (auto simp: dashboard_ServeHTTP_def Let_def split: if_splits option.splits)
  have "path_Clean url_path = ''/'' @ join ''/'' ?es" using assms(1) by (simp add: path_Clean_def Let_def)
  then have "p = join ''/'' ?es"
    using p(1,2) by (auto simp: asset_path_def Let_def has_prefix_def split: if_splits)
  moreover have "?es \<noteq> []" using p(2) calculation by auto
  moreover have "set ?es \<inter> {''..'', [], ''.''} = {}" by (rule clean_rooted_inside) auto
  ultimately show ?thesis using p(3) by blast
qed

section \<open>Startup\<close>

definition start_listener :: "'w kernel \<Rightarrow> config \<Rightarrow> 'w \<Rightarrow> (listen_error list + panel_listener) \<times> 'w" where
  "start_listener K cfg w =
     (if cf_AuthMode cfg = ''trusted_proxy'' then ListenTrusted K (cf_ListenAddress cfg) w else Listen K (cf_ListenAddress cfg) w)"

lemma trusted_never_plain: "fst (ListenTrusted K address w) \<noteq> Inr (Plain l)"
  using listenUnix_owned [of K _ w "Plain l"]
  by (auto simp: ListenTrusted_def Listen_def Let_def split: option.splits sum.splits prod.splits net_listener.splits)

datatype gate_error = JournalctlRefused string | UnitRefused resolve_error

definition journalXrayUnit :: "exec_env \<Rightarrow> config \<Rightarrow> (string \<Rightarrow> string option) \<Rightarrow> gate_error + string" where
  "journalXrayUnit X cfg canonical_id =
     (case ValidateExecutable X (cf_JournalctlPath cfg) of
        Some err \<Rightarrow> Inl (JournalctlRefused (''XFORM_JOURNALCTL: '' @ err))
      | None \<Rightarrow> (case ResolveXrayUnit (cf_XrayUnitName cfg) canonical_id of Inl err \<Rightarrow> Inl (UnitRefused err) | Inr unit \<Rightarrow> Inr unit))"

text \<open>The gate opens exactly for an executable journalctl and a unit that systemd names, both names being valid.\<close>

lemma gate_opens_iff:
  "journalXrayUnit X cfg canonical_id = Inr unit \<longleftrightarrow>
     ValidateExecutable X (cf_JournalctlPath cfg) = None \<and> validUnitName (cf_XrayUnitName cfg) = None \<and>
     canonical_id (cf_XrayUnitName cfg) = Some unit \<and> validUnitName unit = None"
  by (auto simp: journalXrayUnit_def ResolveXrayUnit_def split: option.splits)

definition filepath_Dir :: "string \<Rightarrow> string" where
  "filepath_Dir p = path_Clean (rev (dropWhile (\<lambda>c. c \<noteq> CHR ''/'') (rev p)))"

definition geo_candidates :: "config \<Rightarrow> string list" where
  "geo_candidates cfg =
     [''/usr/local/share/xray/geoip.dat'', path_Clean (filepath_Dir (cf_XrayConfigPath cfg) @ ''/geoip.dat'')]"

definition loadGeoIP :: "config \<Rightarrow> (string \<Rightarrow> bool) \<Rightarrow> (string \<Rightarrow> string + prefix_entry list) \<Rightarrow> prefix_entry list option" where
  "loadGeoIP cfg exists load =
     (let path = (if cf_GeoIPPath cfg \<noteq> [] then cf_GeoIPPath cfg
                  else case find exists (geo_candidates cfg) of None \<Rightarrow> [] | Some candidate \<Rightarrow> candidate)
      in if path = [] then None else case load path of Inl err \<Rightarrow> None | Inr resolver \<Rightarrow> Some resolver)"

text \<open>A configured file is the only one ever read; without one, the first of the two known places that has it.\<close>

lemma geo_file_chosen:
  "loadGeoIP cfg exists load =
     (if cf_GeoIPPath cfg \<noteq> [] then (case load (cf_GeoIPPath cfg) of Inl err \<Rightarrow> None | Inr r \<Rightarrow> Some r)
      else if exists (geo_candidates cfg ! 0) then (case load (geo_candidates cfg ! 0) of Inl err \<Rightarrow> None | Inr r \<Rightarrow> Some r)
      else if exists (geo_candidates cfg ! 1) \<and> geo_candidates cfg ! 1 \<noteq> []
      then (case load (geo_candidates cfg ! 1) of Inl err \<Rightarrow> None | Inr r \<Rightarrow> Some r)
      else None)"
  by (simp add: loadGeoIP_def geo_candidates_def)

lemma geo_beside_config: "geo_candidates cfg ! 1 = ''/usr/local/etc/xray/geoip.dat''"
  if "cf_XrayConfigPath cfg = ''/usr/local/etc/xray/config.json''"
proof -
  have "path_Clean (filepath_Dir ''/usr/local/etc/xray/config.json'' @ ''/geoip.dat'') = ''/usr/local/etc/xray/geoip.dat''"
    by code_simp
  then show ?thesis using that by (simp add: geo_candidates_def)
qed

end
