(* ===== verification/Migrate.thy ===== *)
theory Migrate
  imports Prelude
begin

text \<open>
  Opening the database, \<^verbatim>\<open>src/internal/users/store.go\<close>: the schema and its migrations, statement by statement.  A
  table is its column names and its rows; a statement is an argument-driven success or failure of SQLite that, when it
  fails, leaves the tables as they were.  The text SQLite's JSON functions make of an old protocol and security pair is
  an argument.  The theorem shows that every older schema comes out as the current one with each row's data carried
  over, and that opening again changes nothing; the lemma behind it, where an interruption leaves the label migration.
\<close>

section \<open>Tables and statements\<close>

datatype sql_value = SNull | SInt int | SText string

record sql_table =
  tb_columns :: "string list"
  tb_rows :: "(string \<Rightarrow> sql_value) list"

type_synonym sql_db = "string \<Rightarrow> sql_table option"

type_synonym sql_step = "sql_db \<times> nat \<Rightarrow> string option \<times> sql_db \<times> nat"

definition create_if_absent :: "string \<Rightarrow> string list \<Rightarrow> sql_db \<Rightarrow> sql_db option" where
  "create_if_absent name cs db = Some (if db name = None then db(name \<mapsto> \<lparr>tb_columns = cs, tb_rows = []\<rparr>) else db)"

definition rename_column :: "string \<Rightarrow> string \<Rightarrow> sql_table \<Rightarrow> sql_table option" where
  "rename_column old new t =
     (if old \<notin> set (tb_columns t) \<or> new \<in> set (tb_columns t) then None
      else Some \<lparr>tb_columns = map (\<lambda>c. if c = old then new else c) (tb_columns t), tb_rows = map (\<lambda>r. r(new := r old)) (tb_rows t)\<rparr>)"

definition add_column :: "string \<Rightarrow> sql_value \<Rightarrow> sql_table \<Rightarrow> sql_table option" where
  "add_column c initial t =
     (if c \<in> set (tb_columns t) then None
      else Some \<lparr>tb_columns = tb_columns t @ [c], tb_rows = map (\<lambda>r. r(c := initial)) (tb_rows t)\<rparr>)"

definition drop_column :: "string \<Rightarrow> sql_table \<Rightarrow> sql_table option" where
  "drop_column c t = (if c \<notin> set (tb_columns t) then None else Some (t\<lparr>tb_columns := filter (\<lambda>d. d \<noteq> c) (tb_columns t)\<rparr>))"

definition update_column :: "string \<Rightarrow> ((string \<Rightarrow> sql_value) \<Rightarrow> sql_value) \<Rightarrow> sql_table \<Rightarrow> sql_table option" where
  "update_column c f t =
     (if c \<notin> set (tb_columns t) then None else Some (t\<lparr>tb_rows := map (\<lambda>r. r(c := f r)) (tb_rows t)\<rparr>))"

definition on_table :: "string \<Rightarrow> (sql_table \<Rightarrow> sql_table option) \<Rightarrow> sql_db \<Rightarrow> sql_db option" where
  "on_table name f db =
     (case db name of None \<Rightarrow> None | Some t \<Rightarrow> map_option (\<lambda>t'. db(name \<mapsto> t')) (f t))"

text \<open>\<open>up n\<close> says whether SQLite carries the \<open>n\<close>th statement out; when it does not, the code returns the error.\<close>

definition statement :: "(nat \<Rightarrow> bool) \<Rightarrow> string \<Rightarrow> (sql_db \<Rightarrow> sql_db option) \<Rightarrow> sql_step" where
  "statement up what f st =
     (case st of (db, n) \<Rightarrow>
        if up n then (case f db of Some db' \<Rightarrow> (None, db', n + 1) | None \<Rightarrow> (Some what, db, n + 1)) else (Some what, db, n + 1))"

definition and_then :: "sql_step \<Rightarrow> sql_step \<Rightarrow> sql_step" where
  "and_then a b st = (case a st of (Some err, st') \<Rightarrow> (Some err, st') | (None, st') \<Rightarrow> b st')"

definition return_nil :: sql_step where
  "return_nil st = (None, st)"

section \<open>The migrations\<close>

definition tableColumns :: "(nat \<Rightarrow> bool) \<Rightarrow> string \<Rightarrow> (string list \<Rightarrow> sql_step) \<Rightarrow> sql_step" where
  "tableColumns up name k st =
     (case st of (db, n) \<Rightarrow>
        if \<not> up n then (Some (''inspect '' @ name @ '' schema''), db, n + 1)
        else k (case db name of None \<Rightarrow> [] | Some t \<Rightarrow> tb_columns t) (db, n + 1))"

definition migrateGoneToDisabled :: "(nat \<Rightarrow> bool) \<Rightarrow> string \<Rightarrow> sql_step" where
  "migrateGoneToDisabled up name =
     tableColumns up name (\<lambda>columns.
       if ''gone'' \<in> set columns
       then statement up (''migrate '' @ name @ '' schema'') (on_table name (rename_column ''gone'' ''disabled''))
       else if ''disabled'' \<notin> set columns
       then statement up (''migrate '' @ name @ '' schema'') (on_table name (add_column ''disabled'' (SInt 0)))
       else return_nil)"

definition migrateAddDeleting :: "(nat \<Rightarrow> bool) \<Rightarrow> sql_step" where
  "migrateAddDeleting up =
     tableColumns up ''roster'' (\<lambda>columns.
       if ''deleting'' \<notin> set columns
       then statement up ''migrate roster schema'' (on_table ''roster'' (add_column ''deleting'' (SInt 0)))
       else return_nil)"

definition old_label :: "(sql_value \<Rightarrow> sql_value \<Rightarrow> string) \<Rightarrow> (string \<Rightarrow> sql_value) \<Rightarrow> sql_value" where
  "old_label json_pair r =
     (if r ''protocol'' = SNull \<and> r ''security'' = SNull then SNull else SText (json_pair (r ''protocol'') (r ''security'')))"

definition migrateLabels :: "(sql_value \<Rightarrow> sql_value \<Rightarrow> string) \<Rightarrow> (nat \<Rightarrow> bool) \<Rightarrow> sql_step" where
  "migrateLabels json_pair up =
     tableColumns up ''users'' (\<lambda>columns.
       if ''protocol'' \<notin> set columns then return_nil
       else and_then (statement up ''migrate users schema'' (on_table ''users'' (add_column ''labels'' SNull)))
           (and_then (statement up ''migrate users labels'' (on_table ''users'' (update_column ''labels'' (old_label json_pair))))
           (and_then (statement up ''migrate users schema'' (on_table ''users'' (drop_column ''protocol'')))
              (statement up ''migrate users schema'' (on_table ''users'' (drop_column ''security''))))))"

definition users_schema :: "string list" where
  "users_schema = [''email'', ''labels'', ''up_bytes_total'', ''down_bytes_total'', ''last_seen'', ''last_ips'', ''disabled'', ''first_seen'']"

definition roster_schema :: "string list" where
  "roster_schema = [''email'', ''client_id'', ''inbounds'', ''disabled'', ''deleting'', ''created_at'', ''updated_at'']"

definition totals_schema :: "string list" where
  "totals_schema = [''id'', ''up_bytes_total'', ''down_bytes_total'']"

definition open_schema :: "(sql_value \<Rightarrow> sql_value \<Rightarrow> string) \<Rightarrow> (nat \<Rightarrow> bool) \<Rightarrow> sql_step" where
  "open_schema json_pair up =
     and_then (statement up ''create schema'' (create_if_absent ''users'' users_schema))
    (and_then (statement up ''create roster schema'' (create_if_absent ''roster'' roster_schema))
    (and_then (migrateGoneToDisabled up ''users'')
    (and_then (migrateGoneToDisabled up ''roster'')
    (and_then (migrateAddDeleting up)
    (and_then (migrateLabels json_pair up)
              (statement up ''create totals schema'' (create_if_absent ''xray_totals'' totals_schema)))))))"

text \<open>\<open>mkdir\<close> and \<open>opened\<close> are the failures of creating the directory and of opening the file, when there is one.\<close>

definition Open :: "(sql_value \<Rightarrow> sql_value \<Rightarrow> string) \<Rightarrow> string option \<Rightarrow> string option \<Rightarrow> (nat \<Rightarrow> bool) \<Rightarrow> string \<Rightarrow> sql_db \<Rightarrow> string option \<times> sql_db" where
  "Open json_pair mkdir opened up path db =
     (case (if path \<noteq> '':memory:'' then mkdir else None) of
        Some err \<Rightarrow> (Some (''create database directory: '' @ err), db)
      | None \<Rightarrow>
          (case opened of
             Some err \<Rightarrow> (Some (''open database: '' @ err), db)
           | None \<Rightarrow> (case open_schema json_pair up (db, 0) of (err, db', _) \<Rightarrow> (err, db'))))"

section \<open>Every older schema becomes the current one\<close>

text \<open>The schemas a released panel left behind, and what a row of one means in the current schema.\<close>

definition known_users :: "string list \<Rightarrow> bool" where
  "known_users cs \<longleftrightarrow> \<not> (''gone'' \<in> set cs \<and> ''disabled'' \<in> set cs) \<and>
     (if ''protocol'' \<in> set cs then ''security'' \<in> set cs \<and> ''labels'' \<notin> set cs else ''labels'' \<in> set cs)"

definition known_roster :: "string list \<Rightarrow> bool" where
  "known_roster cs \<longleftrightarrow> \<not> (''gone'' \<in> set cs \<and> ''disabled'' \<in> set cs)"

definition disabled_of :: "string list \<Rightarrow> (string \<Rightarrow> sql_value) \<Rightarrow> sql_value" where
  "disabled_of cs r = (if ''gone'' \<in> set cs then r ''gone'' else if ''disabled'' \<in> set cs then r ''disabled'' else SInt 0)"

definition user_now :: "(sql_value \<Rightarrow> sql_value \<Rightarrow> string) \<Rightarrow> string list \<Rightarrow> (string \<Rightarrow> sql_value) \<Rightarrow> string \<Rightarrow> sql_value" where
  "user_now json_pair cs r =
     r(''disabled'' := disabled_of cs r, ''labels'' := (if ''protocol'' \<in> set cs then old_label json_pair r else r ''labels''))"

definition roster_now :: "string list \<Rightarrow> (string \<Rightarrow> sql_value) \<Rightarrow> string \<Rightarrow> sql_value" where
  "roster_now cs r =
     r(''disabled'' := disabled_of cs r, ''deleting'' := (if ''deleting'' \<in> set cs then r ''deleting'' else SInt 0))"

definition table_or :: "sql_db \<Rightarrow> string \<Rightarrow> string list \<Rightarrow> sql_table" where
  "table_or db name schema = (case db name of None \<Rightarrow> \<lparr>tb_columns = schema, tb_rows = []\<rparr> | Some t \<Rightarrow> t)"

abbreviation always :: "nat \<Rightarrow> bool" where
  "always \<equiv> \<lambda>_. True"

lemma migrate_disabled:
  assumes "db name = Some t" and "\<not> (''gone'' \<in> set (tb_columns t) \<and> ''disabled'' \<in> set (tb_columns t))"
  shows "\<exists>t' n'. migrateGoneToDisabled always name (db, n) = (None, db(name \<mapsto> t'), n') \<and>
    set (tb_columns t') = insert ''disabled'' (set (tb_columns t) - {''gone''}) \<and>
    tb_rows t' = map (\<lambda>r. r(''disabled'' := disabled_of (tb_columns t) r)) (tb_rows t)"
proof -
  have same: "map (\<lambda>r. r(''disabled'' := r ''disabled'')) rows = rows" for rows :: "(string \<Rightarrow> sql_value) list"
    by simp
  have upd: "db(name \<mapsto> t) = db" using assms(1) by auto
  consider "''gone'' \<in> set (tb_columns t)" "''disabled'' \<notin> set (tb_columns t)"
    | "''gone'' \<notin> set (tb_columns t)" "''disabled'' \<notin> set (tb_columns t)"
    | "''gone'' \<notin> set (tb_columns t)" "''disabled'' \<in> set (tb_columns t)" using assms(2) by blast
  then show ?thesis
  proof cases
    case 1
    then show ?thesis using assms(1)
      by (intro exI [of _ "\<lparr>tb_columns = map (\<lambda>c. if c = ''gone'' then ''disabled'' else c) (tb_columns t),
            tb_rows = map (\<lambda>r. r(''disabled'' := r ''gone'')) (tb_rows t)\<rparr>"])
        (auto simp: migrateGoneToDisabled_def tableColumns_def statement_def on_table_def rename_column_def disabled_of_def)
  next
    case 2
    then show ?thesis using assms(1)
      by (intro exI [of _ "\<lparr>tb_columns = tb_columns t @ [''disabled''], tb_rows = map (\<lambda>r. r(''disabled'' := SInt 0)) (tb_rows t)\<rparr>"])
        (auto simp: migrateGoneToDisabled_def tableColumns_def statement_def on_table_def add_column_def disabled_of_def)
  next
    case 3
    then show ?thesis using assms(1) upd
      by (intro exI [of _ t]) (auto simp: migrateGoneToDisabled_def tableColumns_def return_nil_def disabled_of_def)
  qed
qed

lemma migrate_deleting:
  assumes "db ''roster'' = Some t"
  shows "\<exists>t' n'. migrateAddDeleting always (db, n) = (None, db(''roster'' \<mapsto> t'), n') \<and>
    set (tb_columns t') = insert ''deleting'' (set (tb_columns t)) \<and>
    tb_rows t' = map (\<lambda>r. r(''deleting'' := (if ''deleting'' \<in> set (tb_columns t) then r ''deleting'' else SInt 0))) (tb_rows t)"
proof (cases "''deleting'' \<in> set (tb_columns t)")
  case True
  then show ?thesis using assms
    by (intro exI [of _ t]) (auto simp: migrateAddDeleting_def tableColumns_def return_nil_def)
next
  case False
  then show ?thesis using assms
    by (intro exI [of _ "\<lparr>tb_columns = tb_columns t @ [''deleting''], tb_rows = map (\<lambda>r. r(''deleting'' := SInt 0)) (tb_rows t)\<rparr>"])
      (auto simp: migrateAddDeleting_def tableColumns_def statement_def on_table_def add_column_def)
qed

lemma migrate_labels:
  assumes "db ''users'' = Some t"
    and "if ''protocol'' \<in> set (tb_columns t) then ''security'' \<in> set (tb_columns t) \<and> ''labels'' \<notin> set (tb_columns t)
      else ''labels'' \<in> set (tb_columns t)"
  shows "\<exists>t' n'. migrateLabels json_pair always (db, n) = (None, db(''users'' \<mapsto> t'), n') \<and>
    set (tb_columns t') = insert ''labels'' (set (tb_columns t) - (if ''protocol'' \<in> set (tb_columns t) then {''protocol'', ''security''} else {})) \<and>
    tb_rows t' = map (\<lambda>r. r(''labels'' := (if ''protocol'' \<in> set (tb_columns t) then old_label json_pair r else r ''labels''))) (tb_rows t)"
proof (cases "''protocol'' \<in> set (tb_columns t)")
  case False
  then show ?thesis using assms
    by (intro exI [of _ t]) (auto simp: migrateLabels_def tableColumns_def return_nil_def)
next
  case True
  have old: "old_label json_pair (r(''labels'' := v)) = old_label json_pair r" for r v by (simp add: old_label_def)
  show ?thesis using assms True
    by (intro exI [of _ "\<lparr>tb_columns = filter (\<lambda>d. d \<noteq> ''security'') (filter (\<lambda>d. d \<noteq> ''protocol'') (tb_columns t @ [''labels''])),
          tb_rows = map (\<lambda>r. r(''labels'' := old_label json_pair r)) (tb_rows t)\<rparr>"])
      (auto simp: migrateLabels_def tableColumns_def and_then_def statement_def on_table_def add_column_def update_column_def
        drop_column_def old)
qed

lemma create_table:
  "statement always what (create_if_absent name cs) (db, n) = (None, db(name \<mapsto> table_or db name cs), n + 1)"
  by (auto simp: statement_def create_if_absent_def table_or_def split: option.split)

lemma open_schema_migrates:
  assumes "known_users (tb_columns u)" and "known_roster (tb_columns r)"
    and "u = table_or db ''users'' users_schema" and "r = table_or db ''roster'' roster_schema"
  shows "\<exists>u' r' n'. open_schema json_pair always (db, 0) =
      (None, db(''users'' \<mapsto> u', ''roster'' \<mapsto> r', ''xray_totals'' \<mapsto> table_or db ''xray_totals'' totals_schema), n') \<and>
    set (tb_columns u') = set (tb_columns u) - {''gone''} - (if ''protocol'' \<in> set (tb_columns u) then {''protocol'', ''security''} else {}) \<union> {''disabled'', ''labels''} \<and>
    set (tb_columns r') = set (tb_columns r) - {''gone''} \<union> {''disabled'', ''deleting''} \<and>
    tb_rows u' = map (user_now json_pair (tb_columns u)) (tb_rows u) \<and> tb_rows r' = map (roster_now (tb_columns r)) (tb_rows r)"
proof -
  let ?d1 = "db(''users'' \<mapsto> u)"
  let ?d2 = "?d1(''roster'' \<mapsto> r)"
  have r0: "table_or ?d1 ''roster'' roster_schema = r" using assms(4) by (simp add: table_or_def)
  obtain u1 n1 where u1: "migrateGoneToDisabled always ''users'' (?d2, 2) = (None, ?d2(''users'' \<mapsto> u1), n1)"
      "set (tb_columns u1) = insert ''disabled'' (set (tb_columns u) - {''gone''})"
      "tb_rows u1 = map (\<lambda>x. x(''disabled'' := disabled_of (tb_columns u) x)) (tb_rows u)"
    using migrate_disabled [of ?d2 "''users''" u 2] assms(1) by (auto simp: known_users_def)
  let ?d3 = "?d2(''users'' \<mapsto> u1)"
  obtain r1 n2 where r1: "migrateGoneToDisabled always ''roster'' (?d3, n1) = (None, ?d3(''roster'' \<mapsto> r1), n2)"
      "set (tb_columns r1) = insert ''disabled'' (set (tb_columns r) - {''gone''})"
      "tb_rows r1 = map (\<lambda>x. x(''disabled'' := disabled_of (tb_columns r) x)) (tb_rows r)"
    using migrate_disabled [of ?d3 "''roster''" r n1] assms(2) by (auto simp: known_roster_def)
  let ?d4 = "?d3(''roster'' \<mapsto> r1)"
  obtain r2 n3 where r2: "migrateAddDeleting always (?d4, n2) = (None, ?d4(''roster'' \<mapsto> r2), n3)"
      "set (tb_columns r2) = insert ''deleting'' (set (tb_columns r1))"
      "tb_rows r2 = map (\<lambda>x. x(''deleting'' := (if ''deleting'' \<in> set (tb_columns r1) then x ''deleting'' else SInt 0))) (tb_rows r1)"
    using migrate_deleting [of ?d4 r1 n2] by auto
  let ?d5 = "?d4(''roster'' \<mapsto> r2)"
  have shape: "if ''protocol'' \<in> set (tb_columns u1) then ''security'' \<in> set (tb_columns u1) \<and> ''labels'' \<notin> set (tb_columns u1)
      else ''labels'' \<in> set (tb_columns u1)"
    using assms(1) by (simp add: known_users_def u1(2))
  have "?d5 ''users'' = Some u1" by simp
  from migrate_labels [of ?d5, OF this shape, of json_pair n3]
  obtain u2 n4 where u2: "migrateLabels json_pair always (?d5, n3) = (None, ?d5(''users'' \<mapsto> u2), n4)"
      "set (tb_columns u2) = insert ''labels'' (set (tb_columns u1) - (if ''protocol'' \<in> set (tb_columns u1) then {''protocol'', ''security''} else {}))"
      "tb_rows u2 = map (\<lambda>x. x(''labels'' := (if ''protocol'' \<in> set (tb_columns u1) then old_label json_pair x else x ''labels''))) (tb_rows u1)"
    by (elim exE conjE) (rule that)
  have s1: "statement always ''create schema'' (create_if_absent ''users'' users_schema) (db, 0) = (None, ?d1, 1)"
    using create_table [of "''create schema''" "''users''" users_schema db 0] assms(3) by simp
  have s2: "statement always ''create roster schema'' (create_if_absent ''roster'' roster_schema) (?d1, 1) = (None, ?d2, 2)"
    using create_table [of "''create roster schema''" "''roster''" roster_schema ?d1 1] r0 by simp
  let ?d6 = "?d5(''users'' \<mapsto> u2)"
  have final: "?d6(''xray_totals'' \<mapsto> table_or ?d6 ''xray_totals'' totals_schema) =
      db(''users'' \<mapsto> u2, ''roster'' \<mapsto> r2, ''xray_totals'' \<mapsto> table_or db ''xray_totals'' totals_schema)"
    by (rule ext) (simp add: table_or_def)
  have s7: "statement always ''create totals schema'' (create_if_absent ''xray_totals'' totals_schema) (?d6, n4) =
      (None, db(''users'' \<mapsto> u2, ''roster'' \<mapsto> r2, ''xray_totals'' \<mapsto> table_or db ''xray_totals'' totals_schema), n4 + 1)"
    by (simp only: create_table final)
  have "open_schema json_pair always (db, 0) =
      (None, db(''users'' \<mapsto> u2, ''roster'' \<mapsto> r2, ''xray_totals'' \<mapsto> table_or db ''xray_totals'' totals_schema), n4 + 1)"
    by (simp only: open_schema_def and_then_def s1 s2 u1(1) r1(1) r2(1) u2(1) s7 prod.case option.case)
  moreover have "tb_rows u2 = map (user_now json_pair (tb_columns u)) (tb_rows u)"
    using u2(3) u1(2,3) by (auto simp: user_now_def old_label_def)
  moreover have "tb_rows r2 = map (roster_now (tb_columns r)) (tb_rows r)"
    using r2(3) r1(2,3) by (auto simp: roster_now_def)
  moreover have "set (tb_columns u2) = set (tb_columns u) - {''gone''} - (if ''protocol'' \<in> set (tb_columns u) then {''protocol'', ''security''} else {}) \<union> {''disabled'', ''labels''}"
    using u2(2) u1(2) by auto
  moreover have "set (tb_columns r2) = set (tb_columns r) - {''gone''} \<union> {''disabled'', ''deleting''}" using r2(2) r1(2) by auto
  ultimately show ?thesis by blast
qed

lemma current_unchanged:
  assumes "db ''users'' = Some u" "db ''roster'' = Some r" "db ''xray_totals'' = Some t"
    and "''disabled'' \<in> set (tb_columns u)" "''gone'' \<notin> set (tb_columns u)" "''protocol'' \<notin> set (tb_columns u)"
    and "{''disabled'', ''deleting''} \<subseteq> set (tb_columns r)" "''gone'' \<notin> set (tb_columns r)"
  shows "Open json_pair None None always path db = (None, db)"
  using assms
  by (simp add: Open_def open_schema_def and_then_def statement_def create_if_absent_def migrateGoneToDisabled_def
      migrateAddDeleting_def migrateLabels_def tableColumns_def return_nil_def)

text \<open>
  C38. Opening an older database brings it to the current schema and loses nothing.  Whichever of the released schemas
  the two tables have, or none, opening succeeds when SQLite carries the statements out; every row is there in order,
  with its old off flag as the disabled flag, a protocol and security pair as its one label, not being deleted
  unless it was, and every other column as it was; no other table is touched; and opening again changes nothing.
\<close>

theorem migrations_carry_rows:
  assumes "known_users (tb_columns u)" and "known_roster (tb_columns r)"
    and "u = table_or db ''users'' users_schema" and "r = table_or db ''roster'' roster_schema"
  shows "\<exists>db' u' r'. Open json_pair None None always path db = (None, db') \<and> db' ''users'' = Some u' \<and> db' ''roster'' = Some r' \<and>
    tb_rows u' = map (user_now json_pair (tb_columns u)) (tb_rows u) \<and> tb_rows r' = map (roster_now (tb_columns r)) (tb_rows r) \<and>
    set (tb_columns u') = set (tb_columns u) - {''gone''} - (if ''protocol'' \<in> set (tb_columns u) then {''protocol'', ''security''} else {}) \<union> {''disabled'', ''labels''} \<and>
    set (tb_columns r') = set (tb_columns r) - {''gone''} \<union> {''disabled'', ''deleting''} \<and>
    (\<forall>name. name \<notin> {''users'', ''roster'', ''xray_totals''} \<longrightarrow> db' name = db name) \<and>
    db' ''xray_totals'' = Some (table_or db ''xray_totals'' totals_schema) \<and>
    Open json_pair None None always path db' = (None, db')"
proof -
  obtain u' r' n' where run: "open_schema json_pair always (db, 0) =
      (None, db(''users'' \<mapsto> u', ''roster'' \<mapsto> r', ''xray_totals'' \<mapsto> table_or db ''xray_totals'' totals_schema), n')"
    and cols: "set (tb_columns u') = set (tb_columns u) - {''gone''} - (if ''protocol'' \<in> set (tb_columns u) then {''protocol'', ''security''} else {}) \<union> {''disabled'', ''labels''}"
      "set (tb_columns r') = set (tb_columns r) - {''gone''} \<union> {''disabled'', ''deleting''}"
    and rows: "tb_rows u' = map (user_now json_pair (tb_columns u)) (tb_rows u)" "tb_rows r' = map (roster_now (tb_columns r)) (tb_rows r)"
    using open_schema_migrates [OF assms, of json_pair] by (elim exE conjE) (rule that)
  let ?db = "db(''users'' \<mapsto> u', ''roster'' \<mapsto> r', ''xray_totals'' \<mapsto> table_or db ''xray_totals'' totals_schema)"
  have opened: "Open json_pair None None always path db = (None, ?db)" using run by (simp add: Open_def)
  have again: "Open json_pair None None always path ?db = (None, ?db)"
    by (rule current_unchanged [of _ u' r' "table_or db ''xray_totals'' totals_schema"]) (auto simp: cols)
  have tables: "?db ''users'' = Some u'" "?db ''roster'' = Some r'"
      "?db ''xray_totals'' = Some (table_or db ''xray_totals'' totals_schema)" by simp_all
  have others: "\<forall>name. name \<notin> {''users'', ''roster'', ''xray_totals''} \<longrightarrow> ?db name = db name" by simp
  show ?thesis
    by (intro exI conjI) (rule opened tables rows cols others again)+
qed

definition old_database :: sql_db where
  "old_database = [''users'' \<mapsto> \<lparr>tb_columns = [''email'', ''protocol'', ''security'', ''gone''],
     tb_rows = [(\<lambda>_. SNull)(''email'' := SText ''ann'', ''protocol'' := SText ''vless'', ''gone'' := SInt 1)]\<rparr>]"

theorem migrations_carry_rows_witness:
  "\<exists>db' u'. Open (\<lambda>_ _. ''pair'') None None always ''x.db'' old_database = (None, db') \<and> db' ''users'' = Some u' \<and>
    map (\<lambda>r. (r ''email'', r ''disabled'', r ''labels'')) (tb_rows u') = [(SText ''ann'', SInt 1, SText ''pair'')]"
proof -
  let ?u = "table_or old_database ''users'' users_schema" and ?r = "table_or old_database ''roster'' roster_schema"
  have ku: "known_users (tb_columns ?u)" by (simp add: table_or_def old_database_def known_users_def)
  have kr: "known_roster (tb_columns ?r)" by (simp add: table_or_def old_database_def known_roster_def roster_schema_def)
  have rows: "map (\<lambda>r. (r ''email'', r ''disabled'', r ''labels'')) (map (user_now (\<lambda>_ _. ''pair'') (tb_columns ?u)) (tb_rows ?u)) =
      [(SText ''ann'', SInt 1, SText ''pair'')]"
    by (simp add: table_or_def old_database_def user_now_def disabled_of_def old_label_def)
  from migrations_carry_rows [OF ku kr refl refl, of "\<lambda>_ _. ''pair''" "''x.db''"]
  show ?thesis
  proof (elim exE conjE)
    fix db' u' r'
    assume "Open (\<lambda>_ _. ''pair'') None None always ''x.db'' old_database = (None, db')" "db' ''users'' = Some u'"
      "tb_rows u' = map (user_now (\<lambda>_ _. ''pair'') (tb_columns ?u)) (tb_rows ?u)"
    then show ?thesis using rows by (intro exI [of _ db'] exI [of _ u']) (simp only: simp_thms)
  qed
qed

section \<open>An interrupted migration\<close>

text \<open>
  The label migration is four statements and no transaction.  Stopped behind the first, it leaves both the old pair
  and the new column, and from there every opening fails at that first statement, whatever SQLite does.
\<close>

lemma interrupted_labels_lock_out:
  assumes "db ''users'' = Some u" "''protocol'' \<in> set (tb_columns u)" "''labels'' \<in> set (tb_columns u)"
  shows "fst (migrateLabels json_pair up (db, n)) \<noteq> None \<and> fst (snd (migrateLabels json_pair up (db, n))) = db"
  using assms by (simp add: migrateLabels_def tableColumns_def and_then_def statement_def on_table_def add_column_def)

lemma interruption_reaches_it:
  assumes "db ''users'' = Some u" "''protocol'' \<in> set (tb_columns u)" "''labels'' \<notin> set (tb_columns u)"
  shows "\<exists>u'. migrateLabels json_pair (\<lambda>k. k < n + 2) (db, n) = (Some ''migrate users labels'', db(''users'' \<mapsto> u'), n + 3) \<and>
    ''protocol'' \<in> set (tb_columns u') \<and> ''labels'' \<in> set (tb_columns u')"
  using assms
  by (intro exI [of _ "\<lparr>tb_columns = tb_columns u @ [''labels''], tb_rows = map (\<lambda>r. r(''labels'' := SNull)) (tb_rows u)\<rparr>"])
    (simp add: migrateLabels_def tableColumns_def and_then_def statement_def on_table_def add_column_def)

end
