(* ===== verification/Spec2Isabelle.thy ===== *)
theory Spec2Isabelle
  imports Reconcile XrayConfig Store Collector Roster Auth Status Profiles Advertisements Journal
    Push GeoIP Listener Config ConfigSnapshot Systemd Api Process Migrate
begin

text \<open>
  A verification of xform, the panel that runs beside one xray proxy (Go, under
  \<^verbatim>\<open>src/internal\<close>).

  \<^bold>\<open>The program.\<close>  The panel keeps a Roster of users in SQLite and applies every change of it twice:
  to xray's config file, rewritten in place without touching an unrelated byte, and to the running
  xray over gRPC.  It polls xray's traffic counters, which restart with xray, and keeps durable
  totals per user and for the service.  It watches the config file, serves its last valid parse,
  converges xray to the Roster after an edit by hand, evaluates which connection profiles a user can
  be offered, and admits operators by password session or by a proxy's assertion.

  \<^bold>\<open>Theories, in the order they build on each other, with the source each models.\<close>

  \<^item> \<open>Prelude\<close>: Go strings as byte strings, \<^verbatim>\<open>strings\<close> and SQLite case folding, Go maps as association
    lists, shared lemmas and theorem collections.
  \<^item> \<open>Reconcile\<close> (\<^verbatim>\<open>reconcile/reconcile.go\<close>): the tracker of one raw counter, at 64 bits.
  \<^item> \<open>XrayConfig\<close> (\<^verbatim>\<open>xrayconfig/xrayconfig.go, view.go, source.go\<close>): from the decoded config to the
    Roster hand-off, the inbound view and the parse version.
  \<^item> \<open>Store\<close> (\<^verbatim>\<open>users/store.go\<close>): the three tables, and every query and transaction on them.
  \<^item> \<open>Migrate\<close> (\<^verbatim>\<open>users/store.go\<close>, \<^verbatim>\<open>Open\<close>): the schema and its migrations, statement by statement.
  \<^item> \<open>Collector\<close> (\<^verbatim>\<open>users/collector.go, users.go\<close>): a poll, split where it releases its mutex.
  \<^item> \<open>GoJson\<close>, \<open>Jsonc\<close>, \<open>JsonText\<close>: JSON strings as \<^verbatim>\<open>encoding/json\<close> reads and writes them, the
    panel's own scanner of JSON with comments (\<^verbatim>\<open>xrayconfig/render.go\<close>, second half), and one-line
    JSON text as its inverse.
  \<^item> \<open>Render\<close> (\<^verbatim>\<open>xrayconfig/render.go\<close>, first half, and \<^verbatim>\<open>roster/render.go\<close>): the text edits a plan
    needs and the atomic replacement of the file.
  \<^item> \<open>Roster\<close> (\<^verbatim>\<open>roster/service.go\<close>): the mutations, the queue of pending pushes, the apply pass,
    retry, recovery and convergence.
  \<^item> \<open>Auth\<close> (\<^verbatim>\<open>auth/auth.go\<close>): sessions, both admission modes, the handler.
  \<^item> \<open>FileSource\<close> (\<^verbatim>\<open>filesource\<close>, \<^verbatim>\<open>snapshot/snapshot.go\<close>, \<^verbatim>\<open>xrayconfig/watcher.go\<close>): the two caches of
    the last good value behind one locale, and the watched xray config.
  \<^item> \<open>Status\<close> (\<^verbatim>\<open>xraystatus/xraystatus.go\<close>): the service status and its durable totals.
  \<^item> \<open>Host\<close>, \<open>Profiles\<close> (\<^verbatim>\<open>profiles/profiles.go, uri.go\<close>, \<^verbatim>\<open>advertisements/view.go\<close>): host names and
    addresses in canonical form, profile evaluation, share links.
  \<^item> \<open>JsonTree\<close>, \<open>Advertisements\<close> (\<^verbatim>\<open>advertisements/parse.go, source.go, watcher.go\<close>): decoded JSON trees and
    the strict parse of the advertised settings.
  \<^item> \<open>GoStrings\<close>, \<open>Journal\<close> (\<^verbatim>\<open>journal\<close>): \<^verbatim>\<open>strings\<close> functions that cut text apart, and the bounded,
    fixed-argument reads of the system journal.
  \<^item> \<open>XrayGrpc\<close> (\<^verbatim>\<open>xraygrpc/xraygrpc.go, handler.go\<close>), \<open>Push\<close>: the two clients of xray, over a service whose
    answers are arguments; \<open>Push\<close> joins the second one to the apply pass of \<open>Roster\<close>.
  \<^item> \<open>GeoIP\<close> (\<^verbatim>\<open>geoip/geoip.go\<close>): the country of an address, with the \<^verbatim>\<open>netip\<close> values it needs.
  \<^item> \<open>NetAddr\<close>, \<open>Config\<close> (\<^verbatim>\<open>config/config.go\<close>): the environment and its validation.
  \<^item> \<open>Listener\<close> (\<^verbatim>\<open>listener/listener.go\<close>): the TCP and Unix listeners over a kernel given by its calls.
  \<^item> \<open>ConfigSnapshot\<close> (\<^verbatim>\<open>configsnapshot\<close>): one bounded read of the config file for display.
  \<^item> \<open>Systemd\<close> (\<^verbatim>\<open>xraystatus/systemd.go, version.go\<close>): the unit's properties and the binary's version.
  \<^item> \<open>Api\<close> (\<^verbatim>\<open>api\<close>): every route, its guard and its answers, behind the gateway of \<open>Auth\<close>.
  \<^item> \<open>Process\<close> (\<^verbatim>\<open>cmd/xform\<close>, \<^verbatim>\<open>logging\<close>, \<^verbatim>\<open>hoststats\<close>): the decisions of startup, the dashboard, the log
    handler and the host statistics.

  \<^bold>\<open>How state and effects are modelled.\<close>  A struct is a record, an operation a function from state to
  state and result; errors are values of sum or option types.  What a read, a query, a call to xray,
  the clock or a failing write answers is an argument of the operation, so every theorem holds for
  all answers.  Where code releases a mutex in the middle, the operation is split there and the
  theorems interleave.  The order Go leaves open (maps, unstable sorts) is an argument as well.
  Code outside the repository (google/uuid, xray-core, idna, jcs, sha256 digests, the JSON decoder of
  the config) is a parameter, with what is relied on as a hypothesis of the theorem.  Fixed-width
  integers are words where they can wrap.

  \<^bold>\<open>Interfaces.\<close>  Each is a locale, interpreted on the model's own definitions: \<open>durable_tracker\<close> (the
  per-user tracker), \<open>member_store\<close> (the Roster tables behind their abstraction), \<open>direction\<close> (upload and
  download, one set of conservation lemmas for both), \<open>last_good\<close> (the cache and the watcher),
  \<open>session_store\<close> (the in-memory sessions) and \<open>totals_store\<close> (the store's totals row).

  \<^bold>\<open>What the theorems show.\<close>  Traffic is conserved across failing writes, restarts of xray and of the
  panel; mutations keep emails and Client IDs unique; an edit's plan brings xray from the old record
  to the new one; a pass settles only what it pushed, under any interleaving; convergence heals
  drift; deletes complete after a restart; a rendered file is replaced whole, loses no byte under an
  attach, and reads back; the scanner terminates except where it is proved to hang; only live
  sessions and exact assertions are admitted; last valid values are served; advertised settings that
  parse are well-typed; offered profiles are sound and their links read back; log snapshots read only
  two fixed units, one child at a time, and skip no record; the pushes leave in the running xray what the plan
  says; only an admitted, same-site request changes the Roster; the panel never takes a socket that is not its
  own, nor one that is alive; a database of an older schema is brought to the current one with every row; a lookup of a country is the scan of its file.  Lemmas named in the manifest's findings prove where the code
  does otherwise.

  \<^bold>\<open>Fuel.\<close>  The scanner is mutually recursive and can hang, so it takes fuel: \<open>parse_fuel\<close>, twice the
  length of the document and one, is enough for every document it returns on, and more changes nothing.  Every
  other function is total.

  \<^bold>\<open>Not modelled.\<close>  The wiring of \<^verbatim>\<open>main\<close> itself (constructing the parts, goroutines, signals, shutdown), and the
  aliases of \<^verbatim>\<open>session\<close> and of the three \<^verbatim>\<open>cache.go\<close> files: glue around the operations above.  Processes,
  files and RPCs are calls whose answers are arguments.  Bodies of API answers are
  modelled before their JSON encoding.
\<close>

section \<open>Configuration and listener\<close>

text \<open>
  C21. The configuration and the trusted listener check the address alike.  An address that passes the check at startup
  goes straight to the kernel, and one that fails it is refused by the listener too, before any call is made.  Either
  way a listener that comes out is a Unix socket the panel owns or a TCP listener behind the loopback filter, which
  hands out a connection exactly when it is the first with a loopback peer before any failure, and closes those in front of it.
\<close>

theorem trusted_listen_checks_agree:
  "(if validateTrustedListen address = None
    then ListenTrusted K address w =
      (if has_prefix address ''unix:'' then listenUnix K (drop 5 address) w
       else case k_ListenTCP K address w of
         (Inl err, w1) \<Rightarrow> (Inl [listen_error.Failed [] err], w1)
       | (Inr (TCPListener h), w1) \<Rightarrow> (Inr (LoopbackTCP (TCPListener h)), w1)
       | (Inr l, w1) \<Rightarrow> (Inl [listen_error.Refused ''trusted proxy listener is not TCP''], snd (k_CloseListener K l w1)))
    else \<exists>message. ListenTrusted K address w = (Inl [listen_error.Refused message], w)) \<and>
   fst (ListenTrusted K address w) \<noteq> Inr (Plain plain) \<and>
   (loopback_Accept offers [] = Some (Inr conn, shut) \<longleftrightarrow>
     (\<exists>pre remote post. offers = map Inr pre @ Inr (conn, remote) # post \<and> local_peer (conn, remote) \<and>
        list_all (\<lambda>c. \<not> local_peer c) pre \<and> shut = map fst pre))"
proof (intro conjI)
  show "if validateTrustedListen address = None
    then ListenTrusted K address w =
      (if has_prefix address ''unix:'' then listenUnix K (drop 5 address) w
       else case k_ListenTCP K address w of
         (Inl err, w1) \<Rightarrow> (Inl [listen_error.Failed [] err], w1)
       | (Inr (TCPListener h), w1) \<Rightarrow> (Inr (LoopbackTCP (TCPListener h)), w1)
       | (Inr l, w1) \<Rightarrow> (Inl [listen_error.Refused ''trusted proxy listener is not TCP''], snd (k_CloseListener K l w1)))
    else \<exists>message. ListenTrusted K address w = (Inl [listen_error.Refused message], w)"
    by (auto simp: validateTrustedListen_def ListenTrusted_def Listen_def only_loopback_def loopback_address_def Let_def
        split: option.splits if_splits)
  show "fst (ListenTrusted K address w) \<noteq> Inr (Plain plain)"
    by (rule trusted_never_plain)
qed (simp add: accept_iff)

end
